(* ===== verification/SeqPrelude.thy ===== *)
theory SeqPrelude
  imports Main "HOL-Library.Multiset" "HOL-Library.State_Monad" "HOL-Library.Sublist" "HOL-Library.Code_Target_Nat"
begin

text \<open>
  Prelude of the sequencer library: the collections of facts that carry the proofs of the
  components, the weakest-precondition calculus for the state-passing code, and generic
  facts on lists and multisets that several components share.
\<close>

named_theorems wp_simps \<open>equations that push wp through the constructs of the monad\<close>
named_theorems wp_rules \<open>specifications of single operations, as introduction rules for wp\<close>
named_theorems go_simps \<open>equations of the model of the Go standard library\<close>

section \<open>Weakest preconditions of state-passing code\<close>

text \<open>
  The stateful Go code is written in the state monad of the library. \<open>wp m Q w\<close> says that
  running \<open>m\<close> in world \<open>w\<close> ends in a result and a world that satisfy \<open>Q\<close>. The monad is
  total, so this is total correctness.
\<close>

definition wp :: "('s, 'a) state \<Rightarrow> ('a \<Rightarrow> 's \<Rightarrow> bool) \<Rightarrow> 's \<Rightarrow> bool" where
  "wp m Q s = (case run_state m s of (r, s') \<Rightarrow> Q r s')"

definition gets_st :: "('s \<Rightarrow> 'a) \<Rightarrow> ('s, 'a) state" where
  "gets_st f = State (\<lambda>s. (f s, s))"

definition modify_st :: "('s \<Rightarrow> 's) \<Rightarrow> ('s, unit) state" where
  "modify_st f = State (\<lambda>s. ((), f s))"

lemma run_gets_st [simp]: "run_state (gets_st f) s = (f s, s)"
  by (simp add: gets_st_def)

lemma run_modify_st [simp]: "run_state (modify_st f) s = ((), f s)"
  by (simp add: modify_st_def)

lemma wp_return [wp_simps]: "wp (State_Monad.return x) Q = Q x"
  by (simp add: wp_def fun_eq_iff)

lemma wp_bind [wp_simps]: "wp (State_Monad.bind m f) Q = wp m (\<lambda>r. wp (f r) Q)"
  by (simp add: wp_def fun_eq_iff split: prod.split)

lemma wp_gets_st [wp_simps]: "wp (gets_st f) Q s = Q (f s) s"
  by (simp add: wp_def)

lemma wp_modify_st [wp_simps]: "wp (modify_st f) Q s = Q () (f s)"
  by (simp add: wp_def)

lemma wp_if [wp_simps]: "wp (if b then m else n) Q s = (if b then wp m Q s else wp n Q s)"
  by simp

lemma wp_mono: "wp m Q s \<Longrightarrow> (\<And>r s'. Q r s' \<Longrightarrow> Q' r s') \<Longrightarrow> wp m Q' s"
  by (auto simp: wp_def split: prod.splits)

lemma wp_conj: "wp m Q s \<Longrightarrow> wp m Q' s \<Longrightarrow> wp m (\<lambda>r s'. Q r s' \<and> Q' r s') s"
  by (auto simp: wp_def split: prod.splits)

lemma wp_run: "wp m Q s \<longleftrightarrow> Q (fst (run_state m s)) (snd (run_state m s))"
  by (simp add: wp_def split: prod.split)

text \<open>An operation that keeps a predicate on worlds, whatever it returns.\<close>

definition keeps :: "('s \<Rightarrow> bool) \<Rightarrow> ('s, 'a) state \<Rightarrow> bool" where
  "keeps I m = (\<forall>s. I s \<longrightarrow> I (snd (run_state m s)))"

lemma keepsI: "(\<And>s. I s \<Longrightarrow> wp m (\<lambda>_. I) s) \<Longrightarrow> keeps I m"
  by (auto simp: keeps_def wp_run)

lemma keepsD: "keeps I m \<Longrightarrow> I s \<Longrightarrow> wp m (\<lambda>_. I) s"
  by (auto simp: keeps_def wp_run)

lemma keeps_return [intro]: "keeps I (State_Monad.return x)"
  by (simp add: keeps_def)

lemma keeps_gets_st [intro]: "keeps I (gets_st f)"
  by (simp add: keeps_def)

lemma keeps_modify_st [intro]: "(\<And>s. I s \<Longrightarrow> I (f s)) \<Longrightarrow> keeps I (modify_st f)"
  by (simp add: keeps_def)

lemma keeps_bind [intro]: "keeps I m \<Longrightarrow> (\<And>r. keeps I (f r)) \<Longrightarrow> keeps I (State_Monad.bind m f)"
  by (auto simp: keeps_def split: prod.splits)

lemma keeps_if [intro]: "keeps I m \<Longrightarrow> keeps I n \<Longrightarrow> keeps I (if b then m else n)"
  by simp

text \<open>A first operation that keeps an invariant, then the rest from any world with it.\<close>

lemma wp_keeping: "keeps I m \<Longrightarrow> I s \<Longrightarrow> (\<And>r s'. I s' \<Longrightarrow> wp (f r) Q s') \<Longrightarrow> wp (State_Monad.bind m f) Q s"
  unfolding wp_bind by (rule wp_mono [OF keepsD [of I]])

section \<open>Lists and multisets\<close>

lemma sum_list_update_comm:
  fixes f :: "'a \<Rightarrow> 'b :: comm_monoid_add"
  assumes "i < length xs"
  shows "sum_list (map f (xs[i := y])) + f (xs ! i) = sum_list (map f xs) + f y"
  using assms
proof (induction xs arbitrary: i)
  case (Cons x xs)
  show ?case
  proof (cases i)
    case (Suc j)
    with Cons show ?thesis by (simp add: add.assoc)
  qed (simp add: add.commute add.left_commute)
qed simp

end
