(* ===== verification/GoStrings.thy ===== *)
theory GoStrings
  imports SeqPrelude
begin

text \<open>
  The parts of the Go packages strings, bytes, utf8 and strconv that the sequencer calls, as
  functions on byte strings (a Go string is a sequence of bytes, here a \<open>char list\<close>). White space
  is that of Unicode, a string is cut into runes as Go does it, valid or not.
\<close>

section \<open>Splitting, joining, trimming\<close>

fun split_by :: "('a \<Rightarrow> bool) \<Rightarrow> 'a list \<Rightarrow> 'a list list" where
  "split_by P [] = [[]]"
| "split_by P (x # xs) =
     (if P x then [] # split_by P xs
      else (case split_by P xs of [] \<Rightarrow> [[x]] | y # ys \<Rightarrow> (x # y) # ys))"

abbreviation split_on :: "'a \<Rightarrow> 'a list \<Rightarrow> 'a list list" where
  "split_on c \<equiv> split_by (\<lambda>x. x = c)"

fun join :: "'a list \<Rightarrow> 'a list list \<Rightarrow> 'a list" where
  "join sep [] = []"
| "join sep [x] = x"
| "join sep (x # y # ys) = x @ sep @ join sep (y # ys)"

lemma split_by_nonempty [simp]: "split_by P xs \<noteq> []"
  by (cases xs) (auto split: list.splits)

lemma split_by_none: "(\<And>x. x \<in> set xs \<Longrightarrow> \<not> P x) \<Longrightarrow> split_by P xs = [xs]"
  by (induction xs) auto

lemma split_by_sep: "P c \<Longrightarrow> split_by P (xs @ c # ys) = split_by P xs @ split_by P ys"
  by (induction xs) (auto split: list.splits)

lemma split_by_all_pieces:
  "\<forall>w \<in> set (split_by P xs). \<forall>x \<in> set w. x \<in> set xs \<and> \<not> P x"
proof (induction xs)
  case (Cons a xs)
  obtain y ys where s: "split_by P xs = y # ys" by (cases "split_by P xs") auto
  then show ?case using Cons by auto
qed simp

lemma split_by_pieces: "w \<in> set (split_by P xs) \<Longrightarrow> x \<in> set w \<Longrightarrow> x \<in> set xs \<and> \<not> P x"
  using split_by_all_pieces [of P xs] by (simp add: Ball_def)

lemma join_Cons: "ys \<noteq> [] \<Longrightarrow> join sep (x # ys) = x @ sep @ join sep ys"
  by (cases ys) auto

lemma join_split_on: "join [c] (split_on c xs) = xs"
proof (induction xs)
  case (Cons x xs)
  show ?case
  proof (cases "x = c")
    case True
    with Cons show ?thesis by (simp add: join_Cons)
  next
    case False
    obtain y ys where "split_on c xs = y # ys" by (cases "split_on c xs") auto
    with Cons False show ?thesis by (cases ys) auto
  qed
qed simp

lemma set_join: "set (join sep xss) \<subseteq> set sep \<union> \<Union> (set ` set xss)"
  by (induction sep xss rule: join.induct) auto

lemma split_on_join:
  "xss \<noteq> [] \<Longrightarrow> (\<And>w. w \<in> set xss \<Longrightarrow> c \<notin> set w) \<Longrightarrow> split_on c (join [c] xss) = xss"
proof (induction "[c]" xss rule: join.induct)
  case (2 x)
  then show ?case by (auto intro!: split_by_none)
next
  case (3 x y ys)
  then have "split_on c x = [x]" by (auto intro!: split_by_none)
  moreover have "split_on c (join [c] (y # ys)) = y # ys" using 3 by auto
  ultimately show ?case using split_by_sep [of "\<lambda>x. x = c" c x] by simp
qed simp

definition hasPrefix :: "string \<Rightarrow> string \<Rightarrow> bool" where
  "hasPrefix s p = prefix p s"

definition trimPrefix :: "string \<Rightarrow> string \<Rightarrow> string" where
  "trimPrefix s p = (if hasPrefix s p then drop (length p) s else s)"

lemma hasPrefix_append [simp]: "hasPrefix (p @ s) p"
  by (simp add: hasPrefix_def)

lemma trimPrefix_append [simp]: "trimPrefix (p @ s) p = s"
  by (simp add: trimPrefix_def)

lemma hasPrefix_Cons [go_simps]:
  "hasPrefix s [] = True"
  "hasPrefix [] (c # p) = False"
  "hasPrefix (d # s) (c # p) = (c = d \<and> hasPrefix s p)"
  by (auto simp: hasPrefix_def)

lemma hasPrefix_trans: "hasPrefix s p \<Longrightarrow> hasPrefix p q \<Longrightarrow> hasPrefix s q"
  by (auto simp: hasPrefix_def prefix_def)

fun contains :: "string \<Rightarrow> string \<Rightarrow> bool" where
  "contains [] p = (p = [])"
| "contains (x # s) p = (hasPrefix (x # s) p \<or> contains s p)"

text \<open>\<open>strings.TrimRight(s, "\r")\<close>: every trailing carriage return is removed.\<close>

abbreviation CR :: char where "CR \<equiv> CHR 0x0D"
abbreviation NL :: char where "NL \<equiv> CHR 0x0A"
abbreviation CRLF :: string where "CRLF \<equiv> [CHR 0x0D, CHR 0x0A]"

definition trimRightCR :: "string \<Rightarrow> string" where
  "trimRightCR s = rev (dropWhile (\<lambda>c. c = CR) (rev s))"

definition hasSuffixCR :: "string \<Rightarrow> bool" where
  "hasSuffixCR s = (s \<noteq> [] \<and> last s = CR)"

lemma trimRightCR_snoc [simp]: "trimRightCR (s @ [CR]) = trimRightCR s"
  by (simp add: trimRightCR_def)

lemma trimRightCR_id: "\<not> hasSuffixCR s \<Longrightarrow> trimRightCR s = s"
  by (cases s rule: rev_cases) (auto simp: trimRightCR_def hasSuffixCR_def)

lemma trimRightCR_no_suffix [simp]: "\<not> hasSuffixCR (trimRightCR s)"
proof -
  have "\<not> hd (dropWhile (\<lambda>c. c = CR) (rev s)) = CR" if "dropWhile (\<lambda>c. c = CR) (rev s) \<noteq> []"
    using hd_dropWhile [OF that] by simp
  then show ?thesis by (auto simp: trimRightCR_def hasSuffixCR_def last_rev)
qed

lemma trimRightCR_idem [simp]: "trimRightCR (trimRightCR s) = trimRightCR s"
  by (rule trimRightCR_id) simp

lemma set_trimRightCR: "set (trimRightCR s) \<subseteq> set s"
  unfolding trimRightCR_def using set_dropWhileD by fastforce

section \<open>Runes\<close>

text \<open>How a \<open>range\<close> loop and \<open>utf8.DecodeRune\<close> cut a string: each rune in its shortest form, no surrogate, none
  past the last code point, and a byte that begins none of these by itself. The ranges of the bytes that must
  follow a first byte are those of the package's table.\<close>

definition utf8First :: "nat \<Rightarrow> (nat \<times> nat) list option" where
  "utf8First b = (let c = (0x80, 0xBF) in
     if b < 0x80 then Some []
     else if 0xC2 \<le> b \<and> b \<le> 0xDF then Some [c]
     else if b = 0xE0 then Some [(0xA0, 0xBF), c]
     else if b = 0xED then Some [(0x80, 0x9F), c]
     else if 0xE1 \<le> b \<and> b \<le> 0xEF then Some [c, c]
     else if b = 0xF0 then Some [(0x90, 0xBF), c, c]
     else if 0xF1 \<le> b \<and> b \<le> 0xF3 then Some [c, c, c]
     else if b = 0xF4 then Some [(0x80, 0x8F), c, c]
     else None)"

fun follows :: "(nat \<times> nat) list \<Rightarrow> string \<Rightarrow> bool" where
  "follows [] cs = True"
| "follows (r # rs) [] = False"
| "follows (r # rs) (c # cs) = (fst r \<le> of_char c \<and> of_char c \<le> snd r \<and> follows rs cs)"

definition runeTail :: "char \<Rightarrow> string \<Rightarrow> nat" where
  "runeTail c cs = (case utf8First (of_char c) of
       None \<Rightarrow> 0 | Some rs \<Rightarrow> if follows rs cs then length rs else 0)"

fun runes :: "string \<Rightarrow> string list" where
  "runes [] = []"
| "runes (c # cs) = (let n = runeTail c cs in (c # take n cs) # runes (drop n cs))"

text \<open>A byte that begins no rune counts as U+FFFD.\<close>

fun codePoint :: "string \<Rightarrow> nat" where
  "codePoint [a] = (if of_char a < (0x80 :: nat) then of_char a else 0xFFFD)"
| "codePoint [a, b] = (of_char a - 0xC0) * 0x40 + (of_char b - 0x80)"
| "codePoint [a, b, c] = (of_char a - 0xE0) * 0x1000 + (of_char b - 0x80) * 0x40 + (of_char c - 0x80)"
| "codePoint [a, b, c, d] =
     (of_char a - 0xF0) * 0x40000 + (of_char b - 0x80) * 0x1000 + (of_char c - 0x80) * 0x40 + (of_char d - 0x80)"
| "codePoint _ = 0xFFFD"

definition ValidString :: "string \<Rightarrow> bool" where
  "ValidString s = (\<forall>r \<in> set (runes s). utf8First (of_char (hd r)) = Some [] \<or> 2 \<le> length r)"

abbreviation ascii :: "string \<Rightarrow> bool" where
  "ascii s \<equiv> \<forall>c \<in> set s. of_char c < (0x80 :: nat)"

definition continues :: "char \<Rightarrow> bool" where
  "continues c = (0x80 \<le> (of_char c :: nat) \<and> (of_char c :: nat) \<le> 0xBF)"

lemma utf8First_ranges: "utf8First b = Some rs \<Longrightarrow> \<forall>r \<in> set rs. 0x80 \<le> fst r \<and> snd r \<le> 0xBF"
  by (auto simp: utf8First_def Let_def split: if_splits)

lemma utf8First_more: "utf8First b = Some rs \<Longrightarrow> rs \<noteq> [] \<Longrightarrow> 0xBF < b"
  by (auto simp: utf8First_def Let_def split: if_splits)

lemma follows_stops:
  "\<forall>r \<in> set rs. 0x80 \<le> fst r \<and> snd r \<le> 0xBF \<Longrightarrow> \<not> continues c \<Longrightarrow>
   follows rs (xs @ c # ys) = follows rs xs \<and> (follows rs xs \<longrightarrow> length rs \<le> length xs)"
  by (induction rs xs rule: follows.induct) (auto simp: continues_def)

lemma runeTail_stops:
  assumes "\<not> continues c"
  shows "runeTail a (xs @ c # ys) = runeTail a xs \<and> runeTail a xs \<le> length xs"
proof (cases "utf8First (of_char a)")
  case (Some rs)
  from follows_stops [OF utf8First_ranges [OF Some] assms, of xs ys] show ?thesis by (simp add: runeTail_def Some)
qed (simp add: runeTail_def)

lemma runes_ascii: "of_char c < (0x80 :: nat) \<Longrightarrow> runes (c # cs) = [c] # runes cs"
  by (simp add: runeTail_def utf8First_def)

lemma runes_all_ascii: "ascii s \<Longrightarrow> runes s = map (\<lambda>c. [c]) s"
  by (induction s) (simp_all add: runes_ascii del: runes.simps(2))

lemma concat_runes [simp]: "concat (runes s) = s"
  by (induction s rule: runes.induct) (simp_all add: Let_def)

lemma runes_stop: "\<not> continues c \<Longrightarrow> runes (xs @ c # ys) = runes xs @ runes (c # ys)"
proof (induction xs rule: runes.induct)
  case (2 a xs)
  let ?n = "runeTail a xs"
  have n: "runeTail a (xs @ c # ys) = ?n" "?n \<le> length xs" using runeTail_stops [OF 2(2)] by blast+
  have "runes (drop ?n xs @ c # ys) = runes (drop ?n xs) @ runes (c # ys)" by (rule 2(1) [OF refl 2(2)])
  with n show ?case by (simp add: Let_def del: runes.simps) (simp add: Let_def)
qed simp

lemma runes_suffix: "runes s = A @ B \<Longrightarrow> runes (concat B) = B"
proof (induction A arbitrary: s)
  case Nil
  then have "concat B = s" using concat_runes [of s] by simp
  with Nil show ?case by simp
next
  case (Cons a A)
  then show ?case by (cases s) (auto simp: Let_def)
qed

lemma runes_first: "r \<in> set (runes s) \<Longrightarrow> r \<noteq> [] \<and> (length r = 1 \<or> \<not> continues (hd r))"
proof (induction s rule: runes.induct)
  case (2 c cs)
  have "runeTail c cs = 0 \<or> \<not> continues c"
    using utf8First_more by (fastforce simp: runeTail_def continues_def split: option.splits if_splits)
  with 2 show ?case by (auto simp: Let_def)
qed simp

lemma ascii_ValidString: "ascii s \<Longrightarrow> ValidString s"
  by (auto simp: ValidString_def runes_all_ascii utf8First_def)

section \<open>White space and fields\<close>

definition unicodeSpace :: "nat \<Rightarrow> bool" where
  "unicodeSpace p =
     (if p < 0x80 then p = 0x20 \<or> (9 \<le> p \<and> p \<le> 13)
      else p \<in> {0x85, 0xA0, 0x1680, 0x2028, 0x2029, 0x202F, 0x205F, 0x3000} \<or> (0x2000 \<le> p \<and> p \<le> 0x200A))"

definition spaceRune :: "string \<Rightarrow> bool" where
  "spaceRune r = unicodeSpace (codePoint r)"

definition goFields :: "string \<Rightarrow> string list" where
  "goFields s = filter (\<lambda>w. w \<noteq> []) (map concat (split_by spaceRune (runes s)))"

definition trimSpace :: "string \<Rightarrow> string" where
  "trimSpace s = concat (rev (dropWhile spaceRune (rev (dropWhile spaceRune (runes s)))))"

text \<open>The spaces of one byte.\<close>

definition isSpace :: "char \<Rightarrow> bool" where
  "isSpace c = (c = CHR '' '' \<or> (9 \<le> (of_char c :: nat) \<and> (of_char c :: nat) \<le> 13))"

definition word_ok :: "string \<Rightarrow> bool" where
  "word_ok w = (w \<noteq> [] \<and> (\<forall>r \<in> set (runes w). \<not> spaceRune r))"

lemma isSpace_ascii: "isSpace c \<Longrightarrow> of_char c < (0x80 :: nat)"
  by (auto simp: isSpace_def)

lemma spaceRune_byte: "of_char c < (0x80 :: nat) \<Longrightarrow> spaceRune [c] = isSpace c"
proof -
  have "of_char c = (32 :: nat) \<longleftrightarrow> c = CHR '' ''"
    using of_char_eq_iff [of c "CHR '' ''", where ?'a = nat] by simp
  then show "of_char c < (0x80 :: nat) \<Longrightarrow> ?thesis" by (auto simp: spaceRune_def unicodeSpace_def isSpace_def)
qed

lemma spaceRune_first: "r \<in> set (runes s) \<Longrightarrow> spaceRune r \<Longrightarrow> r \<noteq> [] \<and> \<not> continues (hd r)"
proof -
  assume r: "r \<in> set (runes s)" "spaceRune r"
  show ?thesis
  proof (cases "length r = 1")
    case True
    then obtain a where "r = [a]" by (cases r) auto
    with r(2) show ?thesis by (auto simp: spaceRune_def unicodeSpace_def continues_def split: if_splits)
  qed (use runes_first [OF r(1)] in blast)
qed

text \<open>A piece that ends before a space is cut the same way by itself.\<close>

lemma runes_piece:
  assumes "runes s = A @ B @ C" "C = [] \<or> spaceRune (hd C)"
  shows "runes (concat B) = B"
proof (cases C)
  case Nil
  with runes_suffix [OF assms(1)] show ?thesis by simp
next
  case (Cons r C')
  have r: "r \<in> set (runes s)" "spaceRune r" using assms Cons by auto
  with spaceRune_first [OF r] have n: "r \<noteq> []" "\<not> continues (hd r)" by simp_all
  then obtain a as where a: "r = a # as" by (cases r) auto
  have "runes (concat (B @ C)) = B @ C" "runes (concat C) = C"
    using runes_suffix [of s A "B @ C"] runes_suffix [of s "A @ B" C] assms(1) by simp_all
  moreover have "runes (concat B @ concat C) = runes (concat B) @ runes (concat C)"
    using runes_stop [of a "concat B" "as @ concat C'"] n(2) by (simp add: Cons a del: runes.simps)
  ultimately show ?thesis by simp
qed

lemma split_by_around: "w \<in> set (split_by P xs) \<Longrightarrow> \<exists>A C. xs = A @ w @ C \<and> (C = [] \<or> P (hd C))"
proof -
  have "\<forall>w \<in> set (split_by P xs). \<exists>A C. xs = A @ w @ C \<and> (C = [] \<or> P (hd C))"
    and "\<exists>C. xs = hd (split_by P xs) @ C \<and> (C = [] \<or> P (hd C))"
  proof (induction xs)
    case (Cons x xs)
    obtain y ys where s: "split_by P xs = y # ys" by (cases "split_by P xs") auto
    {
      case 1
      show ?case
      proof
        fix w assume w: "w \<in> set (split_by P (x # xs))"
        then consider "w \<in> set (split_by P xs)" | "w = []" "P x" | "w = x # y" "\<not> P x" using s by (auto split: if_splits)
        then show "\<exists>A C. x # xs = A @ w @ C \<and> (C = [] \<or> P (hd C))"
        proof cases
          case 1
          then obtain A C where "xs = A @ w @ C" "C = [] \<or> P (hd C)" using Cons by blast
          then show ?thesis by (intro exI [of _ "x # A"] exI [of _ C]) simp
        next
          case 2
          then show ?thesis by (intro exI [of _ "[]"] exI [of _ "x # xs"]) simp
        next
          case 3
          obtain C where "xs = y @ C" "C = [] \<or> P (hd C)" using Cons s by auto
          with 3 show ?thesis by (intro exI [of _ "[]"] exI [of _ C]) simp
        qed
      qed
    next
      case 2
      show ?case using Cons s by auto
    }
  qed simp_all
  then show "w \<in> set (split_by P xs) \<Longrightarrow> ?thesis" by blast
qed

lemma goFields_piece: "w \<in> set (goFields s) \<Longrightarrow> runes w \<in> set (split_by spaceRune (runes s))"
proof -
  assume "w \<in> set (goFields s)"
  then obtain g where g: "g \<in> set (split_by spaceRune (runes s))" "w = concat g" by (auto simp: goFields_def)
  from split_by_around [OF g(1)] runes_piece have "runes (concat g) = g" by blast
  with g show ?thesis by simp
qed

lemma goFields_nonempty: "w \<in> set (goFields s) \<Longrightarrow> w \<noteq> []"
  by (simp add: goFields_def)

lemma goFields_word_ok: "w \<in> set (goFields s) \<Longrightarrow> word_ok w"
  using split_by_pieces [OF goFields_piece] goFields_nonempty by (fastforce simp: word_ok_def)

lemma goFields_set: "w \<in> set (goFields s) \<Longrightarrow> set w \<subseteq> set s"
proof
  fix c assume w: "w \<in> set (goFields s)" and c: "c \<in> set w"
  have "c \<in> set (concat (runes w))" using c by simp
  then obtain r where "r \<in> set (runes w)" "c \<in> set r" unfolding set_concat by blast
  with split_by_pieces [OF goFields_piece [OF w]] have "c \<in> set (concat (runes s))" unfolding set_concat by blast
  then show "c \<in> set s" by simp
qed

lemma goFields_Nil [simp]: "goFields [] = []"
  by (simp add: goFields_def)

lemma goFields_sep: "isSpace c \<Longrightarrow> goFields (xs @ c # ys) = goFields xs @ goFields ys"
proof -
  assume c: "isSpace c"
  then have "\<not> continues c" "spaceRune [c]" using isSpace_ascii [OF c] by (auto simp: continues_def spaceRune_byte)
  then show ?thesis
    by (simp add: goFields_def runes_stop runes_ascii [OF isSpace_ascii [OF c]] split_by_sep del: runes.simps)
qed

lemma goFields_word: "word_ok w \<Longrightarrow> goFields w = [w]"
  by (simp add: goFields_def word_ok_def split_by_none)

lemma word_ok_no_space: "word_ok w \<Longrightarrow> c \<in> set w \<Longrightarrow> \<not> isSpace c"
proof
  assume w: "word_ok w" and c: "c \<in> set w" "isSpace c"
  from c(1) obtain xs ys where "w = xs @ c # ys" by (auto simp: in_set_conv_decomp)
  then have "[c] \<in> set (runes w)"
    using isSpace_ascii [OF c(2)] by (simp add: runes_stop runes_ascii continues_def del: runes.simps)
  with w c(2) show False by (auto simp: word_ok_def spaceRune_byte isSpace_ascii)
qed

lemma ascii_word_ok: "w \<noteq> [] \<Longrightarrow> ascii w \<Longrightarrow> (\<And>c. c \<in> set w \<Longrightarrow> \<not> isSpace c) \<Longrightarrow> word_ok w"
  by (auto simp: word_ok_def runes_all_ascii spaceRune_byte)

lemma isSpace_blank [simp]: "isSpace CHR '' ''" "isSpace NL" "isSpace CR"
  by (simp_all add: isSpace_def)

lemma goFields_join: "\<forall>w \<in> set ws. word_ok w \<Longrightarrow> goFields (join '' '' ws) = ws"
proof (induction ws)
  case (Cons w ws)
  then show ?case
    by (cases ws) (simp_all add: goFields_word goFields_sep)
qed simp

lemma goFields_word_join:
  "word_ok w \<Longrightarrow> \<forall>v \<in> set ws. word_ok v \<Longrightarrow>
   goFields (w @ CHR '' '' # join '' '' ws) = w # ws"
  by (simp add: goFields_sep goFields_word goFields_join)

section \<open>Decimal numbers\<close>

definition is_digit :: "char \<Rightarrow> bool" where
  "is_digit c = (48 \<le> (of_char c :: nat) \<and> (of_char c :: nat) \<le> 57)"

definition digit_char :: "nat \<Rightarrow> char" where
  "digit_char d = char_of (48 + d)"

definition digit_val :: "char \<Rightarrow> nat" where
  "digit_val c = of_char c - 48"

lemma digit_char_ok: "d < 10 \<Longrightarrow> is_digit (digit_char d) \<and> digit_val (digit_char d) = d"
  by (simp add: is_digit_def digit_char_def digit_val_def)

lemma digit_not_space: "is_digit c \<Longrightarrow> \<not> isSpace c"
  by (auto simp: is_digit_def isSpace_def)

fun showNat :: "nat \<Rightarrow> string" where
  "showNat n = (if n < 10 then [digit_char n] else showNat (n div 10) @ [digit_char (n mod 10)])"

declare showNat.simps [simp del]

definition dec_value :: "string \<Rightarrow> nat" where
  "dec_value s = foldl (\<lambda>n c. n * 10 + digit_val c) 0 s"

lemma showNat_props:
  "showNat n \<noteq> [] \<and> (\<forall>c \<in> set (showNat n). is_digit c) \<and> dec_value (showNat n) = n"
proof (induction n rule: showNat.induct)
  case (1 n)
  show ?case
  proof (cases "n < 10")
    case True
    then show ?thesis
      by (subst (1 2 3) showNat.simps) (simp add: dec_value_def digit_char_ok)
  next
    case False
    with 1 have IH: "showNat (n div 10) \<noteq> [] \<and> (\<forall>c \<in> set (showNat (n div 10)). is_digit c)
        \<and> dec_value (showNat (n div 10)) = n div 10" by simp
    have eq: "showNat n = showNat (n div 10) @ [digit_char (n mod 10)]"
      using False by (subst showNat.simps) simp
    from IH show ?thesis
      by (simp add: eq dec_value_def digit_char_ok)
  qed
qed

lemma showNat_nonempty [simp]: "showNat n \<noteq> []"
  using showNat_props by blast

lemma showNat_digits: "c \<in> set (showNat n) \<Longrightarrow> is_digit c"
  using showNat_props by blast

lemma dec_value_showNat [simp]: "dec_value (showNat n) = n"
  using showNat_props by blast

text \<open>\<open>strconv.Itoa\<close> and \<open>strconv.Atoi\<close>: an int is 64 bits wide, so a numeral outside
  that range is an error.\<close>

definition itoa :: "int \<Rightarrow> string" where
  "itoa i = (if i < 0 then CHR ''-'' # showNat (nat (- i)) else showNat (nat i))"

definition int64_ok :: "int \<Rightarrow> bool" where
  "int64_ok i = (- (2 ^ 63) \<le> i \<and> i < 2 ^ 63)"

definition atoi :: "string \<Rightarrow> int option" where
  "atoi s =
     (let neg = (s \<noteq> [] \<and> hd s = CHR ''-'');
          ds = (if s \<noteq> [] \<and> (hd s = CHR ''-'' \<or> hd s = CHR ''+'') then tl s else s);
          v = (if neg then - int (dec_value ds) else int (dec_value ds))
      in if ds \<noteq> [] \<and> list_all is_digit ds \<and> int64_ok v then Some v else None)"

lemma atoi_range: "atoi s = Some i \<Longrightarrow> int64_ok i"
  by (auto simp: atoi_def Let_def split: if_splits)

lemma showNat_hd: "hd (showNat n) \<noteq> CHR ''-'' \<and> hd (showNat n) \<noteq> CHR ''+''"
proof -
  have "is_digit (hd (showNat n))" by (rule showNat_digits [OF hd_in_set]) simp
  then show ?thesis by (auto simp: is_digit_def)
qed

lemma atoi_itoa [simp]: "int64_ok i \<Longrightarrow> atoi (itoa i) = Some i"
  using showNat_hd by (auto simp: atoi_def itoa_def Let_def list_all_iff showNat_digits)

lemma itoa_word_ok: "word_ok (itoa i)"
proof (rule ascii_word_ok)
  show "itoa i \<noteq> []" by (simp add: itoa_def)
  show "ascii (itoa i)" by (auto simp: itoa_def is_digit_def dest: showNat_digits)
  show "\<not> isSpace c" if "c \<in> set (itoa i)" for c
    using that digit_not_space showNat_digits by (auto simp: itoa_def isSpace_def split: if_splits)
qed

lemma itoa_chars: "c \<in> set (itoa i) \<Longrightarrow> c = CHR ''-'' \<or> is_digit c"
  by (auto simp: itoa_def dest: showNat_digits split: if_splits)

section \<open>Case folding\<close>

text \<open>The letters of ASCII, and the letters outside it that a folding takes into ASCII: U+0130 and U+212A are
  i and k in lower case, U+0131 and U+017F are I and S in upper case, U+212A and U+017F are equal to k and s
  under folding. Of other letters outside ASCII the code only compares names of codecs, and these as they stand.\<close>

definition lowerChar :: "char \<Rightarrow> char" where
  "lowerChar c = (if 65 \<le> (of_char c :: nat) \<and> (of_char c :: nat) \<le> 90
                  then char_of ((of_char c :: nat) + 32) else c)"

definition upperChar :: "char \<Rightarrow> char" where
  "upperChar c = (if 97 \<le> (of_char c :: nat) \<and> (of_char c :: nat) \<le> 122
                  then char_of ((of_char c :: nat) - 32) else c)"

text \<open>A byte that begins no rune is written as U+FFFD.\<close>

definition mapRune :: "(char \<Rightarrow> char) \<Rightarrow> (nat \<times> string) list \<Rightarrow> string \<Rightarrow> string" where
  "mapRune f special r = (case map_of special (codePoint r) of
       Some s \<Rightarrow> s
     | None \<Rightarrow> if codePoint r < 0x80 then map f r
               else if codePoint r = 0xFFFD then [CHR 0xEF, CHR 0xBF, CHR 0xBD] else r)"

definition toLower :: "string \<Rightarrow> string" where
  "toLower s = concat (map (mapRune lowerChar [(0x130, ''i''), (0x212A, ''k'')]) (runes s))"

definition toUpper :: "string \<Rightarrow> string" where
  "toUpper s = concat (map (mapRune upperChar [(0x131, ''I''), (0x17F, ''S'')]) (runes s))"

definition foldPoint :: "nat \<Rightarrow> nat" where
  "foldPoint p = (if 65 \<le> p \<and> p \<le> 90 then p + 32 else if p = 0x212A then 0x6B else if p = 0x17F then 0x73 else p)"

definition folded :: "string \<Rightarrow> nat list" where
  "folded s = map (\<lambda>r. foldPoint (codePoint r)) (runes s)"

definition equalFold :: "string \<Rightarrow> string \<Rightarrow> bool" where
  "equalFold a b = (folded a = folded b)"

lemma lowerChar_idem [simp]: "lowerChar (lowerChar c) = lowerChar c"
  by (simp add: lowerChar_def)

lemma mapRune_ascii: "of_char c < (0x80 :: nat) \<Longrightarrow> (\<And>p. p \<in> set sp \<Longrightarrow> 0x80 \<le> fst p) \<Longrightarrow> mapRune f sp [c] = [f c]"
proof -
  assume c: "of_char c < (0x80 :: nat)" and sp: "\<And>p. p \<in> set sp \<Longrightarrow> 0x80 \<le> fst p"
  have "map_of sp (of_char c) = None" using c sp by (force simp: map_of_eq_None_iff)
  with c show ?thesis by (simp add: mapRune_def)
qed

lemma concat_mapRune:
  "ascii s \<Longrightarrow> \<forall>p \<in> set sp. 0x80 \<le> fst p \<Longrightarrow> concat (map (mapRune f sp) (runes s)) = map f s"
  by (induction s) (simp_all add: mapRune_ascii runes_ascii del: runes.simps(2))

lemma ascii_lower: "ascii s \<Longrightarrow> toLower s = map lowerChar s"
  and ascii_upper: "ascii s \<Longrightarrow> toUpper s = map upperChar s"
  unfolding toLower_def toUpper_def by (rule concat_mapRune; simp)+

lemma ascii_folded: "ascii s \<Longrightarrow> folded s = map (\<lambda>c. foldPoint (of_char c)) s"
  by (simp add: folded_def runes_all_ascii)

lemma equalFold_refl [simp]: "equalFold a a"
  by (simp add: equalFold_def)

lemma equalFold_sym: "equalFold a b = equalFold b a"
  by (auto simp: equalFold_def)

lemma equalFold_trans: "equalFold a b \<Longrightarrow> equalFold b c \<Longrightarrow> equalFold a c"
  by (simp add: equalFold_def)

lemma equalFold_Nil [simp]: "equalFold [] b = (b = [])" "equalFold b [] = (b = [])"
  by (cases b; auto simp: equalFold_def folded_def Let_def)+

end
