(* ===== verification/GoNet.thy ===== *)
theory GoNet
  imports GoStrings "HOL-Library.Word"
begin

text \<open>
  The address functions of the Go package net that the sequencer calls: ParseIP, IP.To4,
  IP.String, SplitHostPort, JoinHostPort, and strconv.ParseUint for ports. An IP is the
  list of its bytes, 4 or 16 of them; ParseIP always returns the 16-byte form.
\<close>

type_synonym byte = "8 word"

abbreviation byte_of :: "nat \<Rightarrow> byte" where "byte_of n \<equiv> word_of_nat n"

section \<open>Parsing addresses\<close>

definition parseOctet :: "string \<Rightarrow> byte option" where
  "parseOctet s =
     (if s \<noteq> [] \<and> list_all is_digit s \<and> (length s = 1 \<or> hd s \<noteq> CHR ''0'') \<and> dec_value s \<le> 255
      then Some (byte_of (dec_value s)) else None)"

definition parseIPv4 :: "string \<Rightarrow> byte list option" where
  "parseIPv4 s =
     (case map parseOctet (split_on CHR ''.'' s) of
        [Some a, Some b, Some c, Some d] \<Rightarrow> Some [a, b, c, d]
      | _ \<Rightarrow> None)"

definition is_hex :: "char \<Rightarrow> bool" where
  "is_hex c = (is_digit c \<or> (65 \<le> (of_char c :: nat) \<and> (of_char c :: nat) \<le> 70)
                          \<or> (97 \<le> (of_char c :: nat) \<and> (of_char c :: nat) \<le> 102))"

definition hex_val :: "char \<Rightarrow> nat" where
  "hex_val c = (if is_digit c then digit_val c
                else if (of_char c :: nat) \<le> 70 then of_char c - 55 else of_char c - 87)"

definition hex_value :: "string \<Rightarrow> nat" where
  "hex_value s = foldl (\<lambda>n c. n * 16 + hex_val c) 0 s"

text \<open>
  The loop of netip.parseIPv6: \<open>ip\<close> holds the bytes read so far, \<open>el\<close> the position of the
  ellipsis. A group is one to four hex digits; a dotted quad may close the address.
\<close>

function v6_loop :: "string \<Rightarrow> byte list \<Rightarrow> nat option \<Rightarrow> (byte list \<times> nat option) option" where
  "v6_loop s ip el =
     (if 16 \<le> length ip then (if s = [] then Some (ip, el) else None)
      else
        let ds = takeWhile is_hex s;
            ip' = ip @ [byte_of (hex_value ds div 256), byte_of (hex_value ds mod 256)] in
        if ds = [] \<or> 4 < length ds then None
        else (case dropWhile is_hex s of
            [] \<Rightarrow> Some (ip', el)
          | c # u \<Rightarrow>
              if c = CHR ''.'' then
                (if (el = None \<and> length ip \<noteq> 12) \<or> 16 < length ip + 4 then None
                 else map_option (\<lambda>b. (ip @ b, el)) (parseIPv4 s))
              else if c \<noteq> CHR '':'' then None
              else (case u of
                  [] \<Rightarrow> None
                | d # v \<Rightarrow>
                    if d = CHR '':'' then
                      (if el \<noteq> None then None
                       else if v = [] then Some (ip', Some (length ip'))
                       else v6_loop v ip' (Some (length ip')))
                    else v6_loop u ip' el)))"
  by pat_completeness auto
termination
proof (relation "measure (\<lambda>(s, ip, el). length s)", goal_cases)
  case (2 s ip el ds ip' c u d v)
  then show ?case using length_dropWhile_le [of is_hex s] by simp
next
  case (3 s ip el ds ip' c u d v)
  then show ?case using length_dropWhile_le [of is_hex s] by simp
qed simp

declare v6_loop.simps [simp del]

definition parseIPv6 :: "string \<Rightarrow> byte list option" where
  "parseIPv6 s =
     (let r = (if hasPrefix s ''::'' then
                 (if drop 2 s = [] then Some ([], Some 0) else v6_loop (drop 2 s) [] (Some 0))
               else v6_loop s [] None)
      in case r of
           None \<Rightarrow> None
         | Some (ip, el) \<Rightarrow>
             (if length ip < 16 then
                (case el of None \<Rightarrow> None
                 | Some e \<Rightarrow> Some (take e ip @ replicate (16 - length ip) 0 @ drop e ip))
              else if el \<noteq> None then None else Some ip))"

definition v4in6 :: "byte list \<Rightarrow> byte list" where
  "v4in6 b = replicate 10 0 @ [0xff, 0xff] @ b"

text \<open>An address with a zone is not an IP literal for ParseIP.\<close>

definition ParseIP :: "string \<Rightarrow> byte list option" where
  "ParseIP s =
     (case filter (\<lambda>c. c = CHR ''.'' \<or> c = CHR '':'' \<or> c = CHR ''%'') s of
        [] \<Rightarrow> None
      | c # _ \<Rightarrow>
          (if c = CHR ''.'' then map_option v4in6 (parseIPv4 s)
           else if c = CHR '':'' then (if CHR ''%'' \<in> set s then None else parseIPv6 s)
           else None))"

section \<open>Printing addresses\<close>

definition To4 :: "byte list \<Rightarrow> byte list option" where
  "To4 ip = (if length ip = 4 then Some ip
             else if length ip = 16 \<and> take 12 ip = replicate 10 0 @ [0xff, 0xff]
             then Some (drop 12 ip) else None)"

lemma To4_length: "To4 ip = Some v \<Longrightarrow> length v = 4"
  by (auto simp: To4_def split: if_splits)

definition To16 :: "byte list \<Rightarrow> byte list option" where
  "To16 ip = (if length ip = 4 then Some (v4in6 ip)
              else if length ip = 16 then Some ip else None)"

definition showV4 :: "byte list \<Rightarrow> string" where
  "showV4 ip = join ''.'' (map (\<lambda>b. showNat (unat b)) ip)"

definition hex_char :: "nat \<Rightarrow> char" where
  "hex_char d = (if d < 10 then char_of (48 + d) else char_of (87 + d))"

fun showHex :: "nat \<Rightarrow> string" where
  "showHex n = (if n < 16 then [hex_char n] else showHex (n div 16) @ [hex_char (n mod 16)])"

declare showHex.simps [simp del]

fun groups :: "byte list \<Rightarrow> nat list" where
  "groups (a # b # r) = (unat a * 256 + unat b) # groups r"
| "groups _ = []"

text \<open>The first longest run of at least two zero groups, as (start, end).\<close>

fun zero_run :: "nat list \<Rightarrow> nat \<Rightarrow> nat \<times> nat \<Rightarrow> nat \<times> nat" where
  "zero_run [] i best = best"
| "zero_run (g # gs) i best =
     (let l = length (takeWhile (\<lambda>x. x = 0) (g # gs))
      in zero_run gs (Suc i) (if 2 \<le> l \<and> snd best - fst best < l then (i, i + l) else best))"

definition showV6 :: "byte list \<Rightarrow> string" where
  "showV6 ip =
     (let gs = map showHex (groups ip); (a, b) = zero_run (groups ip) 0 (0, 0)
      in if a = b then join '':'' gs
         else join '':'' (take a gs) @ ''::'' @ join '':'' (drop b gs))"

definition IPString :: "byte list \<Rightarrow> string" where
  "IPString ip = (case To4 ip of Some v \<Rightarrow> showV4 v | None \<Rightarrow> showV6 ip)"

section \<open>Host and port\<close>

definition SplitHostPort :: "string \<Rightarrow> (string \<times> string) option" where
  "SplitHostPort s =
     (if CHR '':'' \<notin> set s then None
      else
        let ps = split_on CHR '':'' s; port = last ps; pre = join '':'' (butlast ps) in
        if hd s = CHR ''['' then
          (let en = length (takeWhile (\<lambda>c. c \<noteq> CHR '']'') s) in
           if CHR '']'' \<notin> set s \<or> en + 1 = length s \<or> en + 1 \<noteq> length pre
              \<or> CHR ''['' \<in> set (drop 1 s) \<or> CHR '']'' \<in> set (drop (en + 1) s) then None
           else Some (drop 1 (take en s), port))
        else if CHR '':'' \<in> set pre \<or> CHR ''['' \<in> set s \<or> CHR '']'' \<in> set s then None
        else Some (pre, port))"

definition JoinHostPort :: "string \<Rightarrow> string \<Rightarrow> string" where
  "JoinHostPort host port =
     (if CHR '':'' \<in> set host then ''['' @ host @ '']:'' @ port else host @ '':'' @ port)"

definition ParseUint16 :: "string \<Rightarrow> nat option" where
  "ParseUint16 s = (if s \<noteq> [] \<and> list_all is_digit s \<and> dec_value s < 65536
                    then Some (dec_value s) else None)"

section \<open>Facts\<close>

lemma parseIPv4_length: "parseIPv4 s = Some b \<Longrightarrow> length b = 4"
  by (auto simp: parseIPv4_def split: list.splits option.splits)

lemma parseOctet_show: "parseOctet (showNat (unat (b :: byte))) = Some b"
proof -
  have lt: "unat b < 256" using unsigned_less [of b] by simp
  have "length (showNat n) = 1 \<or> hd (showNat n) \<noteq> CHR ''0''" for n
  proof (induction n rule: showNat.induct)
    case (1 n)
    show ?case
    proof (cases "n < 10")
      case True
      then show ?thesis by (subst showNat.simps) simp
    next
      case False
      then have eq: "showNat n = showNat (n div 10) @ [digit_char (n mod 10)]"
        by (subst showNat.simps) simp
      show ?thesis
      proof (cases "n div 10 < 10")
        case True
        have "n div 10 \<noteq> 0" using False by simp
        moreover have "digit_char d \<noteq> CHR ''0''" if "d \<noteq> 0" "d < 10" for d
        proof
          assume "digit_char d = CHR ''0''"
          then have "digit_val (digit_char d) = 0" by (simp add: digit_val_def)
          with that digit_char_ok [of d] show False by simp
        qed
        moreover have "showNat (n div 10) = [digit_char (n div 10)]"
          using True by (subst showNat.simps) simp
        ultimately show ?thesis using eq True by simp
      next
        case nd: False
        have "length (showNat (n div 10)) \<noteq> 1"
          using nd by (subst showNat.simps) simp
        with 1 [OF False] show ?thesis by (simp add: eq)
      qed
    qed
  qed
  then show ?thesis using lt
    by (simp add: parseOctet_def list_all_iff showNat_digits)
qed

lemma digit_not_sep: "is_digit c \<Longrightarrow> c \<noteq> CHR ''.'' \<and> c \<noteq> CHR '':'' \<and> c \<noteq> CHR ''%''
    \<and> c \<noteq> CHR ''['' \<and> c \<noteq> CHR '']''"
  by (auto simp: is_digit_def)

lemma showV4_chars: "c \<in> set (showV4 ip) \<Longrightarrow> c = CHR ''.'' \<or> is_digit c"
  using set_join [of "''.''" "map (\<lambda>b. showNat (unat b)) ip"]
  by (auto simp: showV4_def dest: showNat_digits)

lemma parseIPv4_show: "length ip = 4 \<Longrightarrow> parseIPv4 (showV4 ip) = Some ip"
proof -
  assume "length ip = 4"
  then obtain a b c d where ip: "ip = [a, b, c, d]"
    by (auto simp: length_Suc_conv numeral_eq_Suc)
  have "split_on CHR ''.'' (showV4 ip) = map (\<lambda>b. showNat (unat b)) ip"
    unfolding showV4_def using ip
    by (intro split_on_join) (auto dest!: showNat_digits digit_not_sep)
  then show ?thesis by (simp add: parseIPv4_def ip parseOctet_show)
qed

lemma ParseIP_showV4:
  assumes "length ip = 4" shows "ParseIP (showV4 ip) = Some (v4in6 ip)"
proof -
  obtain a b c d where ip: "ip = [a, b, c, d]"
    using assms by (auto simp: length_Suc_conv numeral_eq_Suc)
  let ?f = "filter (\<lambda>c. c = CHR ''.'' \<or> c = CHR '':'' \<or> c = CHR ''%'') (showV4 ip)"
  have "CHR ''.'' \<in> set ?f" by (simp add: showV4_def ip)
  moreover have "\<forall>c \<in> set ?f. c = CHR ''.''"
    using showV4_chars digit_not_sep by auto
  ultimately obtain r where "?f = CHR ''.'' # r" by (cases ?f) auto
  then show ?thesis by (simp add: ParseIP_def parseIPv4_show [OF assms])
qed

lemma SplitHostPort_Join:
  assumes "CHR ''['' \<notin> set h" "CHR '']'' \<notin> set h"
    and "CHR '':'' \<notin> set p" "CHR ''['' \<notin> set p" "CHR '']'' \<notin> set p"
  shows "SplitHostPort (JoinHostPort h p) = Some (h, p)"
proof -
  have last: "split_on CHR '':'' (x @ CHR '':'' # p) = split_on CHR '':'' x @ [p]" for x
    using assms(3) split_by_none [of p "\<lambda>c. c = CHR '':''"] split_by_sep [of "\<lambda>c. c = CHR '':''"]
    by auto
  show ?thesis
  proof (cases "CHR '':'' \<in> set h")
    case True
    define s where "s = (CHR ''['' # h @ '']'') @ CHR '':'' # p"
    have tw: "takeWhile (\<lambda>c. c \<noteq> CHR '']'') s = CHR ''['' # h"
      using assms(2) unfolding s_def by (induction h) auto
    have bl: "join '':'' (butlast (split_on CHR '':'' s)) = CHR ''['' # h @ '']''"
      and lp: "last (split_on CHR '':'' s) = p"
      unfolding s_def last by (simp_all only: butlast_snoc join_split_on last_snoc)
    have st: "hd s = CHR ''[''" "CHR '':'' \<in> set s" "CHR '']'' \<in> set s"
        "length s = length h + length p + 3" "CHR ''['' \<notin> set (drop 1 s)"
        "drop (length h + 2) s = CHR '':'' # p" "take (length h + 1) s = CHR ''['' # h"
      using assms by (simp_all add: s_def)
    have "JoinHostPort h p = s"
      using True by (simp add: JoinHostPort_def s_def)
    then show ?thesis
      using assms True st by (simp add: SplitHostPort_def Let_def bl lp tw)
  next
    case False
    then have "JoinHostPort h p = h @ CHR '':'' # p" by (simp add: JoinHostPort_def)
    moreover have "hd (h @ CHR '':'' # p) \<noteq> CHR ''[''" using assms(1) by (cases h) auto
    ultimately show ?thesis using False assms
      by (simp add: SplitHostPort_def Let_def last join_split_on)
  qed
qed

text \<open>An IP literal is made of hex digits, dots and colons only.\<close>

definition ip_char :: "char \<Rightarrow> bool" where
  "ip_char c = (is_hex c \<or> c = CHR ''.'' \<or> c = CHR '':'')"

lemma parseIPv4_chars: "parseIPv4 s = Some b \<Longrightarrow> c \<in> set s \<Longrightarrow> c = CHR ''.'' \<or> is_digit c"
proof -
  assume p: "parseIPv4 s = Some b" and c: "c \<in> set s"
  have ok: "\<forall>w \<in> set (split_on CHR ''.'' s). list_all is_digit w"
    using p by (auto simp: parseIPv4_def parseOctet_def split: list.splits option.splits if_splits)
  have "set s \<subseteq> {CHR ''.''} \<union> \<Union> (set ` set (split_on CHR ''.'' s))"
    using set_join [of "''.''" "split_on CHR ''.'' s"] by (simp add: join_split_on)
  with ok c show ?thesis by (force simp: list_all_iff)
qed

lemma v6_loop_inv:
  assumes "v6_loop s ip el = Some r"
  shows "s = [] \<or> (\<exists>b. parseIPv4 s = Some b) \<or>
    (\<exists>ds t. s = ds @ t \<and> ds \<noteq> [] \<and> (\<forall>c \<in> set ds. is_hex c) \<and>
       (t = [] \<or> t = ''::'' \<or>
        (\<exists>u ip' el'. (t = CHR '':'' # u \<or> t = CHR '':'' # CHR '':'' # u)
                     \<and> v6_loop u ip' el' = Some r)))"
proof (cases "16 \<le> length ip")
  case True
  with assms show ?thesis by (subst (asm) v6_loop.simps) (simp split: if_splits)
next
  case False
  let ?ds = "takeWhile is_hex s" and ?t = "dropWhile is_hex s"
  have hex: "\<forall>c \<in> set ?ds. is_hex c" by (auto dest: set_takeWhileD)
  have s: "s = ?ds @ ?t" by simp
  note eq = assms [unfolded v6_loop.simps [of s ip el]]
  from eq False have ne: "?ds \<noteq> []" by (auto simp: Let_def)
  show ?thesis
  proof (cases ?t)
    case Nil
    with s hex ne show ?thesis by (metis append_Nil2)
  next
    case (Cons c u)
    show ?thesis
    proof (cases "c = CHR ''.''")
      case True
      with eq False ne Cons show ?thesis by (auto simp: Let_def split: if_splits)
    next
      case dot: False
      with eq False ne Cons have c: "c = CHR '':''" by (auto simp: Let_def split: if_splits)
      show ?thesis
      proof (cases u)
        case Nil
        with eq False ne Cons c show ?thesis by (auto simp: Let_def split: if_splits)
      next
        case u: (Cons d v)
        show ?thesis
        proof (cases "v6_loop u (ip @ [byte_of (hex_value ?ds div 256), byte_of (hex_value ?ds mod 256)]) el = Some r")
          case True
          with s hex ne Cons c show ?thesis by metis
        next
          case nu: False
          with eq False ne Cons c u have d: "d = CHR '':''"
            by (auto simp: Let_def split: if_splits)
          with eq False ne Cons c u have "v = [] \<or> (\<exists>ip' el'. v6_loop v ip' el' = Some r)"
            by (auto simp: Let_def split: if_splits)
          with s hex ne Cons c u d show ?thesis by metis
        qed
      qed
    qed
  qed
qed

lemma v6_loop_chars: "v6_loop s ip el = Some r \<Longrightarrow> c \<in> set s \<Longrightarrow> ip_char c"
proof (induction s arbitrary: ip el rule: length_induct)
  case (1 s)
  from v6_loop_inv [OF "1.prems"(1)] show ?case
  proof (elim disjE exE conjE)
    fix b assume "parseIPv4 s = Some b"
    with "1.prems"(2) show ?thesis
      by (auto simp: ip_char_def is_hex_def dest: parseIPv4_chars)
  next
    fix ds t u ip' el'
    assume s: "s = ds @ t" and hex: "\<forall>c \<in> set ds. is_hex c"
      and t: "t = CHR '':'' # u" and v: "v6_loop u ip' el' = Some r"
    have "c \<in> set u \<Longrightarrow> ip_char c"
      using "1.IH" [rule_format, of u ip' el'] v s t by simp
    with "1.prems"(2) s t hex show ?thesis by (auto simp: ip_char_def)
  next
    fix ds t u ip' el'
    assume s: "s = ds @ t" and hex: "\<forall>c \<in> set ds. is_hex c"
      and t: "t = CHR '':'' # CHR '':'' # u" and v: "v6_loop u ip' el' = Some r"
    have "c \<in> set u \<Longrightarrow> ip_char c"
      using "1.IH" [rule_format, of u ip' el'] v s t by simp
    with "1.prems"(2) s t hex show ?thesis by (auto simp: ip_char_def)
  qed (use "1.prems"(2) in \<open>auto simp: ip_char_def\<close>)
qed

lemma ParseIP_chars: "ParseIP s = Some ip \<Longrightarrow> c \<in> set s \<Longrightarrow> ip_char c"
proof -
  assume p: "ParseIP s = Some ip" and c: "c \<in> set s"
  from p consider b where "parseIPv4 s = Some b" | "parseIPv6 s = Some ip"
    by (auto simp: ParseIP_def split: list.splits if_splits)
  then show ?thesis
  proof cases
    case 1
    with c show ?thesis by (auto simp: ip_char_def is_hex_def dest: parseIPv4_chars)
  next
    case 2
    show ?thesis
    proof (cases "hasPrefix s ''::''")
      case True
      then have s: "s = CHR '':'' # CHR '':'' # drop 2 s"
        by (auto simp: hasPrefix_def prefix_def)
      from 2 True have "drop 2 s = [] \<or> (\<exists>r. v6_loop (drop 2 s) [] (Some 0) = Some r)"
        by (auto simp: parseIPv6_def Let_def split: if_splits option.splits)
      then have "c \<in> set (drop 2 s) \<Longrightarrow> ip_char c" using v6_loop_chars by auto
      moreover have "c = CHR '':'' \<or> c \<in> set (drop 2 s)" using c s by (metis set_ConsD)
      ultimately show ?thesis by (auto simp: ip_char_def)
    next
      case False
      with 2 c show ?thesis
        by (auto simp: parseIPv6_def Let_def split: if_splits option.splits dest: v6_loop_chars)
    qed
  qed
qed

lemma ip_char_not_space: "ip_char c \<Longrightarrow> \<not> isSpace c"
  by (auto simp: ip_char_def is_hex_def is_digit_def isSpace_def)

lemma ParseIP_no_space: "ParseIP s = Some ip \<Longrightarrow> c \<in> set s \<Longrightarrow> \<not> isSpace c"
  using ParseIP_chars ip_char_not_space by simp

lemma ParseIP_nonempty: "ParseIP s = Some ip \<Longrightarrow> s \<noteq> []"
  by (auto simp: ParseIP_def)

lemma ip_char_ascii: "ip_char c \<Longrightarrow> of_char c < (0x80 :: nat)"
  by (auto simp: ip_char_def is_hex_def is_digit_def)

lemma ParseIP_word_ok: "ParseIP s = Some ip \<Longrightarrow> word_ok s"
  using ParseIP_chars ip_char_ascii by (intro ascii_word_ok) (auto simp: ParseIP_nonempty ParseIP_no_space)

end
