(* ===== verification/Sdp.thy ===== *)
theory Sdp
  imports GoNet
begin

text \<open>
  The SDP component, internal/b2bua/sdp.go: scanning of offers and answers line by line,
  the codec comparison, the offers built towards applications and the PBX, and the rewrite
  that anchors an SDP at the sequencer. Each loop over the lines of a body is a recursive
  function with the variables of the Go loop as its accumulators; each error return is a
  constructor of \<open>sdp_error\<close>.
\<close>

datatype sdp_error =
    MalformedAudio string
  | NoAudioLine
  | BadPayloadType string
  | BadPort string
  | NoConnAddress
  | NotIPLiteral string
  | EmptyHost
  | InvalidPort int
  | TooFewStreams nat
  | RangeFormat string
  | RangeBadMin string
  | RangeBadMax string
  | RangeMinNotPositive int
  | RangeMinOdd int
  | RangeEmpty int int

definition sdpAudioMedia :: string where "sdpAudioMedia = ''m=audio ''"
definition sdpConnIP4 :: string where "sdpConnIP4 = ''c=IN IP4 ''"

text \<open>Every scan splits at line feeds and strips trailing carriage returns.\<close>

definition sdp_lines :: "string \<Rightarrow> string list" where
  "sdp_lines sdp = map trimRightCR (split_on NL sdp)"

section \<open>Codecs\<close>

fun eac_loop :: "string list \<Rightarrow> bool \<Rightarrow> string \<Rightarrow> string list \<Rightarrow> string list
                 \<Rightarrow> sdp_error + (string \<times> string list \<times> string list)" where
  "eac_loop [] inAudio formats rtpmaps fmtps = Inr (formats, rtpmaps, fmtps)"
| "eac_loop (line # ls) inAudio formats rtpmaps fmtps =
     (if hasPrefix line ''m='' then
        (if inAudio then Inr (formats, rtpmaps, fmtps)
         else if hasPrefix line sdpAudioMedia then
           (let fs = goFields line in
            if length fs < 4 then Inl (MalformedAudio line)
            else eac_loop ls True (join '' '' (drop 3 fs)) rtpmaps fmtps)
         else eac_loop ls inAudio formats rtpmaps fmtps)
      else if \<not> inAudio then eac_loop ls inAudio formats rtpmaps fmtps
      else if hasPrefix line ''a=rtpmap:'' then eac_loop ls inAudio formats (rtpmaps @ [line]) fmtps
      else if hasPrefix line ''a=fmtp:'' then eac_loop ls inAudio formats rtpmaps (fmtps @ [line])
      else eac_loop ls inAudio formats rtpmaps fmtps)"

definition extractAudioCodecs :: "string \<Rightarrow> sdp_error + (string \<times> string list \<times> string list)" where
  "extractAudioCodecs callOffer =
     (case eac_loop (sdp_lines callOffer) False [] [] [] of
        Inl e \<Rightarrow> Inl e
      | Inr (formats, rtpmaps, fmtps) \<Rightarrow>
          (if formats = [] then Inl NoAudioLine else Inr (formats, rtpmaps, fmtps)))"

record AudioCodec =
  PayloadType :: int
  EncodingName :: string
  ClockRate :: int

definition Label :: "AudioCodec \<Rightarrow> string" where
  "Label c = (if EncodingName c \<noteq> [] then EncodingName c else ''pt'' @ itoa (PayloadType c))"

definition staticAudioRTPMap :: "int \<Rightarrow> AudioCodec option" where
  "staticAudioRTPMap pt =
     (if pt = 0 then Some \<lparr>PayloadType = 0, EncodingName = ''PCMU'', ClockRate = 8000\<rparr>
      else if pt = 3 then Some \<lparr>PayloadType = 3, EncodingName = ''GSM'', ClockRate = 8000\<rparr>
      else if pt = 8 then Some \<lparr>PayloadType = 8, EncodingName = ''PCMA'', ClockRate = 8000\<rparr>
      else if pt = 9 then Some \<lparr>PayloadType = 9, EncodingName = ''G722'', ClockRate = 8000\<rparr>
      else if pt = 18 then Some \<lparr>PayloadType = 18, EncodingName = ''G729'', ClockRate = 8000\<rparr>
      else None)"

definition parseRTPMap :: "string \<Rightarrow> AudioCodec option" where
  "parseRTPMap line =
     (let fs = goFields (trimPrefix line ''a=rtpmap:'') in
      if length fs < 2 then None
      else case atoi (fs ! 0) of
          None \<Rightarrow> None
        | Some pt \<Rightarrow>
            (let parts = split_on CHR ''/'' (fs ! 1) in
             if length parts < 2 then None
             else case atoi (parts ! 1) of
                 None \<Rightarrow> None
               | Some clock \<Rightarrow>
                   Some \<lparr>PayloadType = pt, EncodingName = parts ! 0, ClockRate = clock\<rparr>))"

text \<open>What the code does once it is past the loop, with the payload type it found.\<close>

definition sac_finish :: "int \<Rightarrow> sdp_error + AudioCodec" where
  "sac_finish pt =
     (if pt < 0 then Inl NoAudioLine
      else case staticAudioRTPMap pt of
          Some c \<Rightarrow> Inr c
        | None \<Rightarrow> Inr \<lparr>PayloadType = pt, EncodingName = [], ClockRate = 0\<rparr>)"

fun sac_loop :: "string list \<Rightarrow> int \<Rightarrow> bool \<Rightarrow> sdp_error + AudioCodec" where
  "sac_loop [] pt inAudio = sac_finish pt"
| "sac_loop (line # ls) pt inAudio =
     (if hasPrefix line ''m='' then
        (if inAudio then sac_finish pt
         else if \<not> hasPrefix line sdpAudioMedia then sac_loop ls pt inAudio
         else
           (let fs = goFields line in
            if length fs < 4 then Inl (MalformedAudio line)
            else case atoi (fs ! 3) of
                None \<Rightarrow> Inl (BadPayloadType (fs ! 3))
              | Some n \<Rightarrow> sac_loop ls n True))
      else if \<not> inAudio then sac_loop ls pt inAudio
      else if hasPrefix line ''a=rtpmap:'' then
        (case parseRTPMap line of
           Some c \<Rightarrow> if PayloadType c = pt then Inr c else sac_loop ls pt inAudio
         | None \<Rightarrow> sac_loop ls pt inAudio)
      else sac_loop ls pt inAudio)"

definition selectedAudioCodec :: "string \<Rightarrow> sdp_error + AudioCodec" where
  "selectedAudioCodec sdp = sac_loop (sdp_lines sdp) (-1) False"

definition codecsMatch :: "AudioCodec \<Rightarrow> AudioCodec \<Rightarrow> bool" where
  "codecsMatch a b =
     (if EncodingName a = [] \<and> EncodingName b = [] then PayloadType a = PayloadType b
      else equalFold (EncodingName a) (EncodingName b) \<and> ClockRate a = ClockRate b)"

section \<open>Classifying offers, trickle fragments\<close>

fun webrtc_loop :: "string list \<Rightarrow> bool" where
  "webrtc_loop [] = False"
| "webrtc_loop (line # ls) =
     (if hasPrefix line sdpAudioMedia \<and> 3 \<le> length (goFields line)
         \<and> (contains (goFields line ! 2) ''SAVPF'' \<or> contains (goFields line ! 2) ''SAVP'') then True
      else if hasPrefix line ''a=fingerprint:'' then True
      else webrtc_loop ls)"

definition offerIsWebRTC :: "string \<Rightarrow> bool" where
  "offerIsWebRTC sdp = webrtc_loop (sdp_lines sdp)"

definition trickleICEContentType :: string where
  "trickleICEContentType = ''application/trickle-ice-sdpfrag''"

definition isTrickleContentType :: "string \<Rightarrow> bool" where
  "isTrickleContentType ct =
     equalFold (trimSpace (takeWhile (\<lambda>c. c \<noteq> CHR '';'') ct)) trickleICEContentType"

record TrickleFragment =
  Candidates :: "string list"
  EndOfCandidates :: bool

fun trickle_loop :: "string list \<Rightarrow> TrickleFragment \<Rightarrow> TrickleFragment" where
  "trickle_loop [] frag = frag"
| "trickle_loop (line # ls) frag =
     (if hasPrefix line ''a=candidate:'' then
        trickle_loop ls (frag\<lparr>Candidates := Candidates frag @ [trimPrefix line ''a='']\<rparr>)
      else if line = ''a=end-of-candidates'' then
        trickle_loop ls (frag\<lparr>EndOfCandidates := True\<rparr>)
      else trickle_loop ls frag)"

definition parseTrickleFragment :: "string \<Rightarrow> TrickleFragment" where
  "parseTrickleFragment body =
     trickle_loop (sdp_lines body) \<lparr>Candidates = [], EndOfCandidates = False\<rparr>"

section \<open>Building offers\<close>

text \<open>The string builder writes each line followed by CRLF.\<close>

definition crlf_lines :: "string list \<Rightarrow> string" where
  "crlf_lines ls = concat (map (\<lambda>l. l @ CRLF) ls)"

definition session_head :: "string \<Rightarrow> string list" where
  "session_head host = [''v=0'', ''o=- 0 0 IN IP4 '' @ host, ''s=-'', ''t=0 0'']"

definition audioLine :: "string \<Rightarrow> string \<Rightarrow> string" where
  "audioLine port formats = sdpAudioMedia @ port @ '' RTP/AVP '' @ formats"

definition audio_block :: "string \<Rightarrow> string \<Rightarrow> string \<Rightarrow> string list \<Rightarrow> string list \<Rightarrow> string \<Rightarrow> string list" where
  "audio_block host port formats rtpmaps fmtps dir =
     [audioLine port formats, sdpConnIP4 @ host] @ rtpmaps @ fmtps @ [dir]"

definition buildTapOffer :: "string \<Rightarrow> string \<Rightarrow> int \<Rightarrow> int \<Rightarrow> sdp_error + string" where
  "buildTapOffer callOffer host rtpPort1 rtpPort2 =
     (case extractAudioCodecs callOffer of
        Inl e \<Rightarrow> Inl e
      | Inr (formats, rtpmaps, fmtps) \<Rightarrow>
          Inr (crlf_lines (session_head host
                @ audio_block host (itoa rtpPort1) formats rtpmaps fmtps ''a=recvonly''
                @ audio_block host (itoa rtpPort2) formats rtpmaps fmtps ''a=recvonly'')))"

definition buildInactiveOffer :: "string \<Rightarrow> string \<Rightarrow> sdp_error + string" where
  "buildInactiveOffer callOffer host =
     (case extractAudioCodecs callOffer of
        Inl e \<Rightarrow> Inl e
      | Inr (formats, rtpmaps, fmtps) \<Rightarrow>
          Inr (crlf_lines (session_head host
                @ audio_block host ''0'' formats rtpmaps fmtps ''a=inactive'')))"

definition buildPlainOfferFromWebRTC :: "string \<Rightarrow> string \<Rightarrow> int \<Rightarrow> sdp_error + string" where
  "buildPlainOfferFromWebRTC webrtcOffer host rtpPort =
     (case extractAudioCodecs webrtcOffer of
        Inl e \<Rightarrow> Inl e
      | Inr (formats, rtpmaps, fmtps) \<Rightarrow>
          Inr (crlf_lines (session_head host
                @ audio_block host (itoa rtpPort) formats rtpmaps fmtps ''a=sendrecv'')))"

section \<open>Reading addresses\<close>

text \<open>
  \<open>streams\<close> is the list of (host, port) read so far; the code's \<open>cur\<close> points at its last
  element once there is one.
\<close>

fun pta_loop :: "string list \<Rightarrow> string \<Rightarrow> (string \<times> int) list \<Rightarrow> sdp_error + (string \<times> int) list" where
  "pta_loop [] sessionHost streams = Inr streams"
| "pta_loop (line # ls) sessionHost streams =
     (if hasPrefix line sdpAudioMedia then
        (let fs = goFields line in
         if length fs < 2 then Inl (MalformedAudio line)
         else case atoi (fs ! 1) of
             None \<Rightarrow> Inl (BadPort line)
           | Some port \<Rightarrow> pta_loop ls sessionHost (streams @ [(sessionHost, port)]))
      else if hasPrefix line sdpConnIP4 then
        (let addr = trimPrefix line sdpConnIP4 in
         if streams \<noteq> [] then pta_loop ls sessionHost (butlast streams @ [(addr, snd (last streams))])
         else pta_loop ls addr streams)
      else pta_loop ls sessionHost streams)"

definition parseTapAnswer :: "string \<Rightarrow> sdp_error + (string \<times> int \<times> string \<times> int)" where
  "parseTapAnswer answer =
     (case pta_loop (sdp_lines answer) [] [] of
        Inl e \<Rightarrow> Inl e
      | Inr streams \<Rightarrow>
          (case streams of
             (h1, p1) # (h2, p2) # _ \<Rightarrow> Inr (h1, p1, h2, p2)
           | _ \<Rightarrow> Inl (TooFewStreams (length streams))))"

text \<open>\<open>strings.SplitN(s, "-", 2)\<close>\<close>

definition splitN2 :: "char \<Rightarrow> string \<Rightarrow> string list" where
  "splitN2 c s = (if c \<in> set s then [takeWhile (\<lambda>x. x \<noteq> c) s, tl (dropWhile (\<lambda>x. x \<noteq> c) s)]
                  else [s])"

definition parsePortRange :: "string \<Rightarrow> sdp_error + (int \<times> int)" where
  "parsePortRange s =
     (case splitN2 CHR ''-'' s of
        [a, b] \<Rightarrow>
          (case atoi a of
             None \<Rightarrow> Inl (RangeBadMin a)
           | Some mn \<Rightarrow>
               (case atoi b of
                  None \<Rightarrow> Inl (RangeBadMax b)
                | Some mx \<Rightarrow>
                    if mn \<le> 0 then Inl (RangeMinNotPositive mn)
                    else if mn mod 2 \<noteq> 0 then Inl (RangeMinOdd mn)
                    else if mx \<le> mn then Inl (RangeEmpty mn mx)
                    else Inr (mn, mx)))
      | _ \<Rightarrow> Inl (RangeFormat s))"

fun pm_loop :: "string list \<Rightarrow> string \<Rightarrow> string \<Rightarrow> int \<Rightarrow> bool \<Rightarrow> sdp_error + (string \<times> int)" where
  "pm_loop [] sessionHost host rtpPort inAudio = Inr (host, rtpPort)"
| "pm_loop (line # ls) sessionHost host rtpPort inAudio =
     (if hasPrefix line ''m='' then
        (if hasPrefix line sdpAudioMedia then
           (let fs = goFields line in
            if length fs < 2 then Inl (MalformedAudio line)
            else case atoi (fs ! 1) of
                None \<Rightarrow> Inl (BadPort line)
              | Some p \<Rightarrow> pm_loop ls sessionHost sessionHost p True)
         else pm_loop ls sessionHost host rtpPort False)
      else if hasPrefix line sdpConnIP4 then
        (let addr = trimPrefix line sdpConnIP4 in
         if inAudio then pm_loop ls sessionHost addr rtpPort inAudio
         else pm_loop ls addr (if host = [] then addr else host) rtpPort inAudio)
      else pm_loop ls sessionHost host rtpPort inAudio)"

definition parseMedia :: "string \<Rightarrow> sdp_error + (string \<times> int)" where
  "parseMedia sdp =
     (case pm_loop (sdp_lines sdp) [] [] 0 False of
        Inl e \<Rightarrow> Inl e
      | Inr (host, rtpPort) \<Rightarrow>
          (if rtpPort = 0 then Inl NoAudioLine
           else if host = [] then Inl NoConnAddress
           else if ParseIP host = None then Inl (NotIPLiteral host)
           else Inr (host, rtpPort)))"

section \<open>Anchoring\<close>

definition withCR :: "string \<Rightarrow> string \<Rightarrow> string" where
  "withCR rawLine newLine = newLine @ (if hasSuffixCR rawLine then [CR] else [])"

fun rta_loop :: "string list \<Rightarrow> string \<Rightarrow> int \<Rightarrow> bool \<Rightarrow> bool \<Rightarrow> sdp_error + string list" where
  "rta_loop [] host rtpPort cRewritten audioRewritten = Inr []"
| "rta_loop (rawLine # ls) host rtpPort cRewritten audioRewritten =
     (let line = trimRightCR rawLine in
      if hasPrefix line sdpConnIP4 \<and> \<not> cRewritten then
        map_sum id (\<lambda>out. withCR rawLine (sdpConnIP4 @ host) # out)
          (rta_loop ls host rtpPort True audioRewritten)
      else if hasPrefix line sdpAudioMedia \<and> \<not> audioRewritten then
        (let fs = goFields line in
         if length fs < 2 then Inl (MalformedAudio line)
         else map_sum id (\<lambda>out. withCR rawLine (join '' '' (fs[1 := itoa rtpPort])) # out)
                (rta_loop ls host rtpPort cRewritten True))
      else map_sum id (\<lambda>out. withCR rawLine line # out)
             (rta_loop ls host rtpPort cRewritten audioRewritten))"

definition rewriteToAnchor :: "string \<Rightarrow> string \<Rightarrow> int \<Rightarrow> sdp_error + string" where
  "rewriteToAnchor sdp host rtpPort =
     (if host = [] then Inl EmptyHost
      else if rtpPort \<le> 0 then Inl (InvalidPort rtpPort)
      else map_sum id (join [NL]) (rta_loop (split_on NL sdp) host rtpPort False False))"

end
