(* ===== verification/SdpProps.thy ===== *)
theory SdpProps
  imports Sdp
begin

text \<open>
  Properties of the SDP component: what the line scans see of a body that was built line by
  line, what the codec extraction returns and how the builders carry it over, and the rewrite
  of an SDP towards the anchor described line by line. The interface of the three offer
  builders is the locale \<open>offer_builder\<close>.
\<close>

section \<open>Lines\<close>

definition line_ok :: "string \<Rightarrow> bool" where
  "line_ok l = (NL \<notin> set l \<and> \<not> hasSuffixCR l)"

lemma sdp_lines_ok: "l \<in> set (sdp_lines sdp) \<Longrightarrow> line_ok l"
proof -
  assume "l \<in> set (sdp_lines sdp)"
  then obtain r where r: "r \<in> set (split_on NL sdp)" "l = trimRightCR r"
    by (auto simp: sdp_lines_def)
  have "NL \<notin> set r" using r(1) split_by_pieces [of r "\<lambda>x. x = NL" sdp NL] by auto
  then show ?thesis using r(2) set_trimRightCR [of r] by (auto simp: line_ok_def)
qed

lemma sdp_lines_crlf: "\<forall>l \<in> set ls. line_ok l \<Longrightarrow> sdp_lines (crlf_lines ls) = ls @ [[]]"
proof (induction ls)
  case Nil
  show ?case by (simp add: crlf_lines_def sdp_lines_def trimRightCR_def)
next
  case (Cons l ls)
  have "NL \<notin> set (l @ [CR])" using Cons.prems by (simp add: line_ok_def)
  then have 1: "split_on NL (l @ [CR]) = [l @ [CR]]"
    by (intro split_by_none) auto
  have "crlf_lines (l # ls) = (l @ [CR]) @ NL # crlf_lines ls"
    by (simp add: crlf_lines_def)
  then have "split_on NL (crlf_lines (l # ls)) = (l @ [CR]) # split_on NL (crlf_lines ls)"
    using split_by_sep [of "\<lambda>x. x = NL" NL "l @ [CR]"] 1 by simp
  then show ?case using Cons
    by (simp add: sdp_lines_def trimRightCR_id line_ok_def)
qed

lemma line_ok_simps [simp]: "line_ok [] "
  by (simp add: line_ok_def hasSuffixCR_def)

lemma line_ok_append: "line_ok b \<Longrightarrow> b \<noteq> [] \<Longrightarrow> NL \<notin> set a \<Longrightarrow> line_ok (a @ b)"
  by (auto simp: line_ok_def hasSuffixCR_def)

lemma word_ok_line_ok: "word_ok w \<Longrightarrow> line_ok w"
proof -
  assume w: "word_ok w"
  have "NL \<notin> set w" "\<not> isSpace (last w)"
    using word_ok_no_space [OF w, of NL] word_ok_no_space [OF w last_in_set] w by (auto simp: word_ok_def)
  moreover from this have "last w \<noteq> CR" by auto
  ultimately show ?thesis by (simp add: line_ok_def hasSuffixCR_def)
qed

lemma join_words_line_ok: "\<forall>w \<in> set ws. word_ok w \<Longrightarrow> line_ok (join '' '' ws)"
proof (induction ws)
  case (Cons w ws)
  then have w: "line_ok w" "w \<noteq> []" by (auto simp: word_ok_line_ok word_ok_def)
  show ?case
  proof (cases ws)
    case Nil with w show ?thesis by simp
  next
    case (Cons v vs)
    with Cons.prems Cons.IH have "line_ok (join '' '' ws)" "join '' '' ws \<noteq> []"
      by (auto simp: word_ok_def split: list.splits) (cases vs; simp)
    with w Cons show ?thesis by (simp add: join_Cons line_ok_append) (simp add: line_ok_def hasSuffixCR_def)
  qed
qed simp


text \<open>The prefixes the scans test exclude each other.\<close>

lemma prefix_facts:
  "hasPrefix l ''a=rtpmap:'' \<Longrightarrow> \<not> hasPrefix l ''m=''"
  "hasPrefix l ''a=fmtp:'' \<Longrightarrow> \<not> hasPrefix l ''m=''"
  "hasPrefix l ''a=fmtp:'' \<Longrightarrow> \<not> hasPrefix l ''a=rtpmap:''"
  "hasPrefix l sdpConnIP4 \<Longrightarrow> \<not> hasPrefix l ''m=''"
  "hasPrefix l sdpConnIP4 \<Longrightarrow> \<not> hasPrefix l sdpAudioMedia"
  "hasPrefix l ''a=rtpmap:'' \<Longrightarrow> \<not> hasPrefix l sdpConnIP4"
  "hasPrefix l ''a=fmtp:'' \<Longrightarrow> \<not> hasPrefix l sdpConnIP4"
  "hasPrefix l ''a=rtpmap:'' \<Longrightarrow> \<not> hasPrefix l sdpAudioMedia"
  "hasPrefix l ''a=fmtp:'' \<Longrightarrow> \<not> hasPrefix l sdpAudioMedia"
  "hasPrefix l sdpAudioMedia \<Longrightarrow> hasPrefix l ''m=''"
  by (auto simp: hasPrefix_def prefix_def sdpConnIP4_def sdpAudioMedia_def)

section \<open>What the codec extraction returns\<close>

definition codec_words :: "string \<Rightarrow> bool" where
  "codec_words f = (\<exists>ws. ws \<noteq> [] \<and> (\<forall>w \<in> set ws. word_ok w) \<and> f = join '' '' ws)"

definition codec_attrs :: "string list \<Rightarrow> string \<Rightarrow> bool" where
  "codec_attrs r p = (\<forall>l \<in> set r. line_ok l \<and> hasPrefix l p)"

lemma eac_loop_shape:
  assumes "eac_loop ls a f0 r0 m0 = Inr (f, r, m)" "\<forall>l \<in> set ls. line_ok l"
    "codec_attrs r0 ''a=rtpmap:''" "codec_attrs m0 ''a=fmtp:''"
  shows "codec_attrs r ''a=rtpmap:'' \<and> codec_attrs m ''a=fmtp:'' \<and> (f = f0 \<or> codec_words f)"
  using assms
proof (induction ls arbitrary: a f0 r0 m0)
  case (Cons line ls)
  let ?f = "join '' '' (drop 3 (goFields line))"
  have ok: "line_ok line" "\<forall>l \<in> set ls. line_ok l" using Cons.prems(2) by auto
  note IH = Cons.IH [OF _ ok(2)] and eq = Cons.prems(1) and attrs = Cons.prems(3,4)
  show ?case
  proof (cases "hasPrefix line ''m=''")
    case m: True
    show ?thesis
    proof (cases "a \<or> \<not> hasPrefix line sdpAudioMedia")
      case True
      then show ?thesis using m eq attrs IH by (cases a) simp_all
    next
      case False
      then have len: "\<not> length (goFields line) < 4" and e: "eac_loop ls True ?f r0 m0 = Inr (f, r, m)"
        using m eq by (auto simp: Let_def split: if_splits)
      have "codec_words ?f"
        unfolding codec_words_def using len goFields_word_ok
        by (intro exI [of _ "drop 3 (goFields line)"]) (auto dest: in_set_dropD)
      then show ?thesis using IH [OF e attrs] by auto
    qed
  next
    case nm: False
    show ?thesis
    proof (cases "a \<and> (hasPrefix line ''a=rtpmap:'' \<or> hasPrefix line ''a=fmtp:'')")
      case True
      have "codec_attrs (r0 @ [line]) ''a=rtpmap:''" if "hasPrefix line ''a=rtpmap:''"
        using that ok(1) attrs(1) by (simp add: codec_attrs_def)
      moreover have "codec_attrs (m0 @ [line]) ''a=fmtp:''" if "hasPrefix line ''a=fmtp:''"
        using that ok(1) attrs(2) by (simp add: codec_attrs_def)
      ultimately show ?thesis
        using True nm eq attrs IH by (cases "hasPrefix line ''a=rtpmap:''") simp_all
    next
      case False
      then show ?thesis using nm eq attrs IH by (cases a) simp_all
    qed
  qed
qed simp

lemma extractAudioCodecs_shape:
  assumes "extractAudioCodecs sdp = Inr (f, r, m)"
  shows "codec_attrs r ''a=rtpmap:''" "codec_attrs m ''a=fmtp:''" "codec_words f"
proof -
  from assms have e: "eac_loop (sdp_lines sdp) False [] [] [] = Inr (f, r, m)" "f \<noteq> []"
    by (auto simp: extractAudioCodecs_def split: sum.splits if_splits)
  from eac_loop_shape [OF e(1)] sdp_lines_ok e(2)
  show "codec_attrs r ''a=rtpmap:''" "codec_attrs m ''a=fmtp:''" "codec_words f"
    by (auto simp: codec_attrs_def)
qed

lemma join_nonempty: "w \<noteq> [] \<Longrightarrow> join sep (w # ws) \<noteq> []"
  by (cases ws) auto

lemma codec_words_nonempty: "codec_words f \<Longrightarrow> f \<noteq> []"
proof -
  assume "codec_words f"
  then obtain w ws where "word_ok w" "f = join '' '' (w # ws)"
    unfolding codec_words_def by (metis list.set_intros(1) neq_Nil_conv)
  then show ?thesis by (simp add: word_ok_def join_nonempty)
qed

lemma codec_words_fields: "codec_words f \<Longrightarrow> join '' '' (goFields f) = f \<and> 1 \<le> length (goFields f)"
  by (auto simp: codec_words_def goFields_join Suc_le_eq)

lemma audio_fields:
  assumes "word_ok p"
  shows "goFields (audioLine p f) = ''m=audio'' # p # ''RTP/AVP'' # goFields f"
proof -
  define m where "m = ''m=audio''"
  define v where "v = ''RTP/AVP''"
  have "audioLine p f = m @ CHR '' '' # p @ CHR '' '' # v @ CHR '' '' # f"
    by (simp add: audioLine_def sdpAudioMedia_def m_def v_def)
  moreover have "word_ok m" "word_ok v"
    by (auto simp: isSpace_def m_def v_def intro!: ascii_word_ok)
  ultimately show ?thesis
    using assms by (simp add: goFields_sep goFields_word flip: m_def v_def)
qed

lemma audioLine_prefix: "hasPrefix (audioLine p f) sdpAudioMedia" "hasPrefix (audioLine p f) ''m=''"
  by (simp_all add: audioLine_def) (simp add: sdpAudioMedia_def hasPrefix_def)

lemma connLine_prefix:
  "hasPrefix (sdpConnIP4 @ h) sdpConnIP4"
  "\<not> hasPrefix (sdpConnIP4 @ h) ''m=''" "\<not> hasPrefix (sdpConnIP4 @ h) ''a=rtpmap:''"
  "\<not> hasPrefix (sdpConnIP4 @ h) ''a=fmtp:''" "\<not> hasPrefix (sdpConnIP4 @ h) sdpAudioMedia"
  by (simp_all add: sdpConnIP4_def sdpAudioMedia_def hasPrefix_def)

lemma eac_loop_rtpmaps:
  "codec_attrs rs ''a=rtpmap:'' \<Longrightarrow> eac_loop (rs @ ls) True f r m = eac_loop ls True f (r @ rs) m"
  by (induction rs arbitrary: r) (auto simp: codec_attrs_def prefix_facts)

lemma eac_loop_fmtps:
  "codec_attrs ms ''a=fmtp:'' \<Longrightarrow> eac_loop (ms @ ls) True f r m = eac_loop ls True f r (m @ ms)"
  by (induction ms arbitrary: m) (auto simp: codec_attrs_def prefix_facts)

lemma eac_loop_head:
  "eac_loop (session_head host @ ls) False f r m = eac_loop ls False f r m"
  by (simp add: session_head_def hasPrefix_def)

lemma eac_loop_block:
  assumes "word_ok p" "codec_words f" "codec_attrs r ''a=rtpmap:''" "codec_attrs m ''a=fmtp:''"
    and d: "\<not> hasPrefix dir ''m=''" "\<not> hasPrefix dir ''a=rtpmap:''" "\<not> hasPrefix dir ''a=fmtp:''"
  shows "eac_loop (audio_block host p f r m dir @ ls) False [] [] [] = eac_loop ls True f r m"
proof -
  have fs: "4 \<le> length (goFields (audioLine p f))" "join '' '' (drop 3 (goFields (audioLine p f))) = f"
    using codec_words_fields [OF assms(2)] by (simp_all add: audio_fields [OF assms(1)])
  have "eac_loop (audio_block host p f r m dir @ ls) False [] [] []
        = eac_loop (r @ m @ dir # ls) True f [] []"
    using fs by (simp add: audio_block_def audioLine_prefix connLine_prefix Let_def)
  then show ?thesis using assms(3,4) d by (simp add: eac_loop_rtpmaps eac_loop_fmtps)
qed

section \<open>Scanning what the builders write\<close>

definition plain_line :: "string \<Rightarrow> bool" where
  "plain_line l = (\<not> hasPrefix l ''m='' \<and> \<not> hasPrefix l sdpConnIP4)"

lemma plain_not_audio: "plain_line l \<Longrightarrow> \<not> hasPrefix l sdpAudioMedia"
  using prefix_facts by (auto simp: plain_line_def)

lemma line_ok_append2: "line_ok a \<Longrightarrow> line_ok b \<Longrightarrow> line_ok (a @ b)"
  by (cases b rule: rev_cases) (auto simp: line_ok_def hasSuffixCR_def)

lemma attrs_plain:
  "codec_attrs r ''a=rtpmap:'' \<Longrightarrow> l \<in> set r \<Longrightarrow> plain_line l"
  "codec_attrs r ''a=fmtp:'' \<Longrightarrow> l \<in> set r \<Longrightarrow> plain_line l"
  by (auto simp: codec_attrs_def plain_line_def prefix_facts)

lemma head_plain: "l \<in> set (session_head host) \<Longrightarrow> plain_line l"
  by (auto simp: session_head_def plain_line_def hasPrefix_def sdpConnIP4_def)

lemma head_ok: "line_ok host \<Longrightarrow> l \<in> set (session_head host) \<Longrightarrow> line_ok l"
  by (auto simp: session_head_def intro: line_ok_append2)
     (auto simp: line_ok_def hasSuffixCR_def split: if_splits)

lemma block_ok:
  assumes "line_ok host" "word_ok p" "codec_words f" "codec_attrs r ''a=rtpmap:''"
    "codec_attrs m ''a=fmtp:''" "line_ok dir" "l \<in> set (audio_block host p f r m dir)"
  shows "line_ok l"
proof -
  have "line_ok f" using assms(3) by (auto simp: codec_words_def intro: join_words_line_ok)
  then have "line_ok (audioLine p f)"
    unfolding audioLine_def using word_ok_line_ok [OF assms(2)]
    by (intro line_ok_append2) (auto simp: sdpAudioMedia_def line_ok_def hasSuffixCR_def)
  moreover have "line_ok (sdpConnIP4 @ host)"
    using assms(1) by (intro line_ok_append2) (auto simp: sdpConnIP4_def line_ok_def hasSuffixCR_def)
  ultimately show ?thesis using assms by (auto simp: audio_block_def codec_attrs_def)
qed

lemma pta_skip: "\<forall>l \<in> set xs. plain_line l \<Longrightarrow> pta_loop (xs @ ls) sh st = pta_loop ls sh st"
  by (induction xs) (auto simp: plain_line_def plain_not_audio)

lemma pm_skip: "\<forall>l \<in> set xs. plain_line l \<Longrightarrow> pm_loop (xs @ ls) sh h p a = pm_loop ls sh h p a"
  by (induction xs) (auto simp: plain_line_def)

lemma block_tail_plain:
  assumes "codec_attrs r ''a=rtpmap:''" "codec_attrs m ''a=fmtp:''" "plain_line dir"
  shows "\<forall>l \<in> set (r @ m @ [dir]). plain_line l"
  using assms attrs_plain by auto

lemma pta_block:
  assumes "codec_attrs r ''a=rtpmap:''" "codec_attrs m ''a=fmtp:''" "plain_line dir"
    "word_ok p" "atoi p = Some n"
  shows "pta_loop (audio_block host p f r m dir @ ls) [] st = pta_loop ls [] (st @ [(host, n)])"
proof -
  have "audio_block host p f r m dir @ ls
        = audioLine p f # (sdpConnIP4 @ host) # ((r @ m @ [dir]) @ ls)"
    by (simp add: audio_block_def)
  moreover have "pta_loop (audioLine p f # (sdpConnIP4 @ host) # xs) [] st = pta_loop xs [] (st @ [(host, n)])" for xs
    using assms(5) by (simp add: audioLine_prefix connLine_prefix audio_fields [OF assms(4)] Let_def)
  ultimately show ?thesis
    using pta_skip [OF block_tail_plain [OF assms(1-3)]] by (simp only:)
qed

lemma pm_block:
  assumes "codec_attrs r ''a=rtpmap:''" "codec_attrs m ''a=fmtp:''" "plain_line dir"
    "word_ok p" "atoi p = Some n"
  shows "pm_loop (audio_block host p f r m dir @ ls) sh h q a = pm_loop ls sh host n True"
proof -
  have "audio_block host p f r m dir @ ls
        = audioLine p f # (sdpConnIP4 @ host) # ((r @ m @ [dir]) @ ls)"
    by (simp add: audio_block_def)
  moreover have "pm_loop (audioLine p f # (sdpConnIP4 @ host) # xs) sh h q a = pm_loop xs sh host n True" for xs
    using assms(5) by (simp add: audioLine_prefix connLine_prefix audio_fields [OF assms(4)] Let_def)
  ultimately show ?thesis
    using pm_skip [OF block_tail_plain [OF assms(1-3)]] by (simp only:)
qed

lemma dir_lines:
  "plain_line ''a=recvonly''" "plain_line ''a=inactive''" "plain_line ''a=sendrecv''"
  "line_ok ''a=recvonly''" "line_ok ''a=inactive''" "line_ok ''a=sendrecv''"
  by (simp_all add: plain_line_def hasPrefix_def sdpConnIP4_def line_ok_def hasSuffixCR_def)

lemma word_ok_zero: "word_ok ''0''"
  by (rule ascii_word_ok) (simp_all add: isSpace_def)

lemma eac_blank: "eac_loop [[]] True f r m = Inr (f, r, m)"
  by (simp add: hasPrefix_def)

text \<open>The codec list of an audio block, whatever follows it up to the next media line.\<close>

lemma extract_built:
  assumes ok: "line_ok host" "word_ok p" "codec_words f" "codec_attrs r ''a=rtpmap:''"
      "codec_attrs m ''a=fmtp:''" "line_ok dir"
    and d: "\<not> hasPrefix dir ''m=''" "\<not> hasPrefix dir ''a=rtpmap:''" "\<not> hasPrefix dir ''a=fmtp:''"
    and rest: "\<forall>l \<in> set rest. line_ok l" "rest = [] \<or> hasPrefix (hd rest) ''m=''"
  shows "extractAudioCodecs (crlf_lines (session_head host @ audio_block host p f r m dir @ rest))
         = Inr (f, r, m)"
proof -
  let ?ls = "session_head host @ audio_block host p f r m dir @ rest"
  have "line_ok l" if "l \<in> set ?ls" for l
    using that head_ok [OF ok(1), of l] block_ok [OF ok, of l] rest(1) unfolding set_append by blast
  then have "\<forall>l \<in> set ?ls. line_ok l" by blast
  then have "sdp_lines (crlf_lines ?ls) = ?ls @ [[]]" by (rule sdp_lines_crlf)
  moreover have "eac_loop (rest @ [[]]) True f r m = Inr (f, r, m)"
    using rest(2) eac_blank by (cases rest) auto
  ultimately show ?thesis
    using codec_words_nonempty [OF ok(3)]
    by (simp add: extractAudioCodecs_def eac_loop_head eac_loop_block [OF ok(2-5) d])
qed

lemma built_dir:
  "\<not> hasPrefix ''a=recvonly'' ''m=''" "\<not> hasPrefix ''a=recvonly'' ''a=rtpmap:''"
  "\<not> hasPrefix ''a=recvonly'' ''a=fmtp:''"
  "\<not> hasPrefix ''a=inactive'' ''m=''" "\<not> hasPrefix ''a=inactive'' ''a=rtpmap:''"
  "\<not> hasPrefix ''a=inactive'' ''a=fmtp:''"
  "\<not> hasPrefix ''a=sendrecv'' ''m=''" "\<not> hasPrefix ''a=sendrecv'' ''a=rtpmap:''"
  "\<not> hasPrefix ''a=sendrecv'' ''a=fmtp:''"
  by (simp_all add: hasPrefix_def)


section \<open>Anchoring, line by line\<close>

fun replace_first :: "('a \<Rightarrow> bool) \<Rightarrow> ('a \<Rightarrow> 'a) \<Rightarrow> 'a list \<Rightarrow> 'a list" where
  "replace_first P f [] = []"
| "replace_first P f (x # xs) = (if P x then f x # xs else x # replace_first P f xs)"

definition isConn :: "string \<Rightarrow> bool" where "isConn l = hasPrefix l sdpConnIP4"
definition isAudio :: "string \<Rightarrow> bool" where "isAudio l = hasPrefix l sdpAudioMedia"

definition setAudioPort :: "int \<Rightarrow> string \<Rightarrow> string" where
  "setAudioPort p l = join '' '' ((goFields l)[1 := itoa p])"

lemma isAudio_not_isConn: "isAudio l \<Longrightarrow> \<not> isConn l"
  using prefix_facts(5) by (auto simp: isAudio_def isConn_def)

lemma isConn_iff: "isConn l \<longleftrightarrow> (\<exists>h. l = sdpConnIP4 @ h)"
  by (auto simp: isConn_def hasPrefix_def prefix_def)

lemma isAudio_fields: "isAudio l \<Longrightarrow> \<exists>ws. goFields l = ''m=audio'' # ws"
proof -
  assume "isAudio l"
  then obtain r where "l = ''m=audio'' @ CHR '' '' # r"
    by (auto simp: isAudio_def hasPrefix_def prefix_def sdpAudioMedia_def)
  then have "goFields l = goFields ''m=audio'' @ goFields r" by (simp only: goFields_sep isSpace_blank)
  moreover have "goFields ''m=audio'' = [''m=audio'']"
    by (rule goFields_word, rule ascii_word_ok) (auto simp: isSpace_def)
  ultimately show ?thesis by simp
qed

lemma setAudioPort_audio:
  assumes "isAudio l" "2 \<le> length (goFields l)"
  shows "isAudio (setAudioPort p l)" and "goFields (setAudioPort p l) = (goFields l)[1 := itoa p]"
    and "line_ok (setAudioPort p l)"
proof -
  obtain ws where ws: "goFields l = ''m=audio'' # ws" using isAudio_fields [OF assms(1)] by blast
  with assms(2) obtain w vs where v: "goFields l = ''m=audio'' # w # vs" by (cases ws) auto
  have "setAudioPort p l = sdpAudioMedia @ join '' '' (itoa p # vs)"
    by (simp add: setAudioPort_def v sdpAudioMedia_def)
  then show "isAudio (setAudioPort p l)" by (simp add: isAudio_def)
  have "set ((goFields l)[1 := itoa p]) \<subseteq> insert (itoa p) (set (goFields l))"
    by (rule set_update_subset_insert)
  then have ok: "\<forall>w \<in> set ((goFields l)[1 := itoa p]). word_ok w"
    using goFields_word_ok itoa_word_ok by blast
  then show "goFields (setAudioPort p l) = (goFields l)[1 := itoa p]"
    unfolding setAudioPort_def by (rule goFields_join)
  show "line_ok (setAudioPort p l)"
    unfolding setAudioPort_def using ok by (rule join_words_line_ok)
qed

lemma trimRightCR_withCR: "line_ok l \<Longrightarrow> trimRightCR (withCR raw l) = l"
  by (simp add: withCR_def line_ok_def trimRightCR_id)

lemma hasSuffix_withCR: "line_ok l \<Longrightarrow> hasSuffixCR (withCR raw l) = hasSuffixCR raw"
  by (auto simp: withCR_def line_ok_def hasSuffixCR_def)

lemma withCR_no_NL: "line_ok l \<Longrightarrow> NL \<notin> set (withCR raw l)"
  by (auto simp: withCR_def line_ok_def)

text \<open>What one pass over the raw lines does, for any setting of the two flags.\<close>

definition anchored_lines :: "bool \<Rightarrow> bool \<Rightarrow> string \<Rightarrow> int \<Rightarrow> string list \<Rightarrow> string list" where
  "anchored_lines c a host p ls =
     (if c then id else replace_first isConn (\<lambda>_. sdpConnIP4 @ host))
       ((if a then id else replace_first isAudio (setAudioPort p)) ls)"

lemma anchored_lines_Cons:
  "anchored_lines c a host p (l # ls) =
     (if isConn l \<and> \<not> c then (sdpConnIP4 @ host) # anchored_lines True a host p ls
      else if isAudio l \<and> \<not> a then
        (if isConn (setAudioPort p l) \<and> \<not> c then (sdpConnIP4 @ host) # anchored_lines True True host p ls
         else setAudioPort p l # anchored_lines c True host p ls)
      else l # anchored_lines c a host p ls)"
  using isAudio_not_isConn by (auto simp: anchored_lines_def)

lemma rta_loop_spec:
  assumes "rta_loop raws host p c a = Inr outs" "line_ok host" "\<forall>r \<in> set raws. NL \<notin> set r"
  shows "map trimRightCR outs = anchored_lines c a host p (map trimRightCR raws)
       \<and> map hasSuffixCR outs = map hasSuffixCR raws \<and> (\<forall>r \<in> set outs. NL \<notin> set r)"
  using assms
proof (induction raws arbitrary: c a outs)
  case Nil
  then show ?case by (simp add: anchored_lines_def)
next
  case (Cons raw raws)
  let ?l = "trimRightCR raw"
  have lok: "line_ok ?l" using Cons.prems(3) set_trimRightCR [of raw] by (auto simp: line_ok_def)
  have cok: "line_ok (sdpConnIP4 @ host)"
    using Cons.prems(2) by (intro line_ok_append2) (auto simp: sdpConnIP4_def line_ok_def hasSuffixCR_def)
  note IH = Cons.IH [OF _ Cons.prems(2)]
  note fin = trimRightCR_withCR hasSuffix_withCR withCR_no_NL
  consider (conn) "isConn ?l" "\<not> c" | (audio) "isAudio ?l" "\<not> a" "\<not> (isConn ?l \<and> \<not> c)"
    | (other) "\<not> (isConn ?l \<and> \<not> c)" "\<not> (isAudio ?l \<and> \<not> a)" by blast
  then show ?case
  proof cases
    case conn
    with Cons.prems(1) obtain o2 where "rta_loop raws host p True a = Inr o2"
      "outs = withCR raw (sdpConnIP4 @ host) # o2"
      by (auto simp: isConn_def map_sum_def Let_def split: sum.splits)
    with IH [of True a o2] Cons.prems(3) conn fin [OF cok] show ?thesis
      by (simp add: anchored_lines_Cons)
  next
    case audio
    with Cons.prems(1) obtain o2 where o: "rta_loop raws host p c True = Inr o2"
      "outs = withCR raw (setAudioPort p ?l) # o2" and len: "2 \<le> length (goFields ?l)"
      by (auto simp: isConn_def isAudio_def map_sum_def Let_def setAudioPort_def
               split: sum.splits if_splits)
    from setAudioPort_audio [OF audio(1) len] have "\<not> isConn (setAudioPort p ?l)"
        "line_ok (setAudioPort p ?l)"
      using isAudio_not_isConn by blast+
    with o IH [of c True o2] Cons.prems(3) audio fin [of "setAudioPort p ?l"]
    show ?thesis by (auto simp: anchored_lines_Cons)
  next
    case other
    with Cons.prems(1) obtain o2 where "rta_loop raws host p c a = Inr o2"
      "outs = withCR raw ?l # o2"
      by (auto simp: isConn_def isAudio_def map_sum_def Let_def split: sum.splits if_splits)
    with IH [of c a o2] Cons.prems(3) other fin [OF lok] show ?thesis
      by (auto simp: anchored_lines_Cons)
  qed
qed

lemma rewriteToAnchor_lines:
  assumes "rewriteToAnchor sdp host p = Inr out" "line_ok host"
  shows "sdp_lines out = anchored_lines False False host p (sdp_lines sdp)"
    and "map hasSuffixCR (split_on NL out) = map hasSuffixCR (split_on NL sdp)"
proof -
  from assms(1) obtain outs where o: "rta_loop (split_on NL sdp) host p False False = Inr outs"
      "out = join [NL] outs"
    by (auto simp: rewriteToAnchor_def map_sum_def split: if_splits sum.splits)
  have nl: "\<forall>r \<in> set (split_on NL sdp). NL \<notin> set r"
    using split_by_pieces [of _ "\<lambda>x. x = NL" sdp NL] by blast
  note spec = rta_loop_spec [OF o(1) assms(2) nl]
  have "outs \<noteq> []" using spec by (metis map_is_Nil_conv split_by_nonempty)
  with spec have "split_on NL out = outs" unfolding o(2) by (intro split_on_join) auto
  with spec show "sdp_lines out = anchored_lines False False host p (sdp_lines sdp)"
    "map hasSuffixCR (split_on NL out) = map hasSuffixCR (split_on NL sdp)"
    by (simp_all add: sdp_lines_def)
qed

lemma filter_singleton:
  assumes "filter P xs = [x]"
  shows "\<forall>l \<in> set xs. P l \<longrightarrow> l = x" "P x" "x \<in> set xs"
proof -
  have s: "{l \<in> set xs. P l} = {x}" using assms by (metis set_filter list.simps(15) list.set(1))
  then show "\<forall>l \<in> set xs. P l \<longrightarrow> l = x" "P x" "x \<in> set xs" by blast+
qed

lemma filter_split1:
  assumes "filter P xs = [x]"
  obtains ys zs where "xs = ys @ x # zs" "\<forall>l \<in> set ys. \<not> P l" "\<forall>l \<in> set zs. \<not> P l"
  using assms by (auto simp: filter_eq_Cons_iff) (metis filter_empty_conv)

lemma filter_replace_first_same:
  "\<forall>x \<in> set xs. P x \<longrightarrow> P (f x) \<Longrightarrow>
   filter P (replace_first P f xs) = (case filter P xs of [] \<Rightarrow> [] | y # ys \<Rightarrow> f y # ys)"
  by (induction xs) auto

lemma filter_replace_first_other:
  "\<forall>x \<in> set xs. P x \<longrightarrow> \<not> Q x \<and> \<not> Q (f x) \<Longrightarrow> filter Q (replace_first P f xs) = filter Q xs"
  by (induction xs) auto

lemma rta_loop_audio:
  assumes "rta_loop raws host p c False = Inr outs" "filter isAudio (map trimRightCR raws) = x # xs"
  shows "2 \<le> length (goFields x)"
  using assms
proof (induction raws arbitrary: c outs)
  case (Cons raw raws)
  show ?case
  proof (cases "isAudio (trimRightCR raw)")
    case True
    with Cons.prems isAudio_not_isConn [OF True] show ?thesis
      by (auto simp: isConn_def isAudio_def map_sum_def Let_def split: sum.splits if_splits)
  next
    case False
    with Cons.prems obtain c' o2 where "rta_loop raws host p c' False = Inr o2"
      by (auto simp: isAudio_def map_sum_def Let_def split: sum.splits if_splits)
    with Cons.IH Cons.prems(2) False show ?thesis by auto
  qed
qed simp

lemma anchored_filters:
  assumes "rewriteToAnchor sdp host p = Inr out" "line_ok host"
    and "filter isAudio (sdp_lines sdp) = [x]" "filter isConn (sdp_lines sdp) = [y]"
  shows "filter isAudio (sdp_lines out) = [setAudioPort p x]"
    and "filter isConn (sdp_lines out) = [sdpConnIP4 @ host]"
    and "2 \<le> length (goFields x)" "isAudio x"
proof -
  from assms(1) obtain outs where o: "rta_loop (split_on NL sdp) host p False False = Inr outs"
    by (auto simp: rewriteToAnchor_def map_sum_def split: if_splits sum.splits)
  show len: "2 \<le> length (goFields x)"
    using rta_loop_audio [OF o] assms(3) by (simp add: sdp_lines_def)
  let ?A = "replace_first isAudio (setAudioPort p) (sdp_lines sdp)"
  have x: "\<forall>l \<in> set (sdp_lines sdp). isAudio l \<longrightarrow> l = x"
    by (rule filter_singleton(1) [OF assms(3)])
  show xa: "isAudio x" by (rule filter_singleton(2) [OF assms(3)])
  note sp = setAudioPort_audio [OF xa len]
  have fa: "filter isAudio ?A = [setAudioPort p x]"
    using filter_replace_first_same [of "sdp_lines sdp" isAudio "setAudioPort p"] x sp(1) assms(3)
    by auto
  have fc: "filter isConn ?A = [y]"
    using filter_replace_first_other [of "sdp_lines sdp" isAudio isConn "setAudioPort p"]
      x sp(1) isAudio_not_isConn assms(4) by metis
  have out: "sdp_lines out = replace_first isConn (\<lambda>_. sdpConnIP4 @ host) ?A"
    using rewriteToAnchor_lines(1) [OF assms(1,2)] by (simp add: anchored_lines_def)
  have "isConn (sdpConnIP4 @ host)" by (simp add: isConn_def)
  then show "filter isConn (sdp_lines out) = [sdpConnIP4 @ host]"
    using filter_replace_first_same [of ?A isConn "\<lambda>_. sdpConnIP4 @ host"] fc out by simp
  have "\<not> isAudio (sdpConnIP4 @ host)" by (simp add: isAudio_def connLine_prefix)
  then show "filter isAudio (sdp_lines out) = [setAudioPort p x]"
    using filter_replace_first_other [of ?A isConn isAudio "\<lambda>_. sdpConnIP4 @ host"]
      isAudio_not_isConn fa out by metis
qed

text \<open>Scanning for the address: before the audio line and after it.\<close>

lemma pm_before:
  assumes "\<forall>l \<in> set xs. \<not> isAudio l" "\<forall>l \<in> set xs. isConn l \<longrightarrow> l = sdpConnIP4 @ host"
    and "host \<noteq> []" "h = [] \<or> h = host"
  shows "pm_loop (xs @ ls) h h p False
         = (let h' = if h = host \<or> (\<exists>l \<in> set xs. isConn l) then host else [] in pm_loop ls h' h' p False)"
  using assms
proof (induction xs arbitrary: h)
  case (Cons l xs)
  then have IH: "pm_loop (xs @ ls) h' h' p False
      = (let h'' = if h' = host \<or> (\<exists>l \<in> set xs. isConn l) then host else [] in pm_loop ls h'' h'' p False)"
    if "h' = [] \<or> h' = host" for h' using that by simp
  show ?case
  proof (cases "isConn l")
    case True
    then have l: "l = sdpConnIP4 @ host" using Cons.prems by simp
    have "pm_loop ((l # xs) @ ls) h h p False = pm_loop (xs @ ls) host host p False"
      using Cons.prems(4) by (auto simp: l connLine_prefix Let_def)
    then show ?thesis using IH [of host] True by simp
  next
    case False
    then have "pm_loop ((l # xs) @ ls) h h p False = pm_loop (xs @ ls) h h p False"
      using Cons.prems by (auto simp: isConn_def isAudio_def)
    then show ?thesis using IH [of h] Cons.prems(4) False by simp
  qed
qed auto

lemma pm_after:
  assumes "\<forall>l \<in> set ys. \<not> isAudio l" "\<forall>l \<in> set ys. isConn l \<longrightarrow> l = sdpConnIP4 @ host"
    and "h = [] \<or> h = host"
  shows "pm_loop ys sh h p a = Inr (if h = host \<or> (\<exists>l \<in> set ys. isConn l) then host else [], p)"
  using assms
proof (induction ys arbitrary: sh h a)
  case (Cons l ys)
  show ?case
  proof (cases "isConn l")
    case True
    then have l: "l = sdpConnIP4 @ host" using Cons.prems by simp
    have "\<exists>sh' a'. pm_loop (l # ys) sh h p a = pm_loop ys sh' host p a'"
      using Cons.prems(3) by (cases a) (auto simp: l connLine_prefix Let_def)
    then show ?thesis using Cons.IH [of host] Cons.prems True by auto
  next
    case False
    then have "\<exists>a'. pm_loop (l # ys) sh h p a = pm_loop ys sh h p a'"
      using Cons.prems by (auto simp: isConn_def isAudio_def)
    then show ?thesis using Cons.IH [of h] Cons.prems False by auto
  qed
qed auto

lemma parseMedia_single:
  assumes A: "filter isAudio (sdp_lines sdp) = [x]" "filter isConn (sdp_lines sdp) = [sdpConnIP4 @ host]"
    and x: "2 \<le> length (goFields x)" "atoi (goFields x ! 1) = Some p" "p \<noteq> 0"
    and ip: "ParseIP host = Some ip"
  shows "parseMedia sdp = Inr (host, p)"
proof -
  have ne: "host \<noteq> []" using ParseIP_nonempty [OF ip] .
  from A(1) obtain xs ys where ls: "sdp_lines sdp = xs @ x # ys"
    and na: "\<forall>l \<in> set xs. \<not> isAudio l" "isAudio x" "\<forall>l \<in> set ys. \<not> isAudio l"
    using filter_split1 [OF A(1)] filter_singleton(2) [OF A(1)] by metis
  have co: "\<forall>l \<in> set (sdp_lines sdp). isConn l \<longrightarrow> l = sdpConnIP4 @ host"
    by (rule filter_singleton(1) [OF A(2)])
  have some: "(\<exists>l \<in> set xs. isConn l) \<or> (\<exists>l \<in> set ys. isConn l)"
  proof -
    have "sdpConnIP4 @ host \<in> set (sdp_lines sdp)"
      by (rule filter_singleton(3) [OF A(2)])
    moreover have "isConn (sdpConnIP4 @ host)" by (simp add: isConn_def)
    ultimately show ?thesis using ls isAudio_not_isConn [OF na(2)] by auto
  qed
  have cx: "\<forall>l \<in> set xs. isConn l \<longrightarrow> l = sdpConnIP4 @ host"
    and cy: "\<forall>l \<in> set ys. isConn l \<longrightarrow> l = sdpConnIP4 @ host" using co ls by auto
  have px: "hasPrefix x sdpAudioMedia" "hasPrefix x ''m=''"
    using na(2) prefix_facts(10) by (auto simp: isAudio_def)
  have "pm_loop (sdp_lines sdp) [] [] 0 False = Inr (host, p)"
    using pm_before [OF na(1) cx ne, of "[]" "x # ys" 0] px x
      pm_after [OF na(3) cy] some ne
    by (auto simp: ls Let_def)
  then show ?thesis using x(3) ne ip by (simp add: parseMedia_def)
qed

lemma rewrite_succeeds:
  assumes "host \<noteq> []" "0 < p" "\<forall>l \<in> set (sdp_lines sdp). isAudio l \<longrightarrow> 2 \<le> length (goFields l)"
  shows "\<exists>out. rewriteToAnchor sdp host p = Inr out"
proof -
  have "\<exists>outs. rta_loop raws host p c a = Inr outs"
    if "\<forall>l \<in> set (map trimRightCR raws). isAudio l \<longrightarrow> 2 \<le> length (goFields l)" for raws c a
    using that
  proof (induction raws arbitrary: c a)
    case (Cons r rs)
    then have len: "isAudio (trimRightCR r) \<Longrightarrow> 2 \<le> length (goFields (trimRightCR r))" by simp
    have "\<exists>o1. rta_loop rs host p c' a' = Inr o1" for c' a' using Cons by simp
    then obtain f where f: "\<And>c' a'. rta_loop rs host p c' a' = Inr (f c' a')" by metis
    from len show ?case by (simp add: f isAudio_def Let_def) (meson not_less)
  qed simp
  with assms(3) obtain outs where "rta_loop (split_on NL sdp) host p False False = Inr outs"
    unfolding sdp_lines_def by blast
  with assms(1,2) show ?thesis by (simp add: rewriteToAnchor_def)
qed

section \<open>The offer builders\<close>

text \<open>
  What buildTapOffer, buildInactiveOffer and buildPlainOfferFromWebRTC share: an audio block
  with the caller's codecs after the session head, perhaps followed by further media blocks.
\<close>

locale offer_builder =
  fixes build :: "string \<Rightarrow> string \<Rightarrow> sdp_error + string"
    and port dir :: string
    and rest :: "string \<Rightarrow> string \<Rightarrow> string list \<Rightarrow> string list \<Rightarrow> string list"
  assumes builds: "build offer host =
      (case extractAudioCodecs offer of
         Inl e \<Rightarrow> Inl e
       | Inr (f, r, m) \<Rightarrow>
           Inr (crlf_lines (session_head host @ audio_block host port f r m dir @ rest host f r m)))"
    and port_ok: "word_ok port"
    and dir_ok: "line_ok dir" "plain_line dir" "\<not> hasPrefix dir ''a=rtpmap:''" "\<not> hasPrefix dir ''a=fmtp:''" "\<not> hasPrefix dir ''a=fingerprint:''"
    and rest_ok: "\<lbrakk>line_ok host; codec_words f; codec_attrs r ''a=rtpmap:''; codec_attrs m ''a=fmtp:'';
        l \<in> set (rest host f r m)\<rbrakk> \<Longrightarrow> line_ok l"
    and rest_head: "rest host f r m = [] \<or> hasPrefix (hd (rest host f r m)) ''m=''"
begin

lemma built:
  assumes "build offer host = Inr out"
  obtains f r m where "extractAudioCodecs offer = Inr (f, r, m)"
    "out = crlf_lines (session_head host @ audio_block host port f r m dir @ rest host f r m)"
  using assms by (auto simp: builds split: sum.splits)

lemma keeps_codecs:
  assumes "line_ok host" "build offer host = Inr out"
  shows "extractAudioCodecs out = extractAudioCodecs offer"
proof -
  obtain f r m where e: "extractAudioCodecs offer = Inr (f, r, m)"
    and out: "out = crlf_lines (session_head host @ audio_block host port f r m dir @ rest host f r m)"
    using built [OF assms(2)] .
  note shape = extractAudioCodecs_shape [OF e]
  have "\<forall>l \<in> set (rest host f r m). line_ok l" using rest_ok [OF assms(1) shape(3,1,2)] by blast
  moreover have "\<not> hasPrefix dir ''m=''" using dir_ok(2) by (simp add: plain_line_def)
  ultimately show ?thesis
    unfolding out e
    by (intro extract_built [OF assms(1) port_ok shape(3,1,2) dir_ok(1)]) (use dir_ok rest_head in auto)
qed

text \<open>Building again from what was built changes nothing.\<close>

lemma rebuild:
  assumes "line_ok host" "build offer host = Inr out"
  shows "build out host = Inr out"
  using keeps_codecs [OF assms] assms(2) by (simp add: builds)

lemma fails_with_extraction: "build offer host = Inl e \<longleftrightarrow> extractAudioCodecs offer = Inl e"
  by (auto simp: builds split: sum.splits)

end

lemma tap_rest_ok:
  assumes "line_ok host" "codec_words f" "codec_attrs r ''a=rtpmap:''" "codec_attrs m ''a=fmtp:''"
    "l \<in> set (audio_block host (itoa p) f r m ''a=recvonly'')"
  shows "line_ok l"
  using block_ok [OF assms(1) itoa_word_ok assms(2-4) dir_lines(4) assms(5)] .

interpretation tap: offer_builder "\<lambda>offer host. buildTapOffer offer host p1 p2" "itoa p1" "''a=recvonly''"
    "\<lambda>host f r m. audio_block host (itoa p2) f r m ''a=recvonly''" for p1 p2
proof
  show "line_ok l" if "line_ok host" "codec_words f" "codec_attrs r ''a=rtpmap:''"
    "codec_attrs m ''a=fmtp:''" "l \<in> set (audio_block host (itoa p2) f r m ''a=recvonly'')" for host f r m l
    using that by (rule tap_rest_ok)
qed (auto simp: buildTapOffer_def itoa_word_ok dir_lines built_dir hasPrefix_def audio_block_def
       audioLine_prefix(2) [unfolded hasPrefix_def] split: sum.splits)

interpretation inactive: offer_builder buildInactiveOffer "''0''" "''a=inactive''" "\<lambda>_ _ _ _. []"
  by unfold_locales
     (auto simp: buildInactiveOffer_def word_ok_zero dir_lines built_dir hasPrefix_def split: sum.splits)

interpretation plain: offer_builder "\<lambda>offer host. buildPlainOfferFromWebRTC offer host p" "itoa p"
    "''a=sendrecv''" "\<lambda>_ _ _ _. []" for p
  by unfold_locales
     (auto simp: buildPlainOfferFromWebRTC_def itoa_word_ok dir_lines built_dir hasPrefix_def split: sum.splits)

lemma built_lines_ok:
  assumes "line_ok host" "codec_words f" "codec_attrs r ''a=rtpmap:''" "codec_attrs m ''a=fmtp:''"
    "word_ok p" "line_ok dir" "\<forall>l \<in> set rest. line_ok l"
  shows "sdp_lines (crlf_lines (session_head host @ audio_block host p f r m dir @ rest))
         = session_head host @ audio_block host p f r m dir @ rest @ [[]]"
proof -
  have "line_ok l" if "l \<in> set (session_head host @ audio_block host p f r m dir @ rest)" for l
    using that head_ok [OF assms(1), of l] block_ok [OF assms(1,5,2,3,4,6), of l] assms(7)
    unfolding set_append by blast
  then show ?thesis by (subst sdp_lines_crlf) auto
qed

lemma blank_plain: "plain_line []"
  by (simp add: plain_line_def hasPrefix_def sdpConnIP4_def)

text \<open>A plain audio block does not look like WebRTC.\<close>

lemma webrtc_skip:
  "\<forall>l \<in> set xs. \<not> hasPrefix l sdpAudioMedia \<and> \<not> hasPrefix l ''a=fingerprint:''
   \<Longrightarrow> webrtc_loop (xs @ ls) = webrtc_loop ls"
  by (induction xs) auto

lemma attrs_no_fingerprint:
  "codec_attrs r ''a=rtpmap:'' \<Longrightarrow> l \<in> set r \<Longrightarrow> \<not> hasPrefix l sdpAudioMedia \<and> \<not> hasPrefix l ''a=fingerprint:''"
  "codec_attrs r ''a=fmtp:'' \<Longrightarrow> l \<in> set r \<Longrightarrow> \<not> hasPrefix l sdpAudioMedia \<and> \<not> hasPrefix l ''a=fingerprint:''"
  by (auto simp: codec_attrs_def hasPrefix_def prefix_def sdpAudioMedia_def)

lemma webrtc_block:
  assumes "codec_attrs r ''a=rtpmap:''" "codec_attrs m ''a=fmtp:''" "word_ok p"
    "\<not> hasPrefix dir sdpAudioMedia" "\<not> hasPrefix dir ''a=fingerprint:''"
  shows "webrtc_loop (audio_block host p f r m dir @ ls) = webrtc_loop ls"
proof -
  have 1: "\<forall>l \<in> set ((sdpConnIP4 @ host) # r @ m @ [dir]).
      \<not> hasPrefix l sdpAudioMedia \<and> \<not> hasPrefix l ''a=fingerprint:''"
    using attrs_no_fingerprint assms by (auto simp: sdpConnIP4_def sdpAudioMedia_def hasPrefix_def)
  have "\<not> hasPrefix (audioLine p f) ''a=fingerprint:''"
    by (simp add: audioLine_def sdpAudioMedia_def hasPrefix_def)
  moreover have "\<not> contains ''RTP/AVP'' ''SAVPF''" "\<not> contains ''RTP/AVP'' ''SAVP''"
    by (simp_all add: hasPrefix_def)
  ultimately have 2: "webrtc_loop (audioLine p f # xs) = webrtc_loop xs" for xs
    by (simp add: audio_fields [OF assms(3)])
  have 3: "audio_block host p f r m dir @ ls
      = audioLine p f # ((sdpConnIP4 @ host) # r @ m @ [dir]) @ ls"
    by (simp add: audio_block_def)
  show ?thesis unfolding 3 2 by (rule webrtc_skip [OF 1])
qed

lemma head_webrtc: "webrtc_loop (session_head host @ ls) = webrtc_loop ls"
  by (rule webrtc_skip) (auto simp: session_head_def sdpAudioMedia_def hasPrefix_def)

text \<open>Two audio blocks after a session head read as the two endpoints they name.\<close>

lemma two_blocks_lines:
  assumes "line_ok host" "codec_words f" "codec_attrs r ''a=rtpmap:''" "codec_attrs m ''a=fmtp:''"
  shows "sdp_lines (crlf_lines (session_head host @ audio_block host (itoa p1) f r m ''a=recvonly''
                                @ audio_block host (itoa p2) f r m ''a=recvonly''))
       = session_head host @ audio_block host (itoa p1) f r m ''a=recvonly''
         @ audio_block host (itoa p2) f r m ''a=recvonly'' @ [[]]"
  using tap_rest_ok [OF assms] by (intro built_lines_ok [OF assms itoa_word_ok dir_lines(4)]) auto

lemma two_blocks_read:
  assumes "line_ok host" "codec_words f" "codec_attrs r ''a=rtpmap:''" "codec_attrs m ''a=fmtp:''"
    "int64_ok p1" "int64_ok p2"
  shows "parseTapAnswer (crlf_lines (session_head host @ audio_block host (itoa p1) f r m ''a=recvonly''
                                @ audio_block host (itoa p2) f r m ''a=recvonly'')) = Inr (host, p1, host, p2)"
proof -
  have b: "pta_loop (audio_block host (itoa q) f r m ''a=recvonly'' @ ls) [] st = pta_loop ls [] (st @ [(host, q)])"
    if "int64_ok q" for q ls st
    using that by (intro pta_block [OF assms(3,4) dir_lines(1) itoa_word_ok]) simp
  show ?thesis using head_plain assms(5,6)
    by (simp add: parseTapAnswer_def two_blocks_lines [OF assms(1-4)] pta_skip b)
       (simp add: hasPrefix_def sdpAudioMedia_def sdpConnIP4_def)
qed

section \<open>A media-level address survives the rewrite\<close>

lemma pm_no_audio:
  "\<forall>l \<in> set xs. \<not> isAudio l \<Longrightarrow> \<exists>sh' h' a'. pm_loop (xs @ ls) sh h p a = pm_loop ls sh' h' p a'"
proof (induction xs arbitrary: sh h a)
  case (Cons l xs)
  then have IH: "\<exists>sh' h' a'. pm_loop (xs @ ls) sh h p a = pm_loop ls sh' h' p a'" for sh h a by simp
  have "\<exists>sh' h' a'. pm_loop ((l # xs) @ ls) sh h p a = pm_loop (xs @ ls) sh' h' p a'"
    using Cons.prems by (auto simp: isAudio_def Let_def)
  with IH show ?case by metis
qed auto

lemma pm_in_audio:
  "\<forall>l \<in> set xs. \<not> hasPrefix l ''m='' \<Longrightarrow> \<exists>h'. pm_loop (xs @ ls) sh h p True = pm_loop ls sh h' p True"
proof (induction xs arbitrary: h)
  case (Cons l xs)
  then have "\<exists>h'. pm_loop (xs @ ls) sh h p True = pm_loop ls sh h' p True" for h by simp
  then show ?case using Cons.prems by (auto simp: Let_def)
qed auto

lemma replace_first_append:
  "replace_first P f (xs @ ys) = (if \<exists>x \<in> set xs. P x then replace_first P f xs @ ys
                                  else xs @ replace_first P f ys)"
  by (induction xs) auto

lemma replace_first_other:
  "\<forall>x. P x \<longrightarrow> \<not> Q (f x) \<Longrightarrow> \<forall>x \<in> set xs. \<not> Q x \<Longrightarrow> \<forall>x \<in> set (replace_first P f xs). \<not> Q x"
  by (induction xs) auto

lemma survives_aux:
  assumes "sdp_lines sdp = xs @ x # ys @ (sdpConnIP4 @ h) # zs"
    and xs: "\<forall>l \<in> set xs. \<not> isAudio l" "\<exists>l \<in> set xs. isConn l" and x: "isAudio x"
    and ys: "\<forall>l \<in> set ys. \<not> hasPrefix l ''m=''" and zs: "\<forall>l \<in> set zs. plain_line l"
    and rw: "rewriteToAnchor sdp host p = Inr out" and ok: "line_ok host" "int64_ok p"
    and ip: "ParseIP h = Some ip"
  shows "parseMedia out = Inr (h, p)"
proof -
  obtain outs where o: "rta_loop (split_on NL sdp) host p False False = Inr outs" and p: "0 < p"
    using rw by (auto simp: rewriteToAnchor_def map_sum_def split: if_splits sum.splits)
  have "filter isAudio (map trimRightCR (split_on NL sdp)) = x # filter isAudio (ys @ (sdpConnIP4 @ h) # zs)"
    using assms(1) xs(1) x by (simp add: sdp_lines_def filter_empty_conv)
  then have len: "2 \<le> length (goFields x)" using rta_loop_audio [OF o] by blast
  let ?x = "setAudioPort p x" and ?xs = "replace_first isConn (\<lambda>_. sdpConnIP4 @ host) xs"
  have "replace_first isAudio (setAudioPort p) (sdp_lines sdp) = xs @ ?x # ys @ (sdpConnIP4 @ h) # zs"
    using assms(1) xs(1) x by (simp add: replace_first_append)
  then have lines: "sdp_lines out = ?xs @ ?x # ys @ (sdpConnIP4 @ h) # zs"
    using rewriteToAnchor_lines(1) [OF rw ok(1)] xs(2) by (simp add: anchored_lines_def replace_first_append)
  have na: "\<forall>l \<in> set ?xs. \<not> isAudio l"
    using xs(1) isAudio_not_isConn by (intro replace_first_other) (auto simp: isAudio_def connLine_prefix)
  obtain sh' h' a' where 1: "pm_loop (sdp_lines out) [] [] 0 False
      = pm_loop (?x # ys @ (sdpConnIP4 @ h) # zs) sh' h' 0 a'"
    using pm_no_audio [OF na] lines by metis
  note sx = setAudioPort_audio [OF x len]
  have "atoi (goFields ?x ! 1) = Some p" "2 \<le> length (goFields ?x)" using sx(2) len ok(2) by auto
  then have 2: "pm_loop (?x # ys @ (sdpConnIP4 @ h) # zs) sh' h' 0 a'
      = pm_loop (ys @ (sdpConnIP4 @ h) # zs) sh' sh' p True"
    using sx(1) [of p] prefix_facts(10) [of ?x] by (simp add: isAudio_def Let_def)
  obtain h'' where 3: "pm_loop (ys @ (sdpConnIP4 @ h) # zs) sh' sh' p True
      = pm_loop ((sdpConnIP4 @ h) # zs) sh' h'' p True"
    using pm_in_audio [OF ys] by blast
  have "pm_loop ((sdpConnIP4 @ h) # zs) sh' h'' p True = pm_loop (zs @ []) sh' h p True"
    by (simp add: connLine_prefix Let_def)
  also have "\<dots> = Inr (h, p)" unfolding pm_skip [OF zs] by simp
  finally show ?thesis
    using 1 2 3 ParseIP_nonempty [OF ip] ip p by (simp add: parseMedia_def)
qed

section \<open>Properties\<close>


text \<open>The tap offer parses back: read as a tap answer it yields the two endpoints it was
  built for, in order.\<close>

theorem tap_offer_roundtrip:
  assumes "line_ok host" "int64_ok p1" "int64_ok p2" "buildTapOffer offer host p1 p2 = Inr out"
  shows "parseTapAnswer out = Inr (host, p1, host, p2)"
proof -
  obtain f r m where e: "extractAudioCodecs offer = Inr (f, r, m)"
    and out: "out = crlf_lines (session_head host @ audio_block host (itoa p1) f r m ''a=recvonly''
                                @ audio_block host (itoa p2) f r m ''a=recvonly'')"
    using tap.built [OF assms(4)] .
  note shape = extractAudioCodecs_shape [OF e]
  show ?thesis unfolding out by (rule two_blocks_read [OF assms(1) shape(3,1,2) assms(2,3)])
qed

text \<open>The plain offer made of a WebRTC offer is a plain one, and its media address is the
  anchor it was built for.\<close>

theorem plain_offer_is_plain:
  assumes "ParseIP host = Some ip" "int64_ok p" "p \<noteq> 0"
    "buildPlainOfferFromWebRTC offer host p = Inr out"
  shows "parseMedia out = Inr (host, p) \<and> \<not> offerIsWebRTC out"
proof -
  have ok: "line_ok host"
    by (rule word_ok_line_ok [OF ParseIP_word_ok [OF assms(1)]])
  obtain f r m where e: "extractAudioCodecs offer = Inr (f, r, m)"
    and out: "out = crlf_lines (session_head host @ audio_block host (itoa p) f r m ''a=sendrecv'' @ [])"
    using plain.built [OF assms(4)] .
  note shape = extractAudioCodecs_shape [OF e]
  have ls: "sdp_lines out = session_head host @ audio_block host (itoa p) f r m ''a=sendrecv'' @ [[]]"
    unfolding out using built_lines_ok [OF ok shape(3,1,2) itoa_word_ok dir_lines(6), of "[]"] by simp
  have "pm_loop (sdp_lines out) [] [] 0 False = pm_loop [[]] [] host p True"
    using head_plain assms(2)
    by (simp add: ls pm_skip pm_block [OF shape(1,2) dir_lines(3) itoa_word_ok])
  moreover have "webrtc_loop (sdp_lines out) = webrtc_loop [[]]"
    unfolding ls head_webrtc
    by (rule webrtc_block [OF shape(1,2) itoa_word_ok]) (simp_all add: sdpAudioMedia_def hasPrefix_def)
  ultimately show ?thesis
    using assms(1,3) ParseIP_nonempty [OF assms(1)]
    by (simp add: parseMedia_def offerIsWebRTC_def hasPrefix_def sdpAudioMedia_def sdpConnIP4_def)
qed

text \<open>C33: The anchoring rewrite is exact, line by line: the first connection line names the
  anchor's host, the first audio line its port, every other line is the same, and every line
  keeps its ending.\<close>

theorem rewrite_line_by_line:
  assumes "rewriteToAnchor sdp host p = Inr out" "line_ok host"
  shows "sdp_lines out = replace_first isConn (\<lambda>_. sdpConnIP4 @ host)
                           (replace_first isAudio (setAudioPort p) (sdp_lines sdp))
       \<and> map hasSuffixCR (split_on NL out) = map hasSuffixCR (split_on NL sdp)"
  using rewriteToAnchor_lines [OF assms] by (simp add: anchored_lines_def)


text \<open>With a connection line of the session and another one of the audio section, the
  rewrite replaces only the first: the rewritten SDP still directs the media to the host the
  peer had named, at the anchor's port.\<close>

theorem media_level_address_survives:
  assumes "sdp_lines sdp = xs @ x # ys @ (sdpConnIP4 @ h) # zs"
    and "\<forall>l \<in> set xs. \<not> isAudio l" "\<exists>l \<in> set xs. isConn l" "isAudio x"
    and "\<forall>l \<in> set ys. \<not> hasPrefix l ''m=''" "\<forall>l \<in> set zs. plain_line l"
    and "rewriteToAnchor sdp host p = Inr out" "line_ok host" "int64_ok p" "ParseIP h = Some ip"
  shows "parseMedia out = Inr (h, p)"
  using assms by (rule survives_aux)

text \<open>A media port range is accepted exactly when both bounds are numbers, the lower one is
  positive and even and below the upper one; the text of such a range parses back to it.\<close>

theorem port_range_roundtrip:
  assumes "int64_ok mn" "int64_ok mx" "0 \<le> mn"
  shows "parsePortRange (itoa mn @ ''-'' @ itoa mx) = Inr (mn, mx)
         \<longleftrightarrow> 0 < mn \<and> even mn \<and> mn < mx"
proof -
  have "CHR ''-'' \<notin> set (itoa mn)"
    using assms(3) showNat_digits [of "CHR ''-''" "nat mn"] by (auto simp: itoa_def is_digit_def)
  then have "splitN2 CHR ''-'' (itoa mn @ ''-'' @ itoa mx) = [itoa mn, itoa mx]"
    by (auto simp: splitN2_def takeWhile_append dropWhile_append takeWhile_eq_all_conv)
  then show ?thesis
    using assms by (auto simp: parsePortRange_def even_iff_mod_2_eq_zero)
qed

section \<open>The properties at concrete bodies\<close>

text \<open>The payload of a result that is one.\<close>

definition the_ok :: "'e + string \<Rightarrow> string" where
  "the_ok r = (case r of Inr x \<Rightarrow> x | Inl _ \<Rightarrow> [])"

lemma the_ok_eq: "isl r = False \<Longrightarrow> r = Inr (the_ok r)"
  by (cases r) (auto simp: the_ok_def)

definition sampleOffer :: string where
  "sampleOffer = crlf_lines [''v=0'', ''o=alice 1 1 IN IP4 192.0.2.7'', ''s=-'', ''c=IN IP4 192.0.2.7'',
     ''t=0 0'', ''m=audio 40000 RTP/AVP 0 101'', ''a=rtpmap:0 PCMU/8000'', ''a=rtpmap:101 telephone-event/8000'',
     ''a=fmtp:101 0-15'']"

definition sampleHost :: string where "sampleHost = ''10.0.0.5''"

lemma sample_facts:
  "line_ok sampleHost" "ParseIP sampleHost = Some (v4in6 [10, 0, 0, 5])" "int64_ok 20000" "int64_ok 20002"
  by code_simp+

lemma sample_tap: "buildTapOffer sampleOffer sampleHost 20000 20002
    = Inr (the_ok (buildTapOffer sampleOffer sampleHost 20000 20002))"
  by (rule the_ok_eq) code_simp


lemma tap_offer_roundtrip_witness:
  "parseTapAnswer (the_ok (buildTapOffer sampleOffer sampleHost 20000 20002))
   = Inr (sampleHost, 20000, sampleHost, 20002)"
  by (rule tap_offer_roundtrip [OF sample_facts(1,3,4) sample_tap])

lemma plain_offer_is_plain_witness:
  "parseMedia (the_ok (buildPlainOfferFromWebRTC sampleOffer sampleHost 20000)) = Inr (sampleHost, 20000)
   \<and> \<not> offerIsWebRTC (the_ok (buildPlainOfferFromWebRTC sampleOffer sampleHost 20000))"
  by (rule plain_offer_is_plain [OF sample_facts(2,3) _ the_ok_eq]) (simp, code_simp)

lemma sample_rewrite: "rewriteToAnchor sampleOffer sampleHost 20000
    = Inr (the_ok (rewriteToAnchor sampleOffer sampleHost 20000))"
  by (rule the_ok_eq) code_simp

lemma rewrite_line_by_line_witness:
  "sdp_lines (the_ok (rewriteToAnchor sampleOffer sampleHost 20000))
     = replace_first isConn (\<lambda>_. sdpConnIP4 @ sampleHost)
         (replace_first isAudio (setAudioPort 20000) (sdp_lines sampleOffer))"
  using rewrite_line_by_line [OF sample_rewrite sample_facts(1)] by (rule conjunct1)


definition sampleTwoConn :: string where
  "sampleTwoConn = crlf_lines [''v=0'', ''c=IN IP4 192.0.2.7'', ''m=audio 40000 RTP/AVP 0'',
     ''c=IN IP4 192.0.2.9'', ''a=sendrecv'']"

lemma sample_two_lines: "sdp_lines sampleTwoConn =
    [''v=0'', ''c=IN IP4 192.0.2.7''] @ ''m=audio 40000 RTP/AVP 0'' # [] @ (sdpConnIP4 @ ''192.0.2.9'')
      # [''a=sendrecv'', []]"
  by code_simp

lemma media_level_address_survives_witness:
  "parseMedia (the_ok (rewriteToAnchor sampleTwoConn sampleHost 20000)) = Inr (''192.0.2.9'', 20000)"
  by (rule media_level_address_survives [OF sample_two_lines _ _ _ _ _ the_ok_eq sample_facts(1,3),
        of "v4in6 [192, 0, 2, 9]"]) code_simp+

lemma port_range_roundtrip_witness:
  "parsePortRange (itoa 20000 @ ''-'' @ itoa 20100) = Inr (20000, 20100)"
  by (subst port_range_roundtrip) (simp_all add: int64_ok_def)

end
