(* ===== verification/Media.thy ===== *)
theory Media
  imports Sdp
begin

text \<open>
  Media anchoring, internal/b2bua/media.go and mediasec.go, and the secured leg of webrtc.go:
  the port allocator, the sockets of an anchored side, taps, the media session with its
  closing, the idle clock and the copy loops of the relay. Sockets and WebRTC endpoints are
  handles of a table of open handles; what the operating system or the WebRTC library answers
  to an opening is an argument.
\<close>

section \<open>Port allocator\<close>

record PortPair =
  RTP :: int
  RTCP :: int

record PortAllocator =
  minPort :: int
  maxPort :: int
  freePairs :: "PortPair list"
  nextPort :: int

definition newPortAllocator :: "int \<Rightarrow> int \<Rightarrow> PortAllocator" where
  "newPortAllocator mn mx = \<lparr>minPort = mn, maxPort = mx, freePairs = [], nextPort = mn\<rparr>"

definition Acquire :: "PortAllocator \<Rightarrow> PortPair option \<times> PortAllocator" where
  "Acquire p =
     (if freePairs p \<noteq> [] then
        (Some (last (freePairs p)), p\<lparr>freePairs := butlast (freePairs p)\<rparr>)
      else if nextPort p + 1 > maxPort p then (None, p)
      else (Some \<lparr>RTP = nextPort p, RTCP = nextPort p + 1\<rparr>, p\<lparr>nextPort := nextPort p + 2\<rparr>))"

definition Release :: "PortPair \<Rightarrow> PortAllocator \<Rightarrow> PortAllocator" where
  "Release pair p = p\<lparr>freePairs := freePairs p @ [pair]\<rparr>"

text \<open>Every pair the allocator ever made, and those that are in somebody's hands.\<close>

definition pairAt :: "int \<Rightarrow> PortPair" where
  "pairAt n = \<lparr>RTP = n, RTCP = n + 1\<rparr>"

definition minted :: "PortAllocator \<Rightarrow> PortPair list" where
  "minted p = map (\<lambda>i. pairAt (minPort p + 2 * int i)) [0..<nat ((nextPort p - minPort p) div 2)]"

definition outstanding :: "PortAllocator \<Rightarrow> PortPair multiset" where
  "outstanding p = mset (minted p) - mset (freePairs p)"

definition ports_inv :: "PortAllocator \<Rightarrow> bool" where
  "ports_inv p = (minPort p \<le> nextPort p \<and> even (nextPort p - minPort p)
     \<and> (nextPort p \<le> maxPort p + 1 \<or> nextPort p = minPort p) \<and> mset (freePairs p) \<subseteq># mset (minted p))"

lemma distinct_minted: "distinct (minted p)"
  by (auto simp: minted_def distinct_map inj_on_def pairAt_def)

lemma minted_range:
  assumes "ports_inv p" "q \<in> set (minted p)"
  shows "minPort p \<le> RTP q" "RTCP q \<le> maxPort p" "RTCP q = RTP q + 1" "even (RTP q - minPort p)"
proof -
  obtain i where i: "i < nat ((nextPort p - minPort p) div 2)" "q = pairAt (minPort p + 2 * int i)"
    using assms(2) by (auto simp: minted_def)
  from i(1) have "2 * int i + 2 \<le> nextPort p - minPort p" by linarith
  then show "minPort p \<le> RTP q" "RTCP q \<le> maxPort p" "RTCP q = RTP q + 1" "even (RTP q - minPort p)"
    using i(2) assms(1) by (auto simp: pairAt_def ports_inv_def)
qed

lemma minted_next:
  assumes "minPort p \<le> nextPort p" "even (nextPort p - minPort p)"
  shows "minted (p\<lparr>nextPort := nextPort p + 2\<rparr>) = minted p @ [pairAt (nextPort p)]"
proof -
  define k where "k = (nextPort p - minPort p) div 2"
  have k: "nextPort p - minPort p = 2 * k" "0 \<le> k" using assms by (simp_all add: k_def)
  then have np: "nextPort p = minPort p + 2 * k" by simp
  have "nat ((nextPort p + 2 - minPort p) div 2) = Suc (nat k)" using k by (simp add: np)
  moreover have "nat ((nextPort p - minPort p) div 2) = nat k" by (simp add: np)
  ultimately show ?thesis using k by (simp add: minted_def np)
qed

lemma ports_inv_new: "ports_inv (newPortAllocator mn mx)" "outstanding (newPortAllocator mn mx) = {#}"
  by (simp_all add: ports_inv_def newPortAllocator_def minted_def outstanding_def)

lemma add_mset_minus:
  "add_mset q B \<subseteq># A \<Longrightarrow> A - B = add_mset q (A - add_mset q B)"
proof (rule multiset_eqI)
  fix x
  assume "add_mset q B \<subseteq># A"
  then have "count (add_mset q B) x \<le> count A x" by (rule mset_subset_eq_count)
  then show "count (A - B) x = count (add_mset q (A - add_mset q B)) x" by (cases "x = q") auto
qed

lemma Acquire_some:
  assumes "ports_inv p" "Acquire p = (Some q, p')"
  shows "ports_inv p'" "outstanding p' = add_mset q (outstanding p)"
    and "minPort p' = minPort p" "maxPort p' = maxPort p"
proof -
  have "ports_inv p' \<and> outstanding p' = add_mset q (outstanding p) \<and> minPort p' = minPort p \<and> maxPort p' = maxPort p"
  proof (cases "freePairs p = []")
    case False
    then have q: "q = last (freePairs p)" and p': "p' = p\<lparr>freePairs := butlast (freePairs p)\<rparr>"
      using assms(2) by (auto simp: Acquire_def)
    have "freePairs p = butlast (freePairs p) @ [q]" using False q by simp
    then have f: "mset (freePairs p) = add_mset q (mset (butlast (freePairs p)))"
      by (metis add_mset_add_single mset.simps(1,2) mset_append)
    have m: "minted p' = minted p" by (simp add: p' minted_def)
    have sub: "mset (freePairs p) \<subseteq># mset (minted p)" using assms(1) by (simp add: ports_inv_def)
    have "mset (minted p) - mset (butlast (freePairs p)) = add_mset q (mset (minted p) - mset (freePairs p))"
      using add_mset_minus [OF sub [unfolded f]] by (simp add: f)
    moreover have "mset (butlast (freePairs p)) \<subseteq># mset (minted p)"
      using sub unfolding f by (rule mset_subset_eq_insertD [THEN conjunct2, THEN subset_mset.less_imp_le])
    ultimately show ?thesis using assms(1) m by (simp add: outstanding_def ports_inv_def p')
  next
    case True
    then have q: "q = pairAt (nextPort p)" and p': "p' = p\<lparr>nextPort := nextPort p + 2\<rparr>"
      and le: "nextPort p + 1 \<le> maxPort p"
      using assms(2) by (auto simp: Acquire_def pairAt_def split: if_splits)
    have "minted p' = minted p @ [q]"
      using minted_next assms(1) unfolding p' q ports_inv_def by blast
    then show ?thesis using assms(1) True le by (auto simp: outstanding_def ports_inv_def p')
  qed
  then show "ports_inv p'" "outstanding p' = add_mset q (outstanding p)"
    "minPort p' = minPort p" "maxPort p' = maxPort p" by blast+
qed

lemma Acquire_none: "Acquire p = (None, p') \<Longrightarrow> p' = p \<and> freePairs p = [] \<and> nextPort p + 1 > maxPort p"
  by (auto simp: Acquire_def split: if_splits)

lemma Release_ok:
  assumes "ports_inv p" "q \<in># outstanding p"
  shows "ports_inv (Release q p)" "outstanding (Release q p) = outstanding p - {#q#}"
proof -
  have m: "minted (Release q p) = minted p" by (simp add: Release_def minted_def)
  have s: "mset (freePairs p) \<subseteq># mset (minted p)" using assms(1) by (simp add: ports_inv_def)
  have "mset (freePairs p) + {#q#} \<subseteq># mset (minted p)"
    using assms(2) s unfolding outstanding_def
    by (metis mset_subset_eq_single subset_mset.add_le_cancel_left subset_mset.add_diff_inverse)
  then show "ports_inv (Release q p)"
    using assms(1) m by (simp add: ports_inv_def Release_def)
  show "outstanding (Release q p) = outstanding p - {#q#}"
    by (simp add: outstanding_def m) (simp add: Release_def)
qed

lemma outstanding_distinct: "ports_inv p \<Longrightarrow> count (outstanding p) q \<le> 1"
  using distinct_minted [of p] by (auto simp: outstanding_def distinct_count_atmost_1)

lemma outstanding_minted: "q \<in># outstanding p \<Longrightarrow> q \<in> set (minted p)"
  unfolding outstanding_def by (metis in_diffD set_mset_mset)

subsection \<open>The interface of the pool\<close>

text \<open>
  What the call set-up relies on: an acquired pair was in nobody's hands, a released one is in
  nobody's hands afterwards, and nothing else changes hands.
\<close>

locale port_pool =
  fixes acquire :: "'p \<Rightarrow> 'q option \<times> 'p"
    and release :: "'q \<Rightarrow> 'p \<Rightarrow> 'p"
    and held :: "'p \<Rightarrow> 'q multiset"
    and inv :: "'p \<Rightarrow> bool"
  assumes acquire_inv: "\<lbrakk>inv p; acquire p = (Some q, p')\<rbrakk> \<Longrightarrow> inv p' \<and> held p' = add_mset q (held p)"
    and acquire_none: "acquire p = (None, p') \<Longrightarrow> p' = p"
    and release_inv: "\<lbrakk>inv p; q \<in># held p\<rbrakk> \<Longrightarrow> inv (release q p) \<and> held (release q p) = held p - {#q#}"
    and held_once: "inv p \<Longrightarrow> count (held p) q \<le> 1"
begin

lemma acquired_fresh:
  assumes "inv p" "acquire p = (Some q, p')"
  shows "q \<notin># held p"
proof
  assume "q \<in># held p"
  then have "2 \<le> count (held p') q" using acquire_inv [OF assms] by (simp add: Suc_le_eq)
  with held_once [of p' q] acquire_inv [OF assms] show False by simp
qed

lemma acquire_release:
  assumes "inv p" "acquire p = (Some q, p')"
  shows "inv (release q p') \<and> held (release q p') = held p"
  using acquire_inv [OF assms] release_inv [of p' q] by simp

lemma release_all:
  assumes "inv p" "mset qs \<subseteq># held p"
  shows "inv (fold release qs p) \<and> held (fold release qs p) = held p - mset qs"
  using assms
proof (induction qs arbitrary: p)
  case (Cons q qs)
  have "q \<in># held p" using Cons.prems(2) by (auto dest: mset_subset_eqD)
  then have 1: "inv (release q p)" "held (release q p) = held p - {#q#}"
    using release_inv Cons.prems(1) by auto
  have "mset qs \<subseteq># held (release q p)"
    unfolding 1 using Cons.prems(2) by (simp add: insert_subset_eq_iff)
  from Cons.IH [OF 1(1) this] show ?case by (simp add: 1)
qed simp

end

interpretation pool: port_pool Acquire Release outstanding ports_inv
proof
  fix p p' :: PortAllocator and q
  show "ports_inv p' \<and> outstanding p' = add_mset q (outstanding p)"
    if "ports_inv p" "Acquire p = (Some q, p')" using Acquire_some [OF that] by blast
  show "p' = p" if "Acquire p = (None, p')" using Acquire_none [OF that] by blast
  show "ports_inv (Release q p) \<and> outstanding (Release q p) = outstanding p - {#q#}"
    if "ports_inv p" "q \<in># outstanding p" using Release_ok [OF that] by blast
  show "count (outstanding p) q \<le> 1" if "ports_inv p" by (rule outstanding_distinct [OF that])
qed


section \<open>Handles\<close>

record Handles =
  openH :: "nat list"
  nextH :: nat

definition openHandle :: "Handles \<Rightarrow> nat \<times> Handles" where
  "openHandle t = (nextH t, t\<lparr>openH := nextH t # openH t, nextH := nextH t + 1\<rparr>)"

definition closeHandle :: "nat \<Rightarrow> Handles \<Rightarrow> Handles" where
  "closeHandle h t = t\<lparr>openH := removeAll h (openH t)\<rparr>"

definition handles_inv :: "Handles \<Rightarrow> bool" where
  "handles_inv t = (\<forall>h \<in> set (openH t). h < nextH t)"

section \<open>Anchored sides\<close>

record UDPAddr =
  addrIP :: "byte list"
  addrPort :: int

record AnchorSide =
  rtpConn :: nat
  rtcpConn :: nat
  remoteRTP :: "UDPAddr option"
  remoteRTCP :: "UDPAddr option"
  localRTPPort :: int
  pair :: PortPair

definition setRemote :: "UDPAddr option \<Rightarrow> UDPAddr option \<Rightarrow> AnchorSide \<Rightarrow> AnchorSide" where
  "setRemote rtp rtcp s = s\<lparr>remoteRTP := rtp, remoteRTCP := rtcp\<rparr>"

text \<open>The callers pass literals that parse; for any other host the code stores an address
  whose IP is nil, here the empty list.\<close>

definition udpAddrPair :: "string \<Rightarrow> int \<Rightarrow> UDPAddr \<times> UDPAddr" where
  "udpAddrPair host rtpPort =
     (let ip = (case ParseIP host of Some b \<Rightarrow> b | None \<Rightarrow> []) in
      (\<lparr>addrIP = ip, addrPort = rtpPort\<rparr>, \<lparr>addrIP = ip, addrPort = rtpPort + 1\<rparr>))"

text \<open>What the operating system answers to resolving and binding one address.\<close>

datatype BindResult = Bound | ResolveFailed | ListenFailed

datatype anchor_error = ResolveRTP | BindRTP | ResolveRTCP | BindRTCP

definition bindAddr :: "string \<Rightarrow> int \<Rightarrow> string" where
  "bindAddr mediaHost port = mediaHost @ '':'' @ itoa port"

definition newAnchorSide ::
  "(string \<Rightarrow> BindResult) \<Rightarrow> string \<Rightarrow> PortPair \<Rightarrow> Handles \<Rightarrow> (anchor_error + AnchorSide) \<times> Handles" where
  "newAnchorSide os mediaHost p t =
     (case os (bindAddr mediaHost (RTP p)) of
        ResolveFailed \<Rightarrow> (Inl ResolveRTP, t)
      | ListenFailed \<Rightarrow> (Inl BindRTP, t)
      | Bound \<Rightarrow>
          (let (rtpH, t1) = openHandle t in
           (case os (bindAddr mediaHost (RTCP p)) of
              ResolveFailed \<Rightarrow> (Inl ResolveRTCP, closeHandle rtpH t1)
            | ListenFailed \<Rightarrow> (Inl BindRTCP, closeHandle rtpH t1)
            | Bound \<Rightarrow>
                (let (rtcpH, t2) = openHandle t1 in
                 (Inr \<lparr>rtpConn = rtpH, rtcpConn = rtcpH, remoteRTP = None, remoteRTCP = None,
                        localRTPPort = RTP p, pair = p\<rparr>, t2)))))"

definition closeSide :: "AnchorSide \<Rightarrow> Handles \<Rightarrow> Handles" where
  "closeSide s t = closeHandle (rtcpConn s) (closeHandle (rtpConn s) t)"

text \<open>MediaSecurity and its name.\<close>

datatype MediaSecurity = SecurityPlainRTP | SecurityDTLSSRTP | OtherSecurity int

definition securityString :: "MediaSecurity \<Rightarrow> string" where
  "securityString s = (case s of SecurityPlainRTP \<Rightarrow> ''plain-rtp''
                       | SecurityDTLSSRTP \<Rightarrow> ''dtls-srtp'' | OtherSecurity _ \<Rightarrow> ''unknown'')"

section \<open>Secured legs\<close>

record SecuredLeg =
  endpoint :: nat
  answerSDP :: string

text \<open>What the WebRTC library does with an offer: no endpoint, an endpoint that refuses to
  answer, or an answer.\<close>

datatype WebRTCResult = NoEndpoint | AnswerFailed | Answer string

definition newSecuredLeg ::
  "(string \<Rightarrow> string \<Rightarrow> WebRTCResult) \<Rightarrow> string \<Rightarrow> string \<Rightarrow> Handles \<Rightarrow> SecuredLeg option \<times> Handles" where
  "newSecuredLeg factory publicAddr offer t =
     (case factory publicAddr offer of
        NoEndpoint \<Rightarrow> (None, t)
      | AnswerFailed \<Rightarrow> (let (ep, t1) = openHandle t in (None, closeHandle ep t1))
      | Answer sdp \<Rightarrow> (let (ep, t1) = openHandle t in (Some \<lparr>endpoint = ep, answerSDP = sdp\<rparr>, t1)))"

datatype MediaLeg = PlainLeg AnchorSide | WebRTCLeg SecuredLeg

definition Security :: "MediaLeg \<Rightarrow> MediaSecurity" where
  "Security l = (case l of PlainLeg _ \<Rightarrow> SecurityPlainRTP | WebRTCLeg _ \<Rightarrow> SecurityDTLSSRTP)"

section \<open>Taps and the media session\<close>

record Tap =
  tapApp :: string
  callerStream :: AnchorSide
  calleeStream :: AnchorSide
  callerPair :: PortPair
  calleePair :: PortPair

definition closeTap :: "Tap \<Rightarrow> Handles \<Rightarrow> Handles" where
  "closeTap t h = closeSide (calleeStream t) (closeSide (callerStream t) h)"

record MediaSession =
  endpointSide :: "AnchorSide option"
  pbxSide :: "AnchorSide option"
  endpointLeg :: "SecuredLeg option"
  taps :: "Tap list"
  closed :: bool
  lastActivity :: int

definition newMediaSession :: "AnchorSide option \<Rightarrow> AnchorSide option \<Rightarrow> SecuredLeg option \<Rightarrow> MediaSession" where
  "newMediaSession ep pbx leg = \<lparr>endpointSide = ep, pbxSide = pbx, endpointLeg = leg, taps = [],
     closed = False, lastActivity = 0\<rparr>"

definition addTap :: "Tap \<Rightarrow> MediaSession \<Rightarrow> MediaSession" where
  "addTap t m = m\<lparr>taps := taps m @ [t]\<rparr>"

definition markActivity :: "int \<Rightarrow> MediaSession \<Rightarrow> MediaSession" where
  "markActivity now m = m\<lparr>lastActivity := now\<rparr>"

definition idleFor :: "int \<Rightarrow> MediaSession \<Rightarrow> int" where
  "idleFor now m = (if lastActivity m = 0 then 0 else now - lastActivity m)"

definition closeSession :: "MediaSession \<Rightarrow> Handles \<Rightarrow> MediaSession \<times> Handles" where
  "closeSession m t =
     (if closed m then (m, t)
      else
        (let t1 = (case endpointSide m of Some s \<Rightarrow> closeSide s t | None \<Rightarrow> t);
             t2 = (case pbxSide m of Some s \<Rightarrow> closeSide s t1 | None \<Rightarrow> t1);
             t3 = (case endpointLeg m of Some l \<Rightarrow> closeHandle (endpoint l) t2 | None \<Rightarrow> t2)
         in (m\<lparr>closed := True\<rparr>, fold closeTap (taps m) t3)))"

section \<open>Relay\<close>

definition rtpBufSize :: nat where "rtpBufSize = 1500"

text \<open>A packet on its way: a datagram from a socket to an address, or a packet handed to a
  WebRTC endpoint.\<close>

datatype Sent = Datagram nat UDPAddr "byte list" | ToEndpoint nat "byte list"

text \<open>WriteRTP and WriteRTCP: what is sent, and whether an error is returned.
  \<open>io\<close> is the answer of the socket or of the endpoint.\<close>

definition WriteRTP :: "MediaLeg \<Rightarrow> byte list \<Rightarrow> bool \<Rightarrow> Sent list \<times> bool" where
  "WriteRTP l pkt io = (case l of
       PlainLeg s \<Rightarrow> (case remoteRTP s of
           None \<Rightarrow> ([], True)
         | Some dst \<Rightarrow> if io then ([Datagram (rtpConn s) dst pkt], True) else ([], False))
     | WebRTCLeg w \<Rightarrow> if io then ([ToEndpoint (endpoint w) pkt], True) else ([], False))"

definition WriteRTCP :: "MediaLeg \<Rightarrow> byte list \<Rightarrow> bool \<Rightarrow> Sent list \<times> bool" where
  "WriteRTCP l pkt io = (case l of
       PlainLeg s \<Rightarrow> (case remoteRTCP s of
           None \<Rightarrow> ([], True)
         | Some dst \<Rightarrow> if io then ([Datagram (rtcpConn s) dst pkt], True) else ([], False))
     | WebRTCLeg w \<Rightarrow> if io then ([ToEndpoint (endpoint w) pkt], True) else ([], False))"

text \<open>
  One turn of a copy loop: what the read returned (None an error, otherwise the packet on the
  wire), the destination and the taps as they are at that moment, and the answers to the writes.
\<close>

record Turn =
  wireRead :: "byte list option"
  dstLeg :: MediaLeg
  dstIO :: bool
  tapSides :: "(AnchorSide option \<times> bool) list"

definition tapWrites :: "byte list \<Rightarrow> (AnchorSide option \<times> bool) list \<Rightarrow> Sent list" where
  "tapWrites pkt sides = concat (map (\<lambda>(side, io). case side of
       None \<Rightarrow> []
     | Some s \<Rightarrow> (case remoteRTP s of
         None \<Rightarrow> []
       | Some dst \<Rightarrow> if io then [Datagram (rtpConn s) dst pkt] else [])) sides)"

text \<open>
  A read fills a buffer of \<open>rtpBufSize\<close> bytes; what does not fit is dropped. The result lists,
  per packet read, what went to the destination and to the taps; each entry is one markActivity.
\<close>

fun copyLegRTP :: "Turn list \<Rightarrow> (Sent list \<times> Sent list) list" where
  "copyLegRTP [] = []"
| "copyLegRTP (i # turns) = (case wireRead i of
       None \<Rightarrow> []
     | Some wire \<Rightarrow>
         (let pkt = take rtpBufSize wire; (sent, ok) = WriteRTP (dstLeg i) pkt (dstIO i)
          in if \<not> ok then [(sent, [])]
             else (sent, tapWrites pkt (tapSides i)) # copyLegRTP turns))"

fun copyLegRTCP :: "Turn list \<Rightarrow> Sent list list" where
  "copyLegRTCP [] = []"
| "copyLegRTCP (i # turns) = (case wireRead i of
       None \<Rightarrow> []
     | Some wire \<Rightarrow>
         (let (sent, ok) = WriteRTCP (dstLeg i) (take rtpBufSize wire) (dstIO i)
          in if \<not> ok then [sent] else sent # copyLegRTCP turns))"

text \<open>The sides a relay fans out to: the callers' streams in one direction, the callees' in the
  other.\<close>

definition callerTaps :: "MediaSession \<Rightarrow> AnchorSide list" where
  "callerTaps m = map callerStream (taps m)"

definition calleeTaps :: "MediaSession \<Rightarrow> AnchorSide list" where
  "calleeTaps m = map calleeStream (taps m)"

end
