(* ===== verification/MediaProps.thy ===== *)
theory MediaProps
  imports Media
begin

text \<open>
  Properties of media anchoring: the exclusive use of port pairs over any run of acquisitions
  and releases, exhaustion, binding and closing without leaking handles, and what a copy loop
  of the relay delivers.
\<close>

section \<open>Runs of the allocator\<close>

text \<open>Any interleaving of clients: a client acquires, or the holder of the i-th pair in hand
  gives it back.\<close>

datatype PortOp = OpAcquire | OpRelease nat

definition removeAt :: "nat \<Rightarrow> 'a list \<Rightarrow> 'a list" where
  "removeAt i xs = take i xs @ drop (Suc i) xs"

fun runPorts :: "PortOp list \<Rightarrow> PortAllocator \<times> PortPair list \<Rightarrow> PortAllocator \<times> PortPair list" where
  "runPorts [] s = s"
| "runPorts (OpAcquire # ops) (p, hs) =
     (case Acquire p of (None, p') \<Rightarrow> runPorts ops (p', hs) | (Some q, p') \<Rightarrow> runPorts ops (p', q # hs))"
| "runPorts (OpRelease i # ops) (p, hs) =
     (if i < length hs then runPorts ops (Release (hs ! i) p, removeAt i hs)
      else runPorts ops (p, hs))"

lemma mset_removeAt: "i < length xs \<Longrightarrow> mset (removeAt i xs) = mset xs - {#xs ! i#}"
proof -
  assume i: "i < length xs"
  then have "mset xs = mset (take i xs @ xs ! i # drop (Suc i) xs)" by (simp only: id_take_nth_drop [symmetric])
  then show ?thesis by (simp add: removeAt_def)
qed

lemma runPorts_inv:
  assumes "ports_inv p" "outstanding p = mset hs" "runPorts ops (p, hs) = (p', hs')"
  shows "ports_inv p' \<and> outstanding p' = mset hs' \<and> minPort p' = minPort p \<and> maxPort p' = maxPort p"
  using assms
proof (induction ops arbitrary: p hs)
  case (Cons op ops)
  show ?case
  proof (cases op)
    case OpAcquire
    obtain r p1 where a: "Acquire p = (r, p1)" by (cases "Acquire p")
    show ?thesis
    proof (cases r)
      case None
      with a Acquire_none have "p1 = p" by blast
      with Cons a None OpAcquire show ?thesis by simp
    next
      case (Some q)
      with a Cons.prems(1) Acquire_some [of p q p1]
      have "ports_inv p1" "outstanding p1 = mset (q # hs)" "minPort p1 = minPort p" "maxPort p1 = maxPort p"
        using Cons.prems(2) by auto
      with Cons.IH [of p1 "q # hs"] Cons.prems(3) a Some OpAcquire show ?thesis by simp
    qed
  next
    case (OpRelease i)
    show ?thesis
    proof (cases "i < length hs")
      case True
      then have "hs ! i \<in># outstanding p" using Cons.prems(2) by simp
      with Cons.prems(1,2) Release_ok have "ports_inv (Release (hs ! i) p)"
        "outstanding (Release (hs ! i) p) = mset (removeAt i hs)"
        by (simp_all add: mset_removeAt True)
      with Cons.IH Cons.prems(3) OpRelease True show ?thesis by (simp add: Release_def)
    next
      case False
      with Cons OpRelease show ?thesis by simp
    qed
  qed
qed simp

lemma pairs_apart:
  assumes "ports_inv p" "mset hs = outstanding p"
  shows "distinct hs \<and> (\<forall>q \<in> set hs. minPort p \<le> RTP q \<and> RTCP q \<le> maxPort p \<and> RTCP q = RTP q + 1
           \<and> even (RTP q - minPort p))"
proof -
  have "count (mset hs) q = (if q \<in> set hs then 1 else 0)" for q
    using outstanding_distinct [OF assms(1), of q] count_greater_eq_one_iff [of "mset hs" q]
    unfolding assms(2) [symmetric] by (auto simp: not_in_iff intro: le_antisym)
  then have "distinct hs" by (simp add: distinct_count_atmost_1)
  moreover have "q \<in> set (minted p)" if "q \<in> set hs" for q
    using that outstanding_minted assms(2) by (metis set_mset_mset)
  ultimately show ?thesis using minted_range [OF assms(1)] by blast
qed

lemma size_minted: "length (minted p) = nat ((nextPort p - minPort p) div 2)"
  by (simp add: minted_def)

lemma exhausted_iff:
  assumes "ports_inv p"
  shows "fst (Acquire p) = None \<longleftrightarrow> int (size (outstanding p)) = max 0 ((maxPort p + 1 - minPort p) div 2)"
proof -
  define k where "k = (nextPort p - minPort p) div 2"
  have k: "nextPort p = minPort p + 2 * k" "0 \<le> k" "k = 0 \<or> minPort p + 2 * k \<le> maxPort p + 1"
    using assms by (auto simp: ports_inv_def k_def)
  have sub: "mset (freePairs p) \<subseteq># mset (minted p)" using assms by (simp add: ports_inv_def)
  have sz: "size (outstanding p) = nat k - length (freePairs p)" "length (freePairs p) \<le> nat k"
    using size_Diff_submset [OF sub] size_mset_mono [OF sub] by (simp_all add: outstanding_def size_minted k_def)
  show ?thesis
  proof (cases "freePairs p = []")
    case True
    have "fst (Acquire p) = None \<longleftrightarrow> minPort p + 2 * k + 1 > maxPort p"
      using True k(1) by (simp add: Acquire_def)
    also have "\<dots> \<longleftrightarrow> k = max 0 ((maxPort p + 1 - minPort p) div 2)" using k(2,3) by linarith
    finally show ?thesis using sz(1) True k(2) by simp
  next
    case False
    then have "int (size (outstanding p)) < k" using sz k(2) by (cases "freePairs p") auto
    moreover have "k \<le> max 0 ((maxPort p + 1 - minPort p) div 2)" using k(3) by linarith
    ultimately show ?thesis using False by (simp add: Acquire_def)
  qed
qed

section \<open>Handles\<close>

lemma open_closeHandle [simp]: "set (openH (closeHandle h t)) = set (openH t) - {h}"
  by (simp add: closeHandle_def)

lemma next_closeHandle [simp]: "nextH (closeHandle h t) = nextH t"
  by (simp add: closeHandle_def)

definition sideHandles :: "AnchorSide \<Rightarrow> nat set" where
  "sideHandles s = {rtpConn s, rtcpConn s}"

definition tapHandles :: "Tap \<Rightarrow> nat set" where
  "tapHandles t = sideHandles (callerStream t) \<union> sideHandles (calleeStream t)"

definition sessionHandles :: "MediaSession \<Rightarrow> nat set" where
  "sessionHandles m = (case endpointSide m of Some s \<Rightarrow> sideHandles s | None \<Rightarrow> {})
     \<union> (case pbxSide m of Some s \<Rightarrow> sideHandles s | None \<Rightarrow> {})
     \<union> (case endpointLeg m of Some l \<Rightarrow> {endpoint l} | None \<Rightarrow> {})
     \<union> \<Union> (tapHandles ` set (taps m))"

lemma open_closeSide [simp]: "set (openH (closeSide s t)) = set (openH t) - sideHandles s"
  by (auto simp: closeSide_def sideHandles_def)

lemma open_closeTap: "set (openH (closeTap x t)) = set (openH t) - tapHandles x"
  by (auto simp: closeTap_def tapHandles_def)

lemma open_closeTaps: "set (openH (fold closeTap xs t)) = set (openH t) - \<Union> (tapHandles ` set xs)"
  by (induction xs arbitrary: t) (auto simp: open_closeTap)

lemma closeSession_open:
  "\<not> closed m \<Longrightarrow> set (openH (snd (closeSession m t))) = set (openH t) - sessionHandles m"
  by (auto simp: closeSession_def sessionHandles_def Let_def open_closeTaps split: option.splits)

lemma newAnchorSide_handles:
  assumes "handles_inv t" "newAnchorSide os host p t = (r, t')"
  shows "handles_inv t' \<and> (case r of
           Inl _ \<Rightarrow> set (openH t') = set (openH t)
         | Inr s \<Rightarrow> set (openH t') = set (openH t) \<union> sideHandles s \<and> sideHandles s \<inter> set (openH t) = {}
                    \<and> rtpConn s \<noteq> rtcpConn s \<and> pair s = p \<and> localRTPPort s = RTP p \<and> remoteRTP s = None)"
  using assms
proof -
  have "\<forall>h \<in> set (openH t). h < Suc (nextH t) \<and> h < Suc (Suc (nextH t))"
    "nextH t \<notin> set (openH t)" "Suc (nextH t) \<notin> set (openH t)"
    using assms(1) by (fastforce simp: handles_inv_def)+
  with assms show ?thesis
    by (auto simp: newAnchorSide_def openHandle_def handles_inv_def sideHandles_def closeHandle_def
        split: BindResult.splits)
qed

section \<open>Relay\<close>

text \<open>A turn that goes through: a packet is read and the destination takes it.\<close>

definition goesThrough :: "Turn \<Rightarrow> bool" where
  "goesThrough i = (case wireRead i of None \<Rightarrow> False
     | Some wire \<Rightarrow> snd (WriteRTP (dstLeg i) (take rtpBufSize wire) (dstIO i)))"

definition packetOf :: "Turn \<Rightarrow> byte list" where
  "packetOf i = (case wireRead i of None \<Rightarrow> [] | Some wire \<Rightarrow> take rtpBufSize wire)"

definition toDestination :: "Turn \<Rightarrow> Sent list" where
  "toDestination i = (case dstLeg i of
       PlainLeg s \<Rightarrow> (case remoteRTP s of None \<Rightarrow> [] | Some dst \<Rightarrow> [Datagram (rtpConn s) dst (packetOf i)])
     | WebRTCLeg w \<Rightarrow> [ToEndpoint (endpoint w) (packetOf i)])"

lemma WriteRTP_ok: "snd (WriteRTP l pkt io) \<Longrightarrow> fst (WriteRTP l pkt io) =
    (case l of PlainLeg s \<Rightarrow> (case remoteRTP s of None \<Rightarrow> [] | Some dst \<Rightarrow> [Datagram (rtpConn s) dst pkt])
     | WebRTCLeg w \<Rightarrow> [ToEndpoint (endpoint w) pkt])"
  by (auto simp: WriteRTP_def split: MediaLeg.splits option.splits if_splits)

lemma WriteRTP_failed: "\<not> snd (WriteRTP l pkt io) \<Longrightarrow> fst (WriteRTP l pkt io) = []"
  by (auto simp: WriteRTP_def split: MediaLeg.splits option.splits if_splits)

lemma copyLegRTP_delivers:
  "concat (map fst (copyLegRTP turns)) = concat (map toDestination (takeWhile goesThrough turns))
   \<and> concat (map snd (copyLegRTP turns))
     = concat (map (\<lambda>i. tapWrites (packetOf i) (tapSides i)) (takeWhile goesThrough turns))"
proof (induction turns)
  case (Cons i turns)
  show ?case
  proof (cases "wireRead i")
    case None
    then show ?thesis by (simp add: goesThrough_def)
  next
    case (Some wire)
    obtain sent ok where w: "WriteRTP (dstLeg i) (take rtpBufSize wire) (dstIO i) = (sent, ok)" by force
    with WriteRTP_ok [of "dstLeg i" "take rtpBufSize wire" "dstIO i"]
      WriteRTP_failed [of "dstLeg i" "take rtpBufSize wire" "dstIO i"]
    moreover have "packetOf i = take rtpBufSize wire" by (simp add: packetOf_def Some)
    ultimately have "sent = (if ok then toDestination i else [])"
      unfolding toDestination_def by (auto split: MediaLeg.split option.split)
    with Cons.IH w Some show ?thesis by (simp add: goesThrough_def packetOf_def Let_def)
  qed
qed simp


section \<open>Properties\<close>

text \<open>Port pairs are exclusive. After any interleaving of acquisitions and releases starting
  from a fresh allocator, the pairs in hand are pairwise distinct, lie in the configured range,
  have consecutive ports starting at the range's parity, and are exactly the pairs the
  allocator counts as outstanding.\<close>

theorem ports_exclusive:
  assumes "runPorts ops (newPortAllocator mn mx, []) = (p, hs)"
  shows "distinct hs \<and> mset hs = outstanding p
       \<and> (\<forall>q \<in> set hs. mn \<le> RTP q \<and> RTCP q \<le> mx \<and> RTCP q = RTP q + 1 \<and> even (RTP q - mn))"
proof -
  have "ports_inv p \<and> outstanding p = mset hs \<and> minPort p = mn \<and> maxPort p = mx"
    using runPorts_inv [OF ports_inv_new(1) _ assms] ports_inv_new(2)
    by (simp add: newPortAllocator_def)
  then show ?thesis using pairs_apart [of p hs] by auto
qed

lemma ports_exclusive_witness:
  "distinct [pairAt 102, pairAt 100]"
proof -
  have "runPorts [OpAcquire, OpAcquire, OpRelease 0, OpAcquire] (newPortAllocator 100 105, [])
      = (\<lparr>minPort = 100, maxPort = 105, freePairs = [], nextPort = 104\<rparr>, [pairAt 102, pairAt 100])"
    by code_simp
  from ports_exclusive [OF this] show ?thesis by blast
qed

text \<open>The allocator refuses exactly when every pair of the range is in use: an acquisition
  fails if and only if the number of outstanding pairs is that of the whole pairs in the
  range.\<close>

theorem ports_exhausted_iff_all_in_use:
  assumes "runPorts ops (newPortAllocator mn mx, []) = (p, hs)"
  shows "fst (Acquire p) = None \<longleftrightarrow> int (length hs) = max 0 ((mx + 1 - mn) div 2)"
proof -
  have "ports_inv p \<and> outstanding p = mset hs \<and> minPort p = mn \<and> maxPort p = mx"
    using runPorts_inv [OF ports_inv_new(1) _ assms] ports_inv_new(2)
    by (simp add: newPortAllocator_def)
  then show ?thesis using exhausted_iff [of p] by simp
qed

lemma ports_exhausted_iff_all_in_use_witness:
  "fst (Acquire \<lparr>minPort = 100, maxPort = 103, freePairs = [], nextPort = 104\<rparr>) = None
   \<longleftrightarrow> int (length [pairAt 102, pairAt 100]) = max 0 ((103 + 1 - 100) div 2)"
proof -
  have "runPorts [OpAcquire, OpAcquire] (newPortAllocator 100 103, [])
      = (\<lparr>minPort = 100, maxPort = 103, freePairs = [], nextPort = 104\<rparr>, [pairAt 102, pairAt 100])"
    by code_simp
  from ports_exhausted_iff_all_in_use [OF this] show ?thesis .
qed

text \<open>Binding an anchored side is all or nothing: on success the table has exactly the two
  new sockets besides the old ones, on any of the four failures exactly the old ones.\<close>

theorem anchor_side_all_or_nothing:
  assumes "handles_inv t"
  shows "case newAnchorSide os host p t of
           (Inl _, t') \<Rightarrow> set (openH t') = set (openH t)
         | (Inr s, t') \<Rightarrow> set (openH t') = set (openH t) \<union> {rtpConn s, rtcpConn s}
             \<and> {rtpConn s, rtcpConn s} \<inter> set (openH t) = {} \<and> rtpConn s \<noteq> rtcpConn s \<and> pair s = p"
  using newAnchorSide_handles [OF assms, of os host p]
  by (auto simp: sideHandles_def split: prod.splits sum.splits)

lemma anchor_side_all_or_nothing_witness:
  "case newAnchorSide (\<lambda>a. if a = ''10.0.0.5:101'' then ListenFailed else Bound) ''10.0.0.5'' (pairAt 100)
     \<lparr>openH = [3], nextH = 7\<rparr> of
     (Inl _, t') \<Rightarrow> set (openH t') = {3}
   | (Inr s, t') \<Rightarrow> False"
proof -
  let ?os = "\<lambda>a. if a = ''10.0.0.5:101'' then ListenFailed else Bound"
  have "handles_inv \<lparr>openH = [3], nextH = 7\<rparr>" by (simp add: handles_inv_def)
  note p = anchor_side_all_or_nothing [OF this, where os = ?os and host = "''10.0.0.5''" and p = "pairAt 100"]
  have "isl (fst (newAnchorSide ?os ''10.0.0.5'' (pairAt 100) \<lparr>openH = [3], nextH = 7\<rparr>))"
    by code_simp
  with p show ?thesis by (auto split: prod.splits sum.splits)
qed

text \<open>Closing a media session closes every socket of its two sides, its secured leg and its
  taps and no other, and closing it again does nothing.\<close>

theorem close_session_once:
  assumes "\<not> closed m" "closeSession m t = (m', t')"
  shows "set (openH t') = set (openH t) - sessionHandles m \<and> closeSession m' t'' = (m', t'')"
  using closeSession_open [OF assms(1), of t] assms by (auto simp: closeSession_def Let_def)

lemma close_session_once_witness:
  "let m = newMediaSession None None (Some \<lparr>endpoint = 4, answerSDP = []\<rparr>);
       (m', t') = closeSession m \<lparr>openH = [4, 9], nextH = 10\<rparr> in
   set (openH t') = {9} \<and> closeSession m' t' = (m', t')"
proof -
  let ?m = "newMediaSession None None (Some \<lparr>endpoint = 4, answerSDP = []\<rparr>)"
  let ?t = "\<lparr>openH = [4, 9], nextH = 10\<rparr>"
  obtain m' t' where e: "closeSession ?m ?t = (m', t')" by fastforce
  have o: "\<not> closed ?m" by (simp add: newMediaSession_def)
  have "sessionHandles ?m = {4}" by (simp add: sessionHandles_def newMediaSession_def)
  with close_session_once [OF o e, of t'] show ?thesis by (auto simp: e Let_def)
qed

text \<open>The relay delivers in order: what reaches the destination is exactly the packets
  read, cut at the buffer size and sent to the address that was current at their turn, up to
  the first read error or refused write; the taps get the same packets, and no failing, missing
  or unanswered tap changes what the destination gets.\<close>

theorem relay_delivers_in_order:
  "concat (map fst (copyLegRTP turns)) = concat (map toDestination (takeWhile goesThrough turns))
   \<and> concat (map snd (copyLegRTP turns))
     = concat (map (\<lambda>i. tapWrites (packetOf i) (tapSides i)) (takeWhile goesThrough turns))"
  by (rule copyLegRTP_delivers)

end
