(* ===== verification/PoolSpec.thy ===== *)
theory PoolSpec
  imports MediaProps
begin

text \<open>
  What the port allocator promises its clients, as an abstract pool, and the refinement: whatever the
  allocator of internal/b2bua/media.go answers in any run of its clients, the pool may answer too.
\<close>

section \<open>The pool\<close>

text \<open>The state of the pool is the set of pairs in use. It hands out any pair of the range that is not
  in use, and refuses only when all of them are.\<close>

definition rangePairs :: "int \<Rightarrow> int \<Rightarrow> PortPair set" where
  "rangePairs mn mx = (\<lambda>k. pairAt (mn + 2 * int k)) ` {k. mn + 2 * int k + 1 \<le> mx}"

datatype PortOut = Gave PortPair | Refused | TookBack PortPair | Ignored

inductive poolStep :: "PortPair set \<Rightarrow> PortPair set \<Rightarrow> PortOut \<Rightarrow> PortPair set \<Rightarrow> bool" for U where
  gave: "q \<in> U \<Longrightarrow> q \<notin> S \<Longrightarrow> poolStep U S (Gave q) (insert q S)"
| refused: "poolStep U U Refused U"
| tookBack: "q \<in> S \<Longrightarrow> poolStep U S (TookBack q) (S - {q})"
| ignored: "poolStep U S Ignored S"

inductive_simps poolStep_simps:
  "poolStep U S (Gave q) S'" "poolStep U S Refused S'" "poolStep U S (TookBack q) S'" "poolStep U S Ignored S'"

inductive poolRun :: "PortPair set \<Rightarrow> PortPair set \<Rightarrow> PortOut list \<Rightarrow> PortPair set \<Rightarrow> bool" for U where
  stop: "poolRun U S [] S"
| go: "poolStep U S out S' \<Longrightarrow> poolRun U S' outs S'' \<Longrightarrow> poolRun U S (out # outs) S''"

section \<open>The allocator's answers\<close>

fun portStep :: "PortOp \<Rightarrow> PortAllocator \<times> PortPair list \<Rightarrow> PortOut \<times> PortAllocator \<times> PortPair list" where
  "portStep OpAcquire (p, hs) = (case Acquire p of (None, p') \<Rightarrow> (Refused, p', hs) | (Some q, p') \<Rightarrow> (Gave q, p', q # hs))"
| "portStep (OpRelease i) (p, hs) =
     (if i < length hs then (TookBack (hs ! i), Release (hs ! i) p, removeAt i hs) else (Ignored, p, hs))"

fun portTrace :: "PortOp list \<Rightarrow> PortAllocator \<times> PortPair list \<Rightarrow> PortOut list \<times> PortAllocator \<times> PortPair list" where
  "portTrace [] s = ([], s)"
| "portTrace (op # ops) s = (let (out, s') = portStep op s; (outs, s'') = portTrace ops s' in (out # outs, s''))"

lemma portStep_run: "runPorts (op # ops) s = runPorts ops (snd (portStep op s))"
  by (cases s; cases op) (auto split: prod.splits option.splits)

lemma portTrace_run: "snd (portTrace ops s) = runPorts ops s"
proof (induction ops arbitrary: s)
  case (Cons op ops)
  show ?case using Cons.IH [of "snd (portStep op s)"]
    by (simp add: portStep_run split_beta Let_def del: runPorts.simps(2,3))
qed simp

section \<open>Refinement\<close>

lemma rangePairs_eq: "rangePairs mn mx = (\<lambda>k. pairAt (mn + 2 * int k)) ` {..<nat ((mx + 1 - mn) div 2)}"
proof -
  have "(mn + 2 * int k + 1 \<le> mx) = (k < nat ((mx + 1 - mn) div 2))" for k by linarith
  then show ?thesis by (simp add: rangePairs_def lessThan_def)
qed

lemma card_rangePairs: "card (rangePairs mn mx) = nat ((mx + 1 - mn) div 2)"
  unfolding rangePairs_eq by (subst card_image) (auto simp: inj_on_def pairAt_def)

lemma finite_rangePairs: "finite (rangePairs mn mx)"
  by (simp add: rangePairs_eq)

text \<open>The two states correspond: the pairs in hand are the outstanding ones.\<close>

definition corresponds :: "PortAllocator \<times> PortPair list \<Rightarrow> int \<Rightarrow> int \<Rightarrow> bool" where
  "corresponds s mn mx = (case s of (p, hs) \<Rightarrow>
     ports_inv p \<and> outstanding p = mset hs \<and> minPort p = mn \<and> maxPort p = mx)"

lemma corresponds_step: "corresponds s mn mx \<Longrightarrow> corresponds (snd (portStep op s)) mn mx"
  using runPorts_inv [of "fst s" "snd s" "[op]"]
  by (cases s) (auto simp: corresponds_def portStep_run simp del: runPorts.simps(2,3) split: prod.splits)

lemma corresponds_pairs:
  assumes "corresponds (p, hs) mn mx"
  shows "distinct hs" "set hs \<subseteq> rangePairs mn mx"
proof -
  have inv: "ports_inv p" "mset hs = outstanding p" "minPort p = mn" "maxPort p = mx"
    using assms by (simp_all add: corresponds_def)
  note apart = pairs_apart [OF inv(1,2)]
  show "distinct hs" using apart by blast
  show "set hs \<subseteq> rangePairs mn mx"
  proof
    fix q assume "q \<in> set hs"
    with apart inv have q: "mn \<le> RTP q" "RTCP q \<le> mx" "RTCP q = RTP q + 1" "even (RTP q - mn)" by auto
    then have "q = pairAt (mn + 2 * int (nat ((RTP q - mn) div 2)))" by (cases q) (auto simp: pairAt_def)
    moreover have "mn + 2 * int (nat ((RTP q - mn) div 2)) + 1 \<le> mx" using q by auto
    ultimately show "q \<in> rangePairs mn mx" unfolding rangePairs_def by blast
  qed
qed

lemma refused_full:
  assumes "corresponds (p, hs) mn mx" "fst (Acquire p) = None"
  shows "set hs = rangePairs mn mx"
proof -
  have inv: "ports_inv p" "mset hs = outstanding p" "minPort p = mn" "maxPort p = mx"
    using assms(1) by (simp_all add: corresponds_def)
  have "int (length hs) = max 0 ((mx + 1 - mn) div 2)"
    using exhausted_iff [OF inv(1)] assms(2) inv(2-4) by (metis size_mset)
  then have "card (set hs) = card (rangePairs mn mx)"
    using corresponds_pairs(1) [OF assms(1)] by (simp add: card_rangePairs distinct_card)
  then show ?thesis
    using corresponds_pairs(2) [OF assms(1)] finite_rangePairs by (simp add: card_subset_eq)
qed

lemma set_removeAt: "distinct hs \<Longrightarrow> i < length hs \<Longrightarrow> set (removeAt i hs) = set hs - {hs ! i}"
proof -
  assume d: "distinct hs" and i: "i < length hs"
  define xs ys where "xs = take i hs" and "ys = drop (Suc i) hs"
  have e: "hs = xs @ hs ! i # ys" using i by (simp add: xs_def ys_def id_take_nth_drop [symmetric])
  have "distinct (xs @ hs ! i # ys)" using d e by simp
  then have "set (xs @ ys) = set (xs @ hs ! i # ys) - {hs ! i}" by auto
  moreover have "removeAt i hs = xs @ ys" by (simp add: removeAt_def xs_def ys_def)
  ultimately show ?thesis using arg_cong [OF e, of set] by presburger
qed

lemma step_refines:
  assumes "corresponds (p, hs) mn mx" "portStep op (p, hs) = (out, p', hs')"
  shows "poolStep (rangePairs mn mx) (set hs) out (set hs')"
proof (cases op)
  case OpAcquire
  show ?thesis
  proof (cases "fst (Acquire p)")
    case None
    then have e: "out = Refused" "hs' = hs" using assms(2) by (auto simp: OpAcquire split: prod.splits)
    show ?thesis unfolding e refused_full [OF assms(1) None] by (rule poolStep.refused)
  next
    case (Some q)
    then have e: "out = Gave q" "hs' = q # hs" using assms(2) by (auto simp: OpAcquire split: prod.splits)
    have "corresponds (p', q # hs) mn mx" using corresponds_step [OF assms(1), of op] assms(2) e by simp
    from corresponds_pairs [OF this] show ?thesis unfolding e by (auto intro: poolStep.gave)
  qed
next
  case (OpRelease i)
  show ?thesis
  proof (cases "i < length hs")
    case True
    then have e: "out = TookBack (hs ! i)" "hs' = removeAt i hs" using assms(2) by (simp_all add: OpRelease)
    show ?thesis
      unfolding e set_removeAt [OF corresponds_pairs(1) [OF assms(1)] True] by (rule poolStep.tookBack) (simp add: True)
  next
    case False
    then show ?thesis using assms(2) by (auto simp: OpRelease intro: poolStep.ignored)
  qed
qed

lemma trace_refines:
  "corresponds s mn mx \<Longrightarrow> poolRun (rangePairs mn mx) (set (snd s)) (fst (portTrace ops s)) (set (snd (snd (portTrace ops s))))"
proof (induction ops arbitrary: s)
  case Nil
  show ?case by (simp add: poolRun.stop)
next
  case (Cons op ops)
  obtain p hs where s: "s = (p, hs)" by (cases s)
  obtain out p' hs' where st: "portStep op (p, hs) = (out, p', hs')" by (metis prod_cases3)
  have "corresponds (p', hs') mn mx" using corresponds_step [OF Cons.prems, of op] by (simp add: s st)
  from Cons.IH [OF this] step_refines [OF Cons.prems [unfolded s] st]
  show ?case by (auto simp: s st intro: poolRun.go split: prod.splits)
qed

text \<open>C21: The port allocator refines the pool: the answers of a fresh allocator over a range, in any run of
  acquisitions and releases, are answers of the pool of that range's pairs, and the pairs in hand at the
  end are the pool's pairs in use. So a pair is given out only while nobody has it, a refusal means that
  every pair of the range is in use, and a pair given back can be given out again.\<close>

theorem allocator_refines_pool:
  "case portTrace ops (newPortAllocator mn mx, []) of
     (outs, p, hs) \<Rightarrow> poolRun (rangePairs mn mx) {} outs (set hs)"
proof -
  have "corresponds (newPortAllocator mn mx, []) mn mx"
    by (simp add: corresponds_def ports_inv_new) (simp add: newPortAllocator_def)
  from trace_refines [OF this, of ops] show ?thesis by (simp add: split_beta)
qed

end
