(* ===== verification/WebRTC.thy ===== *)
theory WebRTC
  imports MediaProps
begin

text \<open>
  The WebRTC endpoint behind a secured leg, internal/b2bua/webrtc.go: its sockets, the gate its readers
  wait at, and its closing. The pion library's answers are the fields of \<open>PionLib\<close>; it calls the track
  handler from a goroutine of its own.
\<close>

section \<open>The library and the endpoint\<close>

text \<open>What the system and the library answer: the port of the socket, each step of building a peer
  connection (with the address to advertise, if any) and of answering an offer, whether gathering ends, and each read and write.\<close>

record PionLib =
  listenPort :: "int option"
  registerCodecsOk :: bool
  peerConnectionOk :: "string option \<Rightarrow> bool"
  setRemoteOk :: "string \<Rightarrow> bool"
  newTrack :: "nat option"
  addTrackOk :: bool
  createAnswerOk :: bool
  setLocalOk :: bool
  gathers :: bool
  localDescription :: "string option"
  trackRead :: "nat \<Rightarrow> byte list option option"
  receiverRead :: "nat \<Rightarrow> nat \<Rightarrow> byte list option"
  unmarshalOk :: "byte list \<Rightarrow> bool"
  trackWriteOk :: "nat \<Rightarrow> byte list \<Rightarrow> bool"
  unmarshalRTCPOk :: "byte list \<Rightarrow> bool"
  connWriteOk :: "byte list \<Rightarrow> bool"
  addCandidateOk :: "string \<Rightarrow> bool"
  closeOk :: bool

datatype pion_error = PionBind | PionCodecs | PionPeerConnection | PionRemoteDescription | PionLocalTrack | PionAddTrack
  | PionCreateAnswer | PionLocalDescription | PionNoLocalDescription | PionClosedBeforeTrack | PionClosedBeforeReceiver
  | PionRead | PionMarshal | PionUnmarshal | PionWrite | PionCandidate | PionEndOfCandidates | PionClose

text \<open>A call blocks, fails or returns.\<close>

datatype 'a PionResult = Blocks | Fails pion_error | Done 'a

record pionEndpoint =
  pePC :: nat
  peMux :: nat
  peConn :: nat
  pePort :: int
  peReady :: bool
  peReadyOnce :: bool
  peTrack :: "nat option"
  peReceiver :: "nat option"
  peLocalTrack :: "nat option"
  peHandler :: bool
  peCloseOnce :: bool

section \<open>Operations\<close>

definition NewEndpoint :: "PionLib \<Rightarrow> string \<Rightarrow> Handles \<Rightarrow> (pion_error + pionEndpoint) \<times> Handles" where
  "NewEndpoint L publicAddr t =
     (case listenPort L of
        None \<Rightarrow> (Inl PionBind, t)
      | Some port \<Rightarrow>
          (let (conn, t1) = openHandle t; (mux, t2) = openHandle t1 in
           if \<not> registerCodecsOk L then (Inl PionCodecs, closeHandle conn (closeHandle mux t2))
           else if \<not> peerConnectionOk L (if publicAddr = [] then None else Some publicAddr) then (Inl PionPeerConnection, closeHandle conn (closeHandle mux t2))
           else (let (pc, t3) = openHandle t2 in
             (Inr \<lparr>pePC = pc, peMux = mux, peConn = conn, pePort = port, peReady = False, peReadyOnce = False,
                   peTrack = None, peReceiver = None, peLocalTrack = None, peHandler = False, peCloseOnce = False\<rparr>, t3))))"

text \<open>The gate opens once; closing a closed channel would panic.\<close>

definition openGate :: "pionEndpoint \<Rightarrow> pionEndpoint" where
  "openGate e = (if peReadyOnce e then e else e\<lparr>peReady := True, peReadyOnce := True\<rparr>)"

definition onTrack :: "nat \<Rightarrow> nat \<Rightarrow> pionEndpoint \<Rightarrow> pionEndpoint" where
  "onTrack tr recv e = openGate (e\<lparr>peTrack := Some tr, peReceiver := Some recv\<rparr>)"

definition pion_Answer :: "PionLib \<Rightarrow> string \<Rightarrow> pionEndpoint \<Rightarrow> string PionResult \<times> pionEndpoint" where
  "pion_Answer L offer e =
     (let e1 = e\<lparr>peHandler := True\<rparr> in
      if \<not> setRemoteOk L offer then (Fails PionRemoteDescription, e1)
      else (case newTrack L of
          None \<Rightarrow> (Fails PionLocalTrack, e1)
        | Some tr \<Rightarrow>
            if \<not> addTrackOk L then (Fails PionAddTrack, e1)
            else (let e2 = e1\<lparr>peLocalTrack := Some tr\<rparr> in
              if \<not> createAnswerOk L then (Fails PionCreateAnswer, e2)
              else if \<not> setLocalOk L then (Fails PionLocalDescription, e2)
              else if \<not> gathers L then (Blocks, e2)
              else (case localDescription L of
                  None \<Rightarrow> (Fails PionNoLocalDescription, e2)
                | Some sdp \<Rightarrow> (Done sdp, e2)))))"

text \<open>A read copies at most the buffer's length.\<close>

definition pion_ReadRTP :: "PionLib \<Rightarrow> nat \<Rightarrow> pionEndpoint \<Rightarrow> byte list PionResult" where
  "pion_ReadRTP L bufLen e =
     (if \<not> peReady e then Blocks
      else (case peTrack e of
          None \<Rightarrow> Fails PionClosedBeforeTrack
        | Some tr \<Rightarrow> (case trackRead L tr of
              None \<Rightarrow> Fails PionRead
            | Some None \<Rightarrow> Fails PionMarshal
            | Some (Some raw) \<Rightarrow> Done (take bufLen raw))))"

definition pion_WriteRTP :: "PionLib \<Rightarrow> byte list \<Rightarrow> pionEndpoint \<Rightarrow> nat PionResult" where
  "pion_WriteRTP L pkt e =
     (case peLocalTrack e of
        None \<Rightarrow> Done (length pkt)
      | Some tr \<Rightarrow> if \<not> unmarshalOk L pkt then Fails PionUnmarshal
          else if \<not> trackWriteOk L tr pkt then Fails PionWrite else Done (length pkt))"

definition pion_ReadRTCP :: "PionLib \<Rightarrow> nat \<Rightarrow> pionEndpoint \<Rightarrow> byte list PionResult" where
  "pion_ReadRTCP L bufLen e =
     (if \<not> peReady e then Blocks
      else (case peReceiver e of
          None \<Rightarrow> Fails PionClosedBeforeReceiver
        | Some r \<Rightarrow> (case receiverRead L r bufLen of None \<Rightarrow> Fails PionRead | Some bs \<Rightarrow> Done bs)))"

definition pion_WriteRTCP :: "PionLib \<Rightarrow> byte list \<Rightarrow> pionEndpoint \<Rightarrow> nat PionResult" where
  "pion_WriteRTCP L pkt e =
     (if \<not> unmarshalRTCPOk L pkt then Fails PionUnmarshal
      else if \<not> connWriteOk L pkt then Fails PionWrite else Done (length pkt))"

definition pion_AddRemoteCandidate :: "PionLib \<Rightarrow> string \<Rightarrow> unit PionResult" where
  "pion_AddRemoteCandidate L c = (if addCandidateOk L c then Done () else Fails PionCandidate)"

definition pion_EndOfRemoteCandidates :: "PionLib \<Rightarrow> unit PionResult" where
  "pion_EndOfRemoteCandidates L = (if addCandidateOk L [] then Done () else Fails PionEndOfCandidates)"

definition pion_Close :: "PionLib \<Rightarrow> pionEndpoint \<Rightarrow> Handles \<Rightarrow> unit PionResult \<times> pionEndpoint \<times> Handles" where
  "pion_Close L e t =
     (if peCloseOnce e then (Done (), e, t)
      else ((if closeOk L then Done () else Fails PionClose), openGate (e\<lparr>peCloseOnce := True\<rparr>),
            closeHandle (peConn e) (closeHandle (peMux e) (closeHandle (pePC e) t))))"

text \<open>A secured leg on this endpoint; an offer it cannot answer closes it again.\<close>

definition pionSecuredLeg :: "PionLib \<Rightarrow> string \<Rightarrow> string \<Rightarrow> Handles \<Rightarrow> (pionEndpoint \<times> string) PionResult \<times> Handles" where
  "pionSecuredLeg L publicAddr offer t =
     (case NewEndpoint L publicAddr t of
        (Inl err, t1) \<Rightarrow> (Fails err, t1)
      | (Inr e, t1) \<Rightarrow>
          (case pion_Answer L offer e of
             (Blocks, e1) \<Rightarrow> (Blocks, t1)
           | (Fails err, e1) \<Rightarrow> (Fails err, snd (snd (pion_Close L e1 t1)))
           | (Done sdp, e1) \<Rightarrow> (Done (e1, sdp), t1)))"

section \<open>The life of an endpoint\<close>

text \<open>The bridge answers and closes; the library's goroutine delivers tracks once a handler is set,
  also after the closing.\<close>

inductive pionStep :: "PionLib \<Rightarrow> pionEndpoint \<times> Handles \<Rightarrow> pionEndpoint \<times> Handles \<Rightarrow> bool" for L where
  answered: "pion_Answer L offer e = (r, e') \<Longrightarrow> pionStep L (e, t) (e', t)"
| tracked: "peHandler e \<Longrightarrow> pionStep L (e, t) (onTrack tr recv e, t)"
| endClosed: "pion_Close L e t = (r, e', t') \<Longrightarrow> pionStep L (e, t) (e', t')"

inductive_cases pionStep_cases: "pionStep L (e, t) s"

inductive pionReaches :: "PionLib \<Rightarrow> Handles \<Rightarrow> pionEndpoint \<times> Handles \<Rightarrow> bool" for L t0 where
  created: "NewEndpoint L addr t0 = (Inr e, t) \<Longrightarrow> pionReaches L t0 (e, t)"
| stepped: "pionReaches L t0 s \<Longrightarrow> pionStep L s s' \<Longrightarrow> pionReaches L t0 s'"

definition endpointHandles :: "pionEndpoint \<Rightarrow> nat set" where
  "endpointHandles e = {pePC e, peMux e, peConn e}"

definition pion_inv :: "Handles \<Rightarrow> pionEndpoint \<times> Handles \<Rightarrow> bool" where
  "pion_inv t0 s = (case s of (e, t) \<Rightarrow>
     peReadyOnce e = peReady e \<and> (peTrack e = None \<longleftrightarrow> peReceiver e = None)
     \<and> (peReady e \<longleftrightarrow> peTrack e \<noteq> None \<or> peCloseOnce e)
     \<and> card (endpointHandles e) = 3 \<and> endpointHandles e \<inter> set (openH t0) = {}
     \<and> set (openH t) = set (openH t0) \<union> (if peCloseOnce e then {} else endpointHandles e))"

lemma pion_answer_keeps:
  assumes "pion_Answer L offer e = (r, e')"
  shows "pePC e' = pePC e" "peMux e' = peMux e" "peConn e' = peConn e" "peReady e' = peReady e" "peReadyOnce e' = peReadyOnce e"
    "peTrack e' = peTrack e" "peReceiver e' = peReceiver e" "peCloseOnce e' = peCloseOnce e"
  using assms by (auto simp: pion_Answer_def Let_def split: if_splits option.splits)

lemma pion_inv_new:
  assumes "handles_inv t0" "NewEndpoint L addr t0 = (Inr e, t)"
  shows "pion_inv t0 (e, t)"
  using assms by (auto simp: NewEndpoint_def openHandle_def pion_inv_def endpointHandles_def handles_inv_def split: option.splits if_splits)

lemma pion_inv_step:
  assumes "pion_inv t0 s" "pionStep L s s'"
  shows "pion_inv t0 s'"
  using assms(2,1)
proof (cases rule: pionStep.cases)
  case (answered offer e r e' t)
  then show ?thesis using assms(1) by (simp add: pion_inv_def endpointHandles_def pion_answer_keeps [OF answered(3)])
next
  case (tracked e t tr recv)
  then show ?thesis using assms(1) by (auto simp: pion_inv_def onTrack_def openGate_def endpointHandles_def)
next
  case (endClosed e t r e' t')
  then show ?thesis using assms(1)
    by (auto simp: pion_inv_def pion_Close_def openGate_def endpointHandles_def split: if_splits)
qed

lemma pion_reaches_inv: "handles_inv t0 \<Longrightarrow> pionReaches L t0 s \<Longrightarrow> pion_inv t0 s"
  by (rotate_tac 1, induction rule: pionReaches.induct) (auto intro: pion_inv_new pion_inv_step)

text \<open>The gate stays open.\<close>

lemma gate_step: "pionStep L s s' \<Longrightarrow> peReady (fst s) \<Longrightarrow> peReady (fst s')"
  by (induction rule: pionStep.induct)
     (auto simp: onTrack_def openGate_def pion_Close_def pion_Answer_def Let_def split: if_splits option.splits)

lemma gate_stays: "(pionStep L)\<^sup>*\<^sup>* s s' \<Longrightarrow> peReady (fst s) \<Longrightarrow> peReady (fst s')"
  by (induction rule: rtranclp_induct) (auto dest: gate_step)

lemma reads_block:
  "pion_ReadRTP L n e = Blocks \<longleftrightarrow> \<not> peReady e" "pion_ReadRTCP L n e = Blocks \<longleftrightarrow> \<not> peReady e"
  by (auto simp: pion_ReadRTP_def pion_ReadRTCP_def split: option.split)

lemma closed_for_good:
  assumes "pion_inv t0 (e, t)" "pion_Close L e t = (r, e', t')"
  shows "peReady e' \<and> set (openH t') = set (openH t0) \<and> pion_Close L e' t' = (Done (), e', t')"
  using assms by (auto simp: pion_inv_def pion_Close_def openGate_def endpointHandles_def split: if_splits)

text \<open>C31: A WebRTC endpoint never strands its readers or its sockets: at any point of its life a read blocks
  only while no track has arrived and it is not closed; once closed, reads return for good, whatever arrives
  later; closing it, after whatever happened, leaves exactly the sockets that were open before it was
  made, and closing it again does nothing and reports no error.\<close>

theorem endpoint_closes_clean:
  assumes "handles_inv t0" "pionReaches L t0 (e, t)"
  shows "(pion_ReadRTP L n e = Blocks \<longleftrightarrow> peTrack e = None \<and> \<not> peCloseOnce e)
     \<and> (pion_ReadRTCP L n e = Blocks \<longleftrightarrow> peTrack e = None \<and> \<not> peCloseOnce e)
     \<and> (case pion_Close L e t of (r, e', t') \<Rightarrow>
          set (openH t') = set (openH t0) \<and> pion_Close L e' t' = (Done (), e', t')
          \<and> (\<forall>s. (pionStep L)\<^sup>*\<^sup>* (e', t') s \<longrightarrow> pion_ReadRTP L n (fst s) \<noteq> Blocks \<and> pion_ReadRTCP L n (fst s) \<noteq> Blocks))"
proof -
  have inv: "pion_inv t0 (e, t)" using pion_reaches_inv [OF assms] .
  obtain r e' t' where c: "pion_Close L e t = (r, e', t')" by (rule prod_cases3)
  note closed_now = closed_for_good [OF inv c]
  have "peReady (fst s)" if "(pionStep L)\<^sup>*\<^sup>* (e', t') s" for s using gate_stays [OF that] closed_now by simp
  with inv closed_now show ?thesis by (auto simp: c reads_block pion_inv_def)
qed

definition samplePion :: PionLib where
  "samplePion = \<lparr>listenPort = Some 40000, registerCodecsOk = True, peerConnectionOk = (\<lambda>_. True), setRemoteOk = (\<lambda>_. True),
     newTrack = Some 7, addTrackOk = True, createAnswerOk = True, setLocalOk = True, gathers = True,
     localDescription = Some ''v=0'', trackRead = (\<lambda>_. Some (Some [1, 2, 3])), receiverRead = (\<lambda>_ _. Some []),
     unmarshalOk = (\<lambda>_. True), trackWriteOk = (\<lambda>_ _. True), unmarshalRTCPOk = (\<lambda>_. True), connWriteOk = (\<lambda>_. True),
     addCandidateOk = (\<lambda>_. True), closeOk = True\<rparr>"

text \<open>An endpoint that was answered and closed before its track came; the track comes afterwards.\<close>

theorem endpoint_closes_clean_witness:
  "\<exists>e t. pionReaches samplePion \<lparr>openH = [3], nextH = 4\<rparr> (e, t) \<and> pion_ReadRTP samplePion 1500 e = Blocks
     \<and> set (openH (snd (snd (pion_Close samplePion e t)))) = {3}"
proof -
  let ?t0 = "\<lparr>openH = [3], nextH = 4\<rparr> :: Handles"
  obtain e0 t where n: "NewEndpoint samplePion [] ?t0 = (Inr e0, t)" "\<not> peCloseOnce e0" "peTrack e0 = None"
    by (simp add: NewEndpoint_def samplePion_def openHandle_def)
  obtain r e where a: "pion_Answer samplePion ''offer'' e0 = (r, e)" by force
  have reach: "pionReaches samplePion ?t0 (e, t)"
    using pionReaches.stepped [OF pionReaches.created [OF n(1)] pionStep.answered [OF a]] .
  have h: "handles_inv ?t0" by (simp add: handles_inv_def)
  have "peTrack e = None" "\<not> peCloseOnce e" using n by (simp_all add: pion_answer_keeps [OF a])
  with endpoint_closes_clean [OF h reach, of 1500]
  have "pion_ReadRTP samplePion 1500 e = Blocks" "set (openH (snd (snd (pion_Close samplePion e t)))) = {3}"
    by (simp_all split: prod.splits)
  with reach show ?thesis by blast
qed

section \<open>The secured leg on a pion endpoint\<close>

text \<open>The set-up of a call uses the leg through what the factory makes of an offer: this is what the pion
  factory makes of it, its three sockets standing for the one handle of the leg.\<close>

definition pionResult :: "PionLib \<Rightarrow> Handles \<Rightarrow> string \<Rightarrow> string \<Rightarrow> WebRTCResult" where
  "pionResult L t publicAddr offer =
     (case NewEndpoint L publicAddr t of
        (Inl _, _) \<Rightarrow> NoEndpoint
      | (Inr e, _) \<Rightarrow> (case fst (pion_Answer L offer e) of Done sdp \<Rightarrow> Answer sdp | _ \<Rightarrow> AnswerFailed))"

lemma pionSecuredLeg_refines:
  assumes "gathers L" "handles_inv t"
  shows "case (pionSecuredLeg L addr offer t, newSecuredLeg (pionResult L t) addr offer t) of
      ((Done (e, sdp), t1), (Some leg, t2)) \<Rightarrow> answerSDP leg = sdp \<and> set (openH t1) = set (openH t) \<union> endpointHandles e
          \<and> set (openH t2) = set (openH t) \<union> {endpoint leg}
    | ((Fails _, t1), (None, t2)) \<Rightarrow> set (openH t1) = set (openH t) \<and> set (openH t2) = set (openH t)
    | _ \<Rightarrow> False"
proof (cases "NewEndpoint L addr t")
  case (Pair r t1)
  show ?thesis
  proof (cases r)
    case (Inl err)
    then show ?thesis using Pair assms(2)
      by (auto simp: handles_inv_def pionSecuredLeg_def newSecuredLeg_def pionResult_def NewEndpoint_def openHandle_def closeHandle_def
          split: option.splits if_splits)
  next
    case (Inr e)
    have inv: "pion_inv t (e, t1)" "\<not> peCloseOnce e" using pion_inv_new [OF assms(2) Pair [unfolded Inr]] Pair Inr
      by (auto simp: NewEndpoint_def openHandle_def split: option.splits if_splits)
    obtain a e1 where ans: "pion_Answer L offer e = (a, e1)" by force
    have inv1: "pion_inv t (e1, t1)" using pion_inv_step [OF inv(1) pionStep.answered [OF ans]] .
    have open1: "set (openH t1) = set (openH t) \<union> endpointHandles e1"
      using inv1 inv(2) by (simp add: pion_inv_def pion_answer_keeps [OF ans])
    show ?thesis
    proof (cases a)
      case Blocks
      then show ?thesis using ans assms(1) by (auto simp: pion_Answer_def Let_def split: if_splits option.splits)
    next
      case (Fails err)
      obtain r e2 t2 where c: "pion_Close L e1 t1 = (r, e2, t2)" by (rule prod_cases3)
      show ?thesis using closed_for_good [OF inv1 c] assms(2)
        by (auto simp: pionSecuredLeg_def newSecuredLeg_def pionResult_def Pair Inr ans Fails c openHandle_def handles_inv_def)
    next
      case (Done sdp)
      then show ?thesis using open1
        by (auto simp: pionSecuredLeg_def newSecuredLeg_def pionResult_def Pair Inr ans openHandle_def)
    qed
  qed
qed

end
