(* ===== verification/GoTime.thy ===== *)
theory GoTime
  imports GoStrings
begin

text \<open>
  Durations of the Go time package: a duration is a signed number of nanoseconds below
  \<open>2 ^ 63\<close>, and \<open>ParseDuration\<close> reads texts such as 32s, 1h30m or 1.5s. A fraction is
  computed exactly here, where Go rounds through a float64.
\<close>

definition nanosecond :: int where "nanosecond = 1"
definition second :: int where "second = 1000000000"
definition minute :: int where "minute = 60 * second"

definition unitOf :: "string \<Rightarrow> nat option" where
  "unitOf u =
     (if u = ''ns'' then Some 1
      else if u = ''us'' \<or> u = [CHR 0xC2, CHR 0xB5, CHR ''s''] \<or> u = [CHR 0xCE, CHR 0xBC, CHR ''s'']
        then Some 1000
      else if u = ''ms'' then Some 1000000
      else if u = ''s'' then Some 1000000000
      else if u = ''m'' then Some 60000000000
      else if u = ''h'' then Some 3600000000000
      else None)"

definition maxDur :: nat where "maxDur = 2 ^ 63"

text \<open>leadingInt: the digits in front, an error when they exceed \<open>2 ^ 63\<close>.\<close>

definition leadingInt :: "string \<Rightarrow> (nat \<times> string) option" where
  "leadingInt s = (let v = dec_value (takeWhile is_digit s) in
     if v > maxDur then None else Some (v, dropWhile is_digit s))"

definition fraction :: "string \<Rightarrow> string \<times> string" where
  "fraction s = (if s \<noteq> [] \<and> hd s = CHR ''.''
                 then (takeWhile is_digit (tl s), dropWhile is_digit (tl s)) else ([], s))"

text \<open>One number with its unit; \<open>None\<close> is an error.\<close>

definition partValue :: "bool \<Rightarrow> nat \<Rightarrow> string \<Rightarrow> string \<Rightarrow> nat option" where
  "partValue pre v frac u =
     (if \<not> pre \<and> frac = [] then None
      else case unitOf u of
          None \<Rightarrow> None
        | Some unit \<Rightarrow>
            (let d = v * unit + dec_value frac * unit div 10 ^ length frac in
             if d > maxDur then None else Some d))"

definition unitChar :: "char \<Rightarrow> bool" where
  "unitChar c = (c \<noteq> CHR ''.'' \<and> \<not> is_digit c)"

definition durationPart :: "string \<Rightarrow> (nat \<times> string) option" where
  "durationPart s =
     (case leadingInt s of
        None \<Rightarrow> None
      | Some (v, s1) \<Rightarrow>
          map_option (\<lambda>d. (d, dropWhile unitChar (snd (fraction s1))))
            (partValue (length s1 \<noteq> length s) v (fst (fraction s1)) (takeWhile unitChar (snd (fraction s1)))))"

lemma length_dropWhile: "length (dropWhile P xs) \<le> length xs"
  by (induction xs) auto

lemma fraction_length: "fraction s = (f, r) \<Longrightarrow> length r \<le> length s \<and> (f \<noteq> [] \<longrightarrow> length r < length s)"
  using length_dropWhile [of is_digit "tl s"] by (cases s) (auto simp: fraction_def split: if_splits)

lemma durationPart_shorter:
  assumes "durationPart s = Some (d, r)"
  shows "length r < length s"
proof -
  from assms obtain v s1 where l: "leadingInt s = Some (v, s1)" by (auto simp: durationPart_def split: option.splits)
  then have s1: "length s1 \<le> length s"
    using length_dropWhile [of is_digit s] by (auto simp: leadingInt_def Let_def split: if_splits)
  obtain f s2 where f: "fraction s1 = (f, s2)" by force
  from assms l f have r: "r = dropWhile unitChar s2" and p: "length s1 \<noteq> length s \<or> f \<noteq> []"
    by (auto simp: durationPart_def partValue_def split: if_splits)
  have "length r \<le> length s2" unfolding r by (rule length_dropWhile)
  with s1 p fraction_length [OF f] show ?thesis by linarith
qed

function durationLoop :: "string \<Rightarrow> nat \<Rightarrow> nat option" where
  "durationLoop s d =
     (if s = [] then Some d
      else case durationPart s of
          None \<Rightarrow> None
        | Some (v, rest) \<Rightarrow> if d + v > maxDur then None else durationLoop rest (d + v))"
  by auto
termination
  by (relation "measure (\<lambda>(s, _). length s)") (auto dest: durationPart_shorter)

declare durationLoop.simps [simp del]

definition ParseDuration :: "string \<Rightarrow> int option" where
  "ParseDuration s =
     (let neg = (s \<noteq> [] \<and> hd s = CHR ''-'');
          s' = (if s \<noteq> [] \<and> (hd s = CHR ''-'' \<or> hd s = CHR ''+'') then tl s else s)
      in if s' = ''0'' then Some 0
         else if s' = [] then None
         else case durationLoop s' 0 of
             None \<Rightarrow> None
           | Some d \<Rightarrow> if neg then Some (- int d)
                       else if d > maxDur - 1 then None else Some (int d))"

end
