(* ===== verification/Config.thy ===== *)
theory Config
  imports GoNet GoTime
begin

text \<open>
  The configuration, internal/config/config.go and routing.go, from the decoded YAML value
  (\<open>rawConfig\<close>) on: defaults, validation, the resolution of timeouts, TLS profiles and routing
  rules, and the matching of requests against a resolved rule. YAML decoding and the
  compilation of regular expressions are not part of the program; the latter is an argument.
  A Go map with string keys is a list of entries, in the order an iteration happens to take.
\<close>

section \<open>Data\<close>

type_synonym FailurePolicy = string
type_synonym MediaMode = string
type_synonym LogLevel = string
type_synonym Transport = string

abbreviation FailureSkip :: FailurePolicy where "FailureSkip \<equiv> ''skip''"
abbreviation FailureAbort :: FailurePolicy where "FailureAbort \<equiv> ''abort''"
abbreviation MediaTap :: MediaMode where "MediaTap \<equiv> ''tap''"
abbreviation MediaNone :: MediaMode where "MediaNone \<equiv> ''none''"
abbreviation TransportUDP :: Transport where "TransportUDP \<equiv> ''udp''"
abbreviation TransportTCP :: Transport where "TransportTCP \<equiv> ''tcp''"
abbreviation TransportTLS :: Transport where "TransportTLS \<equiv> ''tls''"
abbreviation TLSv12 :: string where "TLSv12 \<equiv> ''tlsv1.2''"
abbreviation TLSv13 :: string where "TLSv13 \<equiv> ''tlsv1.3''"

definition logLevels :: "LogLevel list" where
  "logLevels = [''debug'', ''info'', ''warn'', ''error'']"

definition transports :: "Transport list" where
  "transports = [TransportUDP, TransportTCP, TransportTLS]"

record TLSProfile =
  pfCert :: string
  pfKey :: string
  pfPassphrase :: string
  pfCA :: string
  pfMinVersion :: string
  pfCiphers :: "string list"
  pfVerifyPeer :: bool
  pfVerifyDepth :: "int option"
  pfVerifyDates :: "bool option"
  pfVerifySubjects :: "string list"
  pfConnectTimeout :: string

record ResolvedTLSProfile =
  rpName :: string
  rpCert :: string
  rpKey :: string
  rpPassphrase :: string
  rpCA :: string
  rpMinVersion :: string
  rpCiphers :: "string list"
  rpVerifyPeer :: bool
  rpVerifyDepth :: int
  rpVerifyDates :: bool
  rpVerifySubjects :: "string list"
  rpConnectTimeout :: int

text \<open>The tls and wss listeners have the same shape.\<close>

record TLSListener =
  lsListen :: string
  lsProfile :: string
  lsResolved :: "ResolvedTLSProfile option"

record RTPConfig =
  rtpPortRange :: string
  rtpIdleTimeout :: string
  rtpIdleTimeoutDur :: int

record RoutingRule =
  rrFrom :: string
  rrTo :: string
  rrMethod :: string

record RoutingInput =
  riMethod :: string
  riFrom :: string
  riTo :: string

type_synonym Regexp = "string \<Rightarrow> bool"

record ResolvedRouting =
  FromRe :: "Regexp option"
  ToRe :: "Regexp option"
  ruleMethod :: string

record Application =
  appName :: string
  appURI :: string
  appOnFailure :: FailurePolicy
  appMedia :: MediaMode
  appTransport :: Transport
  appTLSProfile :: string
  appTimeout :: string
  appRouting :: "RoutingRule option"
  appTimeoutDur :: int
  appResolved :: "ResolvedTLSProfile option"
  appRoutingRe :: "ResolvedRouting option"

record NextHop =
  nhURI :: string
  nhTransport :: Transport
  nhTLSProfile :: string
  nhResolved :: "ResolvedTLSProfile option"

record Config =
  cfgSIPListen :: string
  cfgTLS :: TLSListener
  cfgWSListen :: string
  cfgWSS :: TLSListener
  cfgNextHop :: NextHop
  cfgRTP :: RTPConfig
  cfgPublicAddress :: string
  cfgSequence :: "Application list"
  cfgTLSProfiles :: "(string \<times> TLSProfile) list"
  cfgLogLevel :: LogLevel
  cfgObsListen :: string
  cfgLegTimeout :: string
  cfgLegTimeoutDur :: int

record rawConfig =
  rawSIPListen :: string
  rawTLS :: TLSListener
  rawWSListen :: string
  rawWSS :: TLSListener
  rawNextHop :: "NextHop option"
  rawRTP :: RTPConfig
  rawPublicAddress :: string
  rawSequence :: "Application list option"
  rawTLSProfiles :: "(string \<times> TLSProfile) list"
  rawLogLevel :: LogLevel
  rawObsListen :: string
  rawLegTimeout :: string

datatype cfg_error =
    MissingKey string
  | BadLogLevel string
  | BadObservabilityListen string
  | PublicAddressWithPort string
  | AppNoName nat
  | AppNoURI nat
  | AppBadOnFailure nat string
  | AppBadMedia nat string
  | BadTransport string string
  | TLSWithoutProfile string
  | ProfileWithoutTLS string string
  | BadListen string string
  | UnknownProfile string string
  | ProfileNoCertKey string
  | ProfileBadMinVersion string string
  | ProfileEmptyCipher string
  | ProfileEmptySubject string
  | ProfileBadConnectTimeout string string
  | ProfileNegativeDepth string
  | BadDuration string string
  | DurationNotPositive string string
  | BadRouting nat string string

text \<open>Where an endpoint error points: sequence[i], next_hop, tls.listen, wss.listen.\<close>

definition seqAt :: "nat \<Rightarrow> string" where
  "seqAt i = ''sequence['' @ showNat i @ '']''"

section \<open>Routing\<close>

fun equalMethod_loop :: "string \<Rightarrow> string \<Rightarrow> bool" where
  "equalMethod_loop (x # xs) (y # ys) = (if lowerChar x \<noteq> lowerChar y then False else equalMethod_loop xs ys)"
| "equalMethod_loop _ _ = True"

definition equalMethod :: "string \<Rightarrow> string \<Rightarrow> bool" where
  "equalMethod a b = (if length a \<noteq> length b then False else equalMethod_loop a b)"

definition Matches :: "ResolvedRouting option \<Rightarrow> RoutingInput \<Rightarrow> bool" where
  "Matches r req = (case r of
       None \<Rightarrow> True
     | Some r \<Rightarrow>
         (if ruleMethod r \<noteq> [] \<and> \<not> equalMethod (ruleMethod r) (riMethod req) then False
          else if (case FromRe r of None \<Rightarrow> False | Some re \<Rightarrow> \<not> re (riFrom req)) then False
          else if (case ToRe r of None \<Rightarrow> False | Some re \<Rightarrow> \<not> re (riTo req)) then False
          else True))"

text \<open>\<open>compile\<close> is regexp.Compile: a matcher, or nothing for a pattern that is not one.\<close>

definition compileField ::
  "(string \<Rightarrow> Regexp option) \<Rightarrow> string \<Rightarrow> string \<Rightarrow> (string \<times> string) + Regexp option" where
  "compileField compile field pat =
     (if pat = [] then Inr None
      else case compile pat of None \<Rightarrow> Inl (field, pat) | Some re \<Rightarrow> Inr (Some re))"

definition resolveRoutingRule ::
  "(string \<Rightarrow> Regexp option) \<Rightarrow> RoutingRule option \<Rightarrow> (string \<times> string) + ResolvedRouting option" where
  "resolveRoutingRule compile r = (case r of
       None \<Rightarrow> Inr None
     | Some r \<Rightarrow> (case compileField compile ''routing.from'' (rrFrom r) of
           Inl e \<Rightarrow> Inl e
         | Inr fre \<Rightarrow> (case compileField compile ''routing.to'' (rrTo r) of
               Inl e \<Rightarrow> Inl e
             | Inr tre \<Rightarrow> Inr (Some \<lparr>FromRe = fre, ToRe = tre, ruleMethod = rrMethod r\<rparr>))))"

section \<open>Checks\<close>

text \<open>A list of checks in the order the code makes them; the first that fails is the error.\<close>

fun firstError :: "(bool \<times> cfg_error) list \<Rightarrow> cfg_error option" where
  "firstError [] = None"
| "firstError ((bad, e) # cs) = (if bad then Some e else firstError cs)"

fun checkEach :: "(nat \<Rightarrow> 'a \<Rightarrow> cfg_error option) \<Rightarrow> nat \<Rightarrow> 'a list \<Rightarrow> cfg_error option" where
  "checkEach f i [] = None"
| "checkEach f i (x # xs) = (case f i x of Some e \<Rightarrow> Some e | None \<Rightarrow> checkEach f (Suc i) xs)"

definition orElse :: "cfg_error option \<Rightarrow> cfg_error option \<Rightarrow> cfg_error option" where
  "orElse a b = (case a of Some e \<Rightarrow> Some e | None \<Rightarrow> b)"

definition badHostPort :: "string \<Rightarrow> bool" where
  "badHostPort s = (SplitHostPort s = None)"

definition checkApp :: "nat \<Rightarrow> Application \<Rightarrow> cfg_error option" where
  "checkApp i app = firstError
     [(appName app = [], AppNoName i),
      (appURI app = [], AppNoURI i),
      (appOnFailure app \<noteq> FailureSkip \<and> appOnFailure app \<noteq> FailureAbort, AppBadOnFailure i (appOnFailure app)),
      (appMedia app \<noteq> MediaTap \<and> appMedia app \<noteq> MediaNone, AppBadMedia i (appMedia app))]"

definition checkWiring :: "string \<Rightarrow> Transport \<Rightarrow> string \<Rightarrow> cfg_error option" where
  "checkWiring place transport profile = firstError
     [(transport \<notin> set transports, BadTransport place transport),
      (transport = TransportTLS \<and> profile = [], TLSWithoutProfile place),
      (transport \<noteq> TransportTLS \<and> profile \<noteq> [], ProfileWithoutTLS place transport)]"

definition unknownProfile :: "Config \<Rightarrow> string \<Rightarrow> bool" where
  "unknownProfile c name = (map_of (cfgTLSProfiles c) name = None)"

definition validateTLSWiring :: "Config \<Rightarrow> cfg_error option" where
  "validateTLSWiring c =
     orElse (checkEach (\<lambda>i app. checkWiring (seqAt i) (appTransport app) (appTLSProfile app)) 0 (cfgSequence c))
    (orElse (checkWiring ''next_hop'' (nhTransport (cfgNextHop c)) (nhTLSProfile (cfgNextHop c)))
    (orElse (if lsListen (cfgTLS c) = [] then None else firstError
       [(lsProfile (cfgTLS c) = [], TLSWithoutProfile ''tls.listen''),
        (badHostPort (lsListen (cfgTLS c)), BadListen ''tls.listen'' (lsListen (cfgTLS c)))])
    (orElse (if cfgWSListen c = [] then None else firstError
       [(badHostPort (cfgWSListen c), BadListen ''ws.listen'' (cfgWSListen c))])
    (orElse (if lsListen (cfgWSS c) = [] then None else firstError
       [(lsProfile (cfgWSS c) = [], TLSWithoutProfile ''wss.listen''),
        (badHostPort (lsListen (cfgWSS c)), BadListen ''wss.listen'' (lsListen (cfgWSS c))),
        (unknownProfile c (lsProfile (cfgWSS c)), UnknownProfile ''wss.listen'' (lsProfile (cfgWSS c)))])
    (orElse (if lsListen (cfgTLS c) = [] then None else firstError
       [(unknownProfile c (lsProfile (cfgTLS c)), UnknownProfile ''tls.listen'' (lsProfile (cfgTLS c)))])
    (orElse (checkEach (\<lambda>i app. if appTransport app = TransportTLS
         then firstError [(unknownProfile c (appTLSProfile app), UnknownProfile (seqAt i) (appTLSProfile app))]
         else None) 0 (cfgSequence c))
     (if nhTransport (cfgNextHop c) = TransportTLS
      then firstError [(unknownProfile c (nhTLSProfile (cfgNextHop c)),
                        UnknownProfile ''next_hop'' (nhTLSProfile (cfgNextHop c)))]
      else None)))))))"

definition checkProfile :: "nat \<Rightarrow> string \<times> TLSProfile \<Rightarrow> cfg_error option" where
  "checkProfile i np = (case np of (name, p) \<Rightarrow> firstError
     [(pfCert p = [] \<or> pfKey p = [], ProfileNoCertKey name),
      (pfMinVersion p \<noteq> [] \<and> pfMinVersion p \<noteq> TLSv12 \<and> pfMinVersion p \<noteq> TLSv13,
         ProfileBadMinVersion name (pfMinVersion p)),
      ([] \<in> set (pfCiphers p), ProfileEmptyCipher name),
      ([] \<in> set (pfVerifySubjects p), ProfileEmptySubject name),
      (pfConnectTimeout p \<noteq> [] \<and> ParseDuration (pfConnectTimeout p) = None,
         ProfileBadConnectTimeout name (pfConnectTimeout p)),
      (case pfVerifyDepth p of None \<Rightarrow> False | Some d \<Rightarrow> d < 0, ProfileNegativeDepth name)])"

definition validateTLSProfiles :: "Config \<Rightarrow> cfg_error option" where
  "validateTLSProfiles c = checkEach checkProfile 0 (cfgTLSProfiles c)"

definition validate :: "Config \<Rightarrow> bool \<Rightarrow> bool \<Rightarrow> cfg_error option" where
  "validate c sequencePresent nextHopPresent =
     orElse (firstError
       [(cfgSIPListen c = [], MissingKey ''sip.listen''),
        (\<not> nextHopPresent, MissingKey ''next_hop''),
        (nhURI (cfgNextHop c) = [], MissingKey ''next_hop.uri''),
        (rtpPortRange (cfgRTP c) = [], MissingKey ''rtp.port_range''),
        (\<not> sequencePresent, MissingKey ''sequence''),
        (cfgLogLevel c \<notin> set logLevels, BadLogLevel (cfgLogLevel c)),
        (cfgObsListen c \<noteq> [] \<and> badHostPort (cfgObsListen c), BadObservabilityListen (cfgObsListen c)),
        (cfgPublicAddress c \<noteq> [] \<and> \<not> badHostPort (cfgPublicAddress c),
           PublicAddressWithPort (cfgPublicAddress c))])
    (orElse (checkEach checkApp 0 (cfgSequence c))
    (orElse (validateTLSWiring c) (validateTLSProfiles c)))"

section \<open>Defaults and resolution\<close>

definition applyDefaultsApp :: "Application \<Rightarrow> Application" where
  "applyDefaultsApp app =
     (let a1 = (if appOnFailure app = [] then app\<lparr>appOnFailure := FailureSkip\<rparr> else app);
          a2 = (if appMedia a1 = [] then a1\<lparr>appMedia := MediaNone\<rparr> else a1)
      in (if appTransport a2 = [] then a2\<lparr>appTransport := TransportUDP\<rparr> else a2))"

definition applyDefaults :: "Config \<Rightarrow> Config" where
  "applyDefaults c =
     (let c1 = (if cfgLogLevel c = [] then c\<lparr>cfgLogLevel := ''info''\<rparr> else c);
          c2 = c1\<lparr>cfgSequence := map applyDefaultsApp (cfgSequence c1)\<rparr>
      in (if nhTransport (cfgNextHop c2) = []
          then c2\<lparr>cfgNextHop := (cfgNextHop c2)\<lparr>nhTransport := TransportUDP\<rparr>\<rparr> else c2))"

fun mapEach :: "(nat \<Rightarrow> 'a \<Rightarrow> cfg_error + 'b) \<Rightarrow> nat \<Rightarrow> 'a list \<Rightarrow> cfg_error + 'b list" where
  "mapEach f i [] = Inr []"
| "mapEach f i (x # xs) = (case f i x of Inl e \<Rightarrow> Inl e
     | Inr y \<Rightarrow> (case mapEach f (Suc i) xs of Inl e \<Rightarrow> Inl e | Inr ys \<Rightarrow> Inr (y # ys)))"

definition defaultLegTimeout :: int where "defaultLegTimeout = 32 * second"
definition defaultIdleTimeout :: int where "defaultIdleTimeout = 5 * minute"

definition resolveDuration :: "string \<Rightarrow> int \<Rightarrow> int \<Rightarrow> string \<Rightarrow> cfg_error + int" where
  "resolveDuration place dflt least text =
     (if text = [] then Inr dflt
      else case ParseDuration text of
          None \<Rightarrow> Inl (BadDuration place text)
        | Some d \<Rightarrow> if d < least then Inl (DurationNotPositive place text) else Inr d)"

definition resolveTimeouts :: "Config \<Rightarrow> cfg_error + Config" where
  "resolveTimeouts c =
     (case resolveDuration ''leg_timeout'' defaultLegTimeout 1 (cfgLegTimeout c) of
        Inl e \<Rightarrow> Inl e
      | Inr leg \<Rightarrow>
          (case mapEach (\<lambda>i app. case resolveDuration (seqAt i) (appTimeoutDur app) 1 (appTimeout app) of
                  Inl e \<Rightarrow> Inl e | Inr d \<Rightarrow> Inr (app\<lparr>appTimeoutDur := d\<rparr>)) 0 (cfgSequence c) of
             Inl e \<Rightarrow> Inl e
           | Inr apps \<Rightarrow>
               (case resolveDuration ''rtp.idle_timeout'' defaultIdleTimeout 0 (rtpIdleTimeout (cfgRTP c)) of
                  Inl e \<Rightarrow> Inl e
                | Inr idle \<Rightarrow>
                    Inr (c\<lparr>cfgLegTimeoutDur := leg, cfgSequence := apps,
                           cfgRTP := (cfgRTP c)\<lparr>rtpIdleTimeoutDur := idle\<rparr>\<rparr>))))"

text \<open>The profile of an absent name is the zero value of the struct, as in Go.\<close>

definition zeroProfile :: TLSProfile where
  "zeroProfile = \<lparr>pfCert = [], pfKey = [], pfPassphrase = [], pfCA = [], pfMinVersion = [], pfCiphers = [],
     pfVerifyPeer = False, pfVerifyDepth = None, pfVerifyDates = None, pfVerifySubjects = [],
     pfConnectTimeout = []\<rparr>"

definition resolveProfile :: "Config \<Rightarrow> string \<Rightarrow> cfg_error + ResolvedTLSProfile" where
  "resolveProfile c name =
     (let p = (case map_of (cfgTLSProfiles c) name of Some p \<Rightarrow> p | None \<Rightarrow> zeroProfile);
          r = \<lparr>rpName = name, rpCert = pfCert p, rpKey = pfKey p, rpPassphrase = pfPassphrase p,
               rpCA = pfCA p, rpMinVersion = (if pfMinVersion p \<noteq> [] then pfMinVersion p else TLSv12),
               rpCiphers = pfCiphers p, rpVerifyPeer = pfVerifyPeer p,
               rpVerifyDepth = (case pfVerifyDepth p of Some d \<Rightarrow> d | None \<Rightarrow> 2),
               rpVerifyDates = (case pfVerifyDates p of Some b \<Rightarrow> b | None \<Rightarrow> True),
               rpVerifySubjects = pfVerifySubjects p, rpConnectTimeout = 0\<rparr>
      in if pfConnectTimeout p \<noteq> [] then
           (case ParseDuration (pfConnectTimeout p) of
              None \<Rightarrow> Inl (ProfileBadConnectTimeout name (pfConnectTimeout p))
            | Some d \<Rightarrow> Inr (r\<lparr>rpConnectTimeout := d\<rparr>))
         else Inr r)"

type_synonym cache = "(string \<times> ResolvedTLSProfile) list"

definition resolve :: "Config \<Rightarrow> cache \<Rightarrow> string \<Rightarrow> cfg_error + ResolvedTLSProfile \<times> cache" where
  "resolve c cache name = (case map_of cache name of
       Some r \<Rightarrow> Inr (r, cache)
     | None \<Rightarrow> (case resolveProfile c name of Inl e \<Rightarrow> Inl e | Inr r \<Rightarrow> Inr (r, (name, r) # cache)))"

definition resolveListener :: "Config \<Rightarrow> cache \<Rightarrow> TLSListener \<Rightarrow> cfg_error + TLSListener \<times> cache" where
  "resolveListener c cache l =
     (if lsListen l \<noteq> [] then
        (case resolve c cache (lsProfile l) of
           Inl e \<Rightarrow> Inl e | Inr (r, cache') \<Rightarrow> Inr (l\<lparr>lsResolved := Some r\<rparr>, cache'))
      else Inr (l, cache))"

fun resolveApps :: "Config \<Rightarrow> cache \<Rightarrow> Application list \<Rightarrow> cfg_error + Application list \<times> cache" where
  "resolveApps c cache [] = Inr ([], cache)"
| "resolveApps c cache (app # apps) =
     (if appTransport app = TransportTLS then
        (case resolve c cache (appTLSProfile app) of
           Inl e \<Rightarrow> Inl e
         | Inr (r, cache') \<Rightarrow> map_sum id (apfst ((#) (app\<lparr>appResolved := Some r\<rparr>))) (resolveApps c cache' apps))
      else map_sum id (apfst ((#) app)) (resolveApps c cache apps))"

definition resolveNextHop :: "Config \<Rightarrow> cache \<Rightarrow> NextHop \<Rightarrow> cfg_error + NextHop \<times> cache" where
  "resolveNextHop c cache nh =
     (if nhTransport nh = TransportTLS then
        (case resolve c cache (nhTLSProfile nh) of
           Inl e \<Rightarrow> Inl e | Inr (r, cache') \<Rightarrow> Inr (nh\<lparr>nhResolved := Some r\<rparr>, cache'))
      else Inr (nh, cache))"

definition resolveTLS :: "Config \<Rightarrow> cfg_error + Config" where
  "resolveTLS c =
     (case resolveListener c [] (cfgTLS c) of Inl e \<Rightarrow> Inl e | Inr (tls, k1) \<Rightarrow>
     (case resolveListener c k1 (cfgWSS c) of Inl e \<Rightarrow> Inl e | Inr (wss, k2) \<Rightarrow>
     (case resolveApps c k2 (cfgSequence c) of Inl e \<Rightarrow> Inl e | Inr (apps, k3) \<Rightarrow>
     (case resolveNextHop c k3 (cfgNextHop c) of Inl e \<Rightarrow> Inl e | Inr (nh, k4) \<Rightarrow>
       Inr (c\<lparr>cfgTLS := tls, cfgWSS := wss, cfgSequence := apps, cfgNextHop := nh\<rparr>)))))"

definition resolveRouting :: "(string \<Rightarrow> Regexp option) \<Rightarrow> Config \<Rightarrow> cfg_error + Config" where
  "resolveRouting compile c =
     (case mapEach (\<lambda>i app. case resolveRoutingRule compile (appRouting app) of
             Inl (field, pat) \<Rightarrow> Inl (BadRouting i field pat)
           | Inr re \<Rightarrow> Inr (app\<lparr>appRoutingRe := re\<rparr>)) 0 (cfgSequence c) of
        Inl e \<Rightarrow> Inl e
      | Inr apps \<Rightarrow> Inr (c\<lparr>cfgSequence := apps\<rparr>))"

definition zeroNextHop :: NextHop where
  "zeroNextHop = \<lparr>nhURI = [], nhTransport = [], nhTLSProfile = [], nhResolved = None\<rparr>"

definition Parse :: "(string \<Rightarrow> Regexp option) \<Rightarrow> rawConfig \<Rightarrow> cfg_error + Config" where
  "Parse compile raw =
     (let cfg = applyDefaults
          \<lparr>cfgSIPListen = rawSIPListen raw, cfgTLS = rawTLS raw, cfgWSListen = rawWSListen raw,
           cfgWSS = rawWSS raw, cfgNextHop = (case rawNextHop raw of Some nh \<Rightarrow> nh | None \<Rightarrow> zeroNextHop),
           cfgRTP = rawRTP raw, cfgPublicAddress = rawPublicAddress raw,
           cfgSequence = (case rawSequence raw of Some s \<Rightarrow> s | None \<Rightarrow> []),
           cfgTLSProfiles = rawTLSProfiles raw, cfgLogLevel = rawLogLevel raw,
           cfgObsListen = rawObsListen raw, cfgLegTimeout = rawLegTimeout raw, cfgLegTimeoutDur = 0\<rparr>
      in case validate cfg (rawSequence raw \<noteq> None) (rawNextHop raw \<noteq> None) of
           Some e \<Rightarrow> Inl e
         | None \<Rightarrow> (case resolveTimeouts cfg of Inl e \<Rightarrow> Inl e | Inr c1 \<Rightarrow>
                  (case resolveTLS c1 of Inl e \<Rightarrow> Inl e | Inr c2 \<Rightarrow> resolveRouting compile c2)))"

end
