(* ===== verification/Headers.thy ===== *)
theory Headers
  imports Config
begin

text \<open>
  The headers a call carries across, internal/b2bua/headers.go, over the interface of the SIP
  library: a header is what its \<open>Name\<close> and \<open>Value\<close> methods return, and the library's functions
  are the fields of \<open>SipLib\<close>, with what its documentation says of them in \<open>sipDocumented\<close>.
\<close>

record Header =
  hdrName :: string
  hdrValue :: string

text \<open>A URI is its printed form.\<close>

type_synonym Uri = string

record Response =
  resStatus :: int
  resReason :: string
  resHeaders :: "Header list"
  resBody :: string

record SipLib =
  HeaderClone :: "Header \<Rightarrow> Header"
  NewHeader :: "string \<Rightarrow> string \<Rightarrow> Header"
  GetHeader :: "Header list \<Rightarrow> string \<Rightarrow> Header option"
  ParseUri :: "string \<Rightarrow> Uri option"
  AddTransport :: "Uri \<Rightarrow> string \<Rightarrow> Uri"
  IsProvisional :: "int \<Rightarrow> bool"

text \<open>HeaderClone copies a header, NewHeader makes one of a name and a value, GetHeader finds the
  first header of a name whatever its case, and provisional responses are those below 200.\<close>

definition sipDocumented :: "SipLib \<Rightarrow> bool" where
  "sipDocumented L =
     ((\<forall>h. HeaderClone L h = h)
      \<and> (\<forall>n v. NewHeader L n v = \<lparr>hdrName = n, hdrValue = v\<rparr>)
      \<and> (\<forall>hs n. GetHeader L hs n = List.find (\<lambda>h. equalFold (hdrName h) n) hs)
      \<and> (\<forall>s. IsProvisional L s = (s < 200)))"

definition requestOwnedHeaders :: "string list" where
  "requestOwnedHeaders = [''via'', ''call-id'', ''cseq'', ''max-forwards'', ''contact'', ''route'',
     ''record-route'', ''content-type'', ''content-length'']"

definition responseOwnedHeaders :: "string list" where
  "responseOwnedHeaders = [''via'', ''from'', ''to'', ''call-id'', ''cseq'', ''contact'', ''route'',
     ''record-route'', ''timestamp'', ''content-type'', ''content-length'']"

definition sequencerHeaderPrefix :: string where
  "sequencerHeaderPrefix = ''x-sequencer-''"

fun relayableHeaders :: "SipLib \<Rightarrow> Header list \<Rightarrow> string list \<Rightarrow> Header list" where
  "relayableHeaders L [] owned = []"
| "relayableHeaders L (h # src) owned =
     (let name = toLower (hdrName h) in
      if name \<in> set owned \<or> hasPrefix name sequencerHeaderPrefix then relayableHeaders L src owned
      else HeaderClone L h # relayableHeaders L src owned)"

definition relayableResponseHeaders :: "SipLib \<Rightarrow> Response \<Rightarrow> string \<Rightarrow> Header list" where
  "relayableResponseHeaders L upstream body =
     (let hdrs = relayableHeaders L (resHeaders upstream) responseOwnedHeaders in
      if body = [] then hdrs
      else case GetHeader L (resHeaders upstream) ''Content-Type'' of
          Some ct \<Rightarrow> hdrs @ [HeaderClone L ct]
        | None \<Rightarrow> hdrs @ [NewHeader L ''Content-Type'' ''application/sdp''])"

text \<open>What crosses: a header that the sequencer neither owns on that side nor mints itself.\<close>

definition crosses :: "string list \<Rightarrow> Header \<Rightarrow> bool" where
  "crosses owned h = (toLower (hdrName h) \<notin> set owned
     \<and> \<not> hasPrefix (toLower (hdrName h)) sequencerHeaderPrefix)"

lemma relayableHeaders_filter:
  "sipDocumented L \<Longrightarrow> relayableHeaders L src owned = filter (crosses owned) src"
  by (induction src) (auto simp: crosses_def sipDocumented_def Let_def)

end
