(* ===== verification/CallWorld.thy ===== *)
theory CallWorld
  imports Headers Media
begin

text \<open>
  Calls and what they share: the states of a call (state.go), the call with its legs and its
  media (call.go), the registry (registry.go), and the world a step of the program works on:
  the port allocator, the open handles, the calls, the registry's two indexes and the trace of
  what was sent and counted. A call is referred to by its place in the list of calls, as the
  code refers to it by a pointer.
\<close>

section \<open>States and policies\<close>

datatype CallState = stateSetup | stateEstablished | stateTearingDown

text \<open>The states in the order of a call's life.\<close>

fun rank :: "CallState \<Rightarrow> nat" where
  "rank stateSetup = 0"
| "rank stateEstablished = 1"
| "rank stateTearingDown = 2"

instantiation CallState :: linorder
begin

definition less_eq_CallState :: "CallState \<Rightarrow> CallState \<Rightarrow> bool" where
  "less_eq_CallState s t = (rank s \<le> rank t)"

definition less_CallState :: "CallState \<Rightarrow> CallState \<Rightarrow> bool" where
  "less_CallState s t = (rank s < rank t)"

instance
proof
  show "x = y" if "x \<le> y" "y \<le> x" for x y :: CallState
    using that by (cases x; cases y) (simp_all add: less_eq_CallState_def)
qed (auto simp: less_eq_CallState_def less_CallState_def)

end

datatype LegRole = roleApplication | rolePBX

datatype failureKind = failureReject | failureTimeout

definition mapFailureStatus :: "failureKind \<Rightarrow> int \<Rightarrow> int" where
  "mapFailureStatus kind appStatus = (if kind = failureReject then appStatus else 503)"

definition canTransition :: "CallState \<Rightarrow> CallState \<Rightarrow> bool" where
  "canTransition from_state to_state = (case from_state of
       stateSetup \<Rightarrow> to_state = stateEstablished \<or> to_state = stateTearingDown
     | stateEstablished \<Rightarrow> to_state = stateTearingDown
     | stateTearingDown \<Rightarrow> False)"

text \<open>The table of state.go is that order.\<close>

lemma canTransition_less: "canTransition s t \<longleftrightarrow> s < t"
  by (cases s; cases t) (simp_all add: canTransition_def less_CallState_def)

lemma canTransition_run: "canTransition\<^sup>*\<^sup>* s t \<longleftrightarrow> s \<le> t"
proof
  show "canTransition\<^sup>*\<^sup>* s t \<Longrightarrow> s \<le> t"
    by (induction rule: rtranclp_induct) (auto simp: canTransition_less)
  show "s \<le> t \<Longrightarrow> canTransition\<^sup>*\<^sup>* s t"
    by (cases "s = t") (auto simp: canTransition_less)
qed

lemma tearingDown_last: "s \<le> stateTearingDown" "stateTearingDown \<le> s \<longleftrightarrow> s = stateTearingDown"
  "stateEstablished \<le> s \<longleftrightarrow> s \<noteq> stateSetup"
  by (cases s; simp add: less_eq_CallState_def)+

datatype failAction = actionSkip | actionAbort

definition failureAction :: "FailurePolicy \<Rightarrow> failAction" where
  "failureAction p = (if p = FailureAbort then actionAbort else actionSkip)"

definition effectiveTimeout :: "Application \<Rightarrow> int \<Rightarrow> int" where
  "effectiveTimeout app global = (if appTimeoutDur app > 0 then appTimeoutDur app else global)"

section \<open>Calls\<close>

record OutboundLeg =
  legRole :: LegRole
  legTarget :: string
  legID :: string
  legSession :: nat
  legAnswer :: string

record PendingTap =
  ptTap :: Tap
  ptCaller :: PortPair
  ptCallee :: PortPair

text \<open>
  \<open>inboundID\<close> is the dialog id of the inbound session. \<open>releaseMedia\<close> is the release hook: the
  fixed port pairs the closure captured; its session is \<open>media\<close>. \<open>cancelled\<close> says that the
  context of the call was cancelled.
\<close>

record Call =
  callId :: string
  callState :: CallState
  inboundID :: string
  offerSDP :: string
  inHeaders :: "Header list"
  routing :: RoutingInput
  appLegs :: "OutboundLeg list"
  pbxLeg :: "OutboundLeg option"
  transferTarget :: "nat option"
  cancelled :: bool
  media :: "MediaSession option"
  releaseMedia :: "PortPair list option"
  pendingTaps :: "PendingTap list"
  inboundDetached :: bool

definition forwardHeaders :: "SipLib \<Rightarrow> Call \<Rightarrow> Header list" where
  "forwardHeaders L c = map (HeaderClone L) (inHeaders c)"

datatype Dialer = TLSDialer string | PlainDialer

datatype Event =
    EvRespond nat int string string "Header list" bool
  | EvInvite nat LegRole Dialer Uri string "Header list" "int list"
  | EvWait nat nat int
  | EvAck nat nat
  | EvByeInbound nat
  | EvBye nat nat
  | EvRelay nat
  | EvAppInvocation string
  | EvAppFailure string
  | EvTerminatingHopFailure
  | EvSequencingLatency
  | EvMediaCodecMismatch string string
  | EvTxRespond nat int string string "Header list"
  | EvReInvite nat nat Uri string
  | EvTransfer nat Uri string "Header list" int
  | EvNotify nat Uri string
  | EvCandidate nat string
  | EvEndOfCandidates nat
  | EvProxied nat

record World =
  wPorts :: PortAllocator
  wHandles :: Handles
  wCalls :: "Call list"
  wReg :: "(string \<times> nat) list"
  wDialogs :: "(string \<times> nat) list"
  wOthers :: "PortPair list"
  wTrace :: "Event list"
  wTick :: nat

definition updCall :: "nat \<Rightarrow> (Call \<Rightarrow> Call) \<Rightarrow> World \<Rightarrow> World" where
  "updCall r f w = w\<lparr>wCalls := (wCalls w)[r := f (wCalls w ! r)]\<rparr>"

definition addTrace :: "Event list \<Rightarrow> World \<Rightarrow> World" where
  "addTrace es w = w\<lparr>wTrace := wTrace w @ es\<rparr>"

section \<open>Registry\<close>

text \<open>The two Go maps, with the last entry of a key in front.\<close>

definition mapPut :: "string \<Rightarrow> nat \<Rightarrow> (string \<times> nat) list \<Rightarrow> (string \<times> nat) list" where
  "mapPut k v m = (k, v) # filter (\<lambda>(k', _). k' \<noteq> k) m"

definition mapDelete :: "string \<Rightarrow> (string \<times> nat) list \<Rightarrow> (string \<times> nat) list" where
  "mapDelete k m = filter (\<lambda>(k', _). k' \<noteq> k) m"

definition regAdd :: "string \<Rightarrow> nat \<Rightarrow> World \<Rightarrow> World" where
  "regAdd cid r w = w\<lparr>wReg := mapPut cid r (wReg w)\<rparr>"

definition addDialog :: "string \<Rightarrow> nat \<Rightarrow> World \<Rightarrow> World" where
  "addDialog dialogID r w = (if dialogID = [] then w else w\<lparr>wDialogs := mapPut dialogID r (wDialogs w)\<rparr>)"

definition getByDialog :: "string \<Rightarrow> World \<Rightarrow> nat option" where
  "getByDialog dialogID w = map_of (wDialogs w) dialogID"

definition regGet :: "string \<Rightarrow> World \<Rightarrow> nat option" where
  "regGet cid w = map_of (wReg w) cid"

definition regRemove :: "string \<Rightarrow> string \<Rightarrow> World \<Rightarrow> World" where
  "regRemove cid dialogID w =
     (let w1 = w\<lparr>wReg := mapDelete cid (wReg w)\<rparr>
      in if dialogID \<noteq> [] then w1\<lparr>wDialogs := mapDelete dialogID (wDialogs w1)\<rparr> else w1)"

text \<open>A walk over the calls: the registry's snapshot in the order in which Go walks the map, \<open>it\<close>, then
  the function on each of its calls.\<close>

type_synonym iteration = "(string \<times> nat) list \<Rightarrow> (string \<times> nat) list"

definition each :: "iteration \<Rightarrow> (nat \<Rightarrow> World \<Rightarrow> World) \<Rightarrow> World \<Rightarrow> World" where
  "each it f w = fold (\<lambda>(_, r). f r) (it (wReg w)) w"

definition iterates :: "iteration \<Rightarrow> bool" where
  "iterates it = (\<forall>m. set (it m) = set m)"

definition ActiveCalls :: "World \<Rightarrow> nat" where
  "ActiveCalls w = length (wReg w)"

definition callLegs :: "Call \<Rightarrow> nat" where
  "callLegs c = 1 + length (appLegs c) + (case pbxLeg c of None \<Rightarrow> 0 | Some _ \<Rightarrow> 1)"

definition ActiveLegs :: "World \<Rightarrow> nat" where
  "ActiveLegs w = sum_list (map (\<lambda>(_, r). callLegs (wCalls w ! r)) (wReg w))"

section \<open>Registration and release of media\<close>

definition tapPairs :: "MediaSession \<Rightarrow> PortPair list" where
  "tapPairs m = concat (map (\<lambda>t. [callerPair t, calleePair t]) (taps m))"

text \<open>mediaReleaser: close the session, give back the fixed pairs, then those of its taps.\<close>

definition runRelease :: "nat \<Rightarrow> PortPair list \<Rightarrow> World \<Rightarrow> World" where
  "runRelease r fixed w = (case media (wCalls w ! r) of
       None \<Rightarrow> w\<lparr>wPorts := fold Release fixed (wPorts w)\<rparr>
     | Some m \<Rightarrow>
         (let (m', h) = closeSession m (wHandles w) in
          updCall r (\<lambda>c. c\<lparr>media := Some m'\<rparr>)
            (w\<lparr>wHandles := h, wPorts := fold Release (fixed @ tapPairs m) (wPorts w)\<rparr>)))"

definition releasePendingTaps :: "nat \<Rightarrow> World \<Rightarrow> World" where
  "releasePendingTaps r w =
     (let pts = pendingTaps (wCalls w ! r);
          w1 = updCall r (\<lambda>c. c\<lparr>pendingTaps := []\<rparr>) w
      in w1\<lparr>wHandles := fold (\<lambda>pt. closeTap (ptTap pt)) pts (wHandles w1),
            wPorts := fold (\<lambda>pt p. Release (ptCallee pt) (Release (ptCaller pt) p)) pts (wPorts w1)\<rparr>)"

definition detachInbound :: "nat \<Rightarrow> World \<Rightarrow> World" where
  "detachInbound r w = updCall r (\<lambda>c. c\<lparr>inboundDetached := True\<rparr>) w"

definition inboundTeardownSuppressed :: "nat \<Rightarrow> World \<Rightarrow> bool" where
  "inboundTeardownSuppressed r w = inboundDetached (wCalls w ! r)"

section \<open>Teardown\<close>

definition byes :: "nat \<Rightarrow> Call \<Rightarrow> Event list" where
  "byes r c = (if callState c = stateEstablished then [EvByeInbound r] else [])
     @ map (\<lambda>leg. EvBye r (legSession leg)) (appLegs c)
     @ (case pbxLeg c of None \<Rightarrow> [] | Some leg \<Rightarrow> [EvBye r (legSession leg)])
     @ (case transferTarget c of None \<Rightarrow> [] | Some s \<Rightarrow> [EvBye r s])"

definition teardown :: "nat \<Rightarrow> World \<Rightarrow> World" where
  "teardown r w =
     (let c = wCalls w ! r in
      if r < length (wCalls w) \<and> canTransition (callState c) stateTearingDown then
        (let w1 = updCall r (\<lambda>c. c\<lparr>callState := stateTearingDown, cancelled := True\<rparr>) w;
             w2 = (case releaseMedia c of None \<Rightarrow> w1 | Some fixed \<Rightarrow> runRelease r fixed w1);
             w3 = regRemove (callId c) (inboundID c) w2
         in addTrace (byes r c) w3)
      else w)"

text \<open>The hook the inbound dialog runs when it ends (handleInvite).\<close>

definition inboundDialogEnded :: "nat \<Rightarrow> World \<Rightarrow> World" where
  "inboundDialogEnded r w = (if inboundTeardownSuppressed r w then w else teardown r w)"

section \<open>Idle sweep\<close>

definition reaperMaxInterval :: int where "reaperMaxInterval = 30 * second"

text \<open>The ticker's interval; a ticker panics on one that is not positive.\<close>

definition reaperInterval :: "int \<Rightarrow> int" where
  "reaperInterval idleTimeout = (let interval = idleTimeout div 2 in
     if interval > reaperMaxInterval then reaperMaxInterval else interval)"

definition idleExpired :: "int \<Rightarrow> int \<Rightarrow> Call \<Rightarrow> bool" where
  "idleExpired now timeout c =
     (case media c of
        None \<Rightarrow> False
      | Some m \<Rightarrow> callState c = stateEstablished \<and> idleFor now m > timeout)"

text \<open>One sweep over the calls.\<close>

definition sweep :: "iteration \<Rightarrow> int \<Rightarrow> int \<Rightarrow> World \<Rightarrow> World" where
  "sweep it now timeout = each it (\<lambda>r w. if idleExpired now timeout (wCalls w ! r) then teardown r w else w)"

end
