(* ===== verification/Bridge.thy ===== *)
theory Bridge
  imports CallWorld
begin

text \<open>
  The set-up of a call, internal/b2bua/bridge.go: the application chain, the anchoring of the
  media, the PBX leg, the answer, and the failure paths, as operations of the state monad in
  the order the code performs them. What the environment answers is a function of the tick at
  which it is asked (\<open>Env\<close>); before each operation that takes a lock or blocks, the other
  goroutines make the moves the environment gives for that tick.
\<close>

section \<open>Environment\<close>

text \<open>Moves of other goroutines: a teardown of some call, another call acquiring a pair, another
  call giving one back.\<close>

datatype Interf = ITeardown nat | IAcquire | IRelease nat

text \<open>What WaitAnswer ends with.\<close>

datatype LegResult = Answered Response | Rejected Response | LegError

record Env =
  lib :: SipLib
  cfg :: Config
  mediaHost :: string
  mediaPublicAddr :: string
  legTimeout :: int
  interf :: "nat \<Rightarrow> Interf list"
  osBind :: "nat \<Rightarrow> string \<Rightarrow> BindResult"
  inviteOk :: "nat \<Rightarrow> bool"
  waitResult :: "nat \<Rightarrow> Response list \<times> LegResult"
  respondOk :: "nat \<Rightarrow> bool"
  webrtc :: "nat \<Rightarrow> string \<Rightarrow> string \<Rightarrow> WebRTCResult"
  newLegID :: "nat \<Rightarrow> string"

fun applyInterf :: "Interf \<Rightarrow> World \<Rightarrow> World" where
  "applyInterf (ITeardown r) w = teardown r w"
| "applyInterf IAcquire w = (case Acquire (wPorts w) of
     (None, _) \<Rightarrow> w | (Some q, p) \<Rightarrow> w\<lparr>wPorts := p, wOthers := q # wOthers w\<rparr>)"
| "applyInterf (IRelease i) w =
     (if i < length (wOthers w)
      then w\<lparr>wPorts := Release (wOthers w ! i) (wPorts w),
             wOthers := take i (wOthers w) @ drop (Suc i) (wOthers w)\<rparr>
      else w)"

type_synonym 'a op = "(World, 'a) state"

text \<open>The point before an operation: the others move, and the operation gets its tick.\<close>

definition sync :: "Env \<Rightarrow> nat op" where
  "sync E = do {
     t \<leftarrow> gets_st wTick;
     _ \<leftarrow> modify_st (\<lambda>w. (fold applyInterf (interf E t) w)\<lparr>wTick := Suc t\<rparr>);
     State_Monad.return t
   }"

definition getCall :: "nat \<Rightarrow> Call op" where
  "getCall r = gets_st (\<lambda>w. wCalls w ! r)"

definition emit :: "Event list \<Rightarrow> unit op" where
  "emit es = modify_st (addTrace es)"

section \<open>Single operations\<close>

definition respond :: "Env \<Rightarrow> nat \<Rightarrow> int \<Rightarrow> string \<Rightarrow> string \<Rightarrow> Header list \<Rightarrow> bool op" where
  "respond E r status reason body hdrs = do {
     t \<leftarrow> sync E;
     _ \<leftarrow> emit [EvRespond r status reason body hdrs (respondOk E t)];
     State_Monad.return (respondOk E t)
   }"

definition acquire :: "Env \<Rightarrow> PortPair option op" where
  "acquire E = do {
     _ \<leftarrow> sync E;
     q \<leftarrow> gets_st (\<lambda>w. fst (Acquire (wPorts w)));
     _ \<leftarrow> modify_st (\<lambda>w. w\<lparr>wPorts := snd (Acquire (wPorts w))\<rparr>);
     State_Monad.return q
   }"

definition releasePairs :: "PortPair list \<Rightarrow> unit op" where
  "releasePairs qs = modify_st (\<lambda>w. w\<lparr>wPorts := fold Release qs (wPorts w)\<rparr>)"

definition bindSide :: "Env \<Rightarrow> PortPair \<Rightarrow> AnchorSide option op" where
  "bindSide E p = do {
     t \<leftarrow> sync E;
     s \<leftarrow> gets_st (\<lambda>w. fst (newAnchorSide (osBind E t) (mediaHost E) p (wHandles w)));
     _ \<leftarrow> modify_st (\<lambda>w. w\<lparr>wHandles := snd (newAnchorSide (osBind E t) (mediaHost E) p (wHandles w))\<rparr>);
     State_Monad.return (case s of Inl _ \<Rightarrow> None | Inr side \<Rightarrow> Some side)
   }"

definition closeSides :: "AnchorSide list \<Rightarrow> unit op" where
  "closeSides ss = modify_st (\<lambda>w. w\<lparr>wHandles := fold closeSide ss (wHandles w)\<rparr>)"

text \<open>registerMedia: under the call lock, unless the call is tearing down.\<close>

definition registerMedia :: "Env \<Rightarrow> nat \<Rightarrow> (Call \<Rightarrow> Call) \<Rightarrow> bool op" where
  "registerMedia E r f = do {
     _ \<leftarrow> sync E;
     c \<leftarrow> getCall r;
     if callState c = stateTearingDown then State_Monad.return False
     else do {
       _ \<leftarrow> modify_st (updCall r f);
       State_Monad.return True
     }
   }"

text \<open>An update of the call's fields under its lock.\<close>

definition locked :: "Env \<Rightarrow> nat \<Rightarrow> (Call \<Rightarrow> Call) \<Rightarrow> unit op" where
  "locked E r f = do {
     _ \<leftarrow> sync E;
     modify_st (updCall r f)
   }"

definition isFinal :: "int \<Rightarrow> bool" where "isFinal s = (200 \<le> s)"

section \<open>Failing\<close>

definition fail :: "Env \<Rightarrow> nat \<Rightarrow> int \<Rightarrow> string \<Rightarrow> unit op" where
  "fail E r status reason = do {
     _ \<leftarrow> respond E r status reason [] [];
     _ \<leftarrow> modify_st (releasePendingTaps r);
     modify_st (teardown r)
   }"

definition respondInboundFromLegError :: "Env \<Rightarrow> nat \<Rightarrow> LegResult \<Rightarrow> unit op" where
  "respondInboundFromLegError E r err = do {
     _ \<leftarrow> (case err of
         Rejected res \<Rightarrow> respond E r (mapFailureStatus failureReject (resStatus res)) (resReason res)
           (resBody res) (relayableResponseHeaders (lib E) res (resBody res))
       | _ \<Rightarrow> respond E r (mapFailureStatus failureTimeout 0) ''Service Unavailable'' [] []);
     _ \<leftarrow> modify_st (releasePendingTaps r);
     modify_st (teardown r)
   }"

section \<open>Legs\<close>

text \<open>dialContext: the deadline of the connect, when the profile sets one.\<close>

definition dialContext :: "ResolvedTLSProfile option \<Rightarrow> int list" where
  "dialContext rp = (case rp of
       None \<Rightarrow> [] | Some p \<Rightarrow> if rpConnectTimeout p > 0 then [rpConnectTimeout p] else [])"

definition dialerFor ::
  "SipLib \<Rightarrow> Uri \<Rightarrow> Transport \<Rightarrow> string \<Rightarrow> ResolvedTLSProfile option \<Rightarrow> string \<Rightarrow> Dialer \<times> Uri \<times> int list" where
  "dialerFor L uri transport tlsProfile resolved plainTransport =
     (if transport = TransportTLS then (TLSDialer tlsProfile, AddTransport L uri ''tls'', dialContext resolved)
      else (PlainDialer, if plainTransport \<noteq> [] then AddTransport L uri plainTransport else uri, []))"

text \<open>The header a leg gets besides those of the caller.\<close>

definition legHeaders :: "SipLib \<Rightarrow> Call \<Rightarrow> string \<Rightarrow> Header list" where
  "legHeaders L c lid = forwardHeaders L c
     @ [NewHeader L ''X-Sequencer-Call-Id'' (callId c), NewHeader L ''X-Sequencer-Leg-Id'' lid]"

text \<open>Invite gives a session, named by its tick, or fails.\<close>

definition invite ::
  "Env \<Rightarrow> nat \<Rightarrow> LegRole \<Rightarrow> Dialer \<times> Uri \<times> int list \<Rightarrow> int list \<Rightarrow> string \<Rightarrow> Header list \<Rightarrow> nat option op" where
  "invite E r role d bounds body hdrs = do {
     t \<leftarrow> sync E;
     _ \<leftarrow> emit [EvInvite r role (fst d) (fst (snd d)) body hdrs (bounds @ snd (snd d))];
     State_Monad.return (if inviteOk E t then Some t else None)
   }"

fun relayProvisional :: "Env \<Rightarrow> nat \<Rightarrow> Response list \<Rightarrow> unit op" where
  "relayProvisional E r [] = State_Monad.return ()"
| "relayProvisional E r (res # rs) =
     (if IsProvisional (lib E) (resStatus res) \<and> resStatus res \<noteq> 100 then do {
        _ \<leftarrow> respond E r (resStatus res) (resReason res) (resBody res)
             (relayableResponseHeaders (lib E) res (resBody res));
        relayProvisional E r rs
      } else relayProvisional E r rs)"

definition waitAnswer :: "Env \<Rightarrow> nat \<Rightarrow> nat \<Rightarrow> int \<Rightarrow> LegResult op" where
  "waitAnswer E r sess bound = do {
     t \<leftarrow> sync E;
     _ \<leftarrow> emit [EvWait r sess bound];
     _ \<leftarrow> relayProvisional E r (fst (waitResult E t));
     _ \<leftarrow> sync E;
     State_Monad.return (snd (waitResult E t))
   }"

definition ack :: "Env \<Rightarrow> nat \<Rightarrow> nat \<Rightarrow> unit op" where
  "ack E r sess = do {
     _ \<leftarrow> sync E;
     emit [EvAck r sess]
   }"

section \<open>Taps\<close>

record TapResources =
  trCallerPair :: PortPair
  trCalleePair :: PortPair
  trCallerSide :: AnchorSide
  trCalleeSide :: AnchorSide

datatype TapError = errTapExhausted | errTapBind

definition releaseTap :: "TapResources \<Rightarrow> unit op" where
  "releaseTap t = do {
     _ \<leftarrow> closeSides [trCallerSide t, trCalleeSide t];
     releasePairs [trCallerPair t, trCalleePair t]
   }"

definition acquireTap :: "Env \<Rightarrow> (TapError + TapResources) op" where
  "acquireTap E = do {
     q1 \<leftarrow> acquire E;
     (case q1 of
        None \<Rightarrow> State_Monad.return (Inl errTapExhausted)
      | Some callerP \<Rightarrow> do {
          q2 \<leftarrow> acquire E;
          (case q2 of
             None \<Rightarrow> do {
               _ \<leftarrow> releasePairs [callerP];
               State_Monad.return (Inl errTapExhausted)
             }
           | Some calleeP \<Rightarrow> do {
               s1 \<leftarrow> bindSide E callerP;
               (case s1 of
                  None \<Rightarrow> do {
                    _ \<leftarrow> releasePairs [callerP, calleeP];
                    State_Monad.return (Inl errTapBind)
                  }
                | Some callerS \<Rightarrow> do {
                    s2 \<leftarrow> bindSide E calleeP;
                    (case s2 of
                       None \<Rightarrow> do {
                         _ \<leftarrow> closeSides [callerS];
                         _ \<leftarrow> releasePairs [callerP, calleeP];
                         State_Monad.return (Inl errTapBind)
                       }
                     | Some calleeS \<Rightarrow> State_Monad.return (Inr \<lparr>trCallerPair = callerP,
                         trCalleePair = calleeP, trCallerSide = callerS, trCalleeSide = calleeS\<rparr>))
                  })
             })
        })
   }"

text \<open>The pending tap of an application that answered with two streams; a stream whose host is
  not a literal or whose port is not positive gets no remote.\<close>

definition tapRemote :: "string \<Rightarrow> int \<Rightarrow> AnchorSide \<Rightarrow> AnchorSide" where
  "tapRemote h p s = (case ParseIP h of
       None \<Rightarrow> s
     | Some ip \<Rightarrow> if p > 0 then setRemote (Some \<lparr>addrIP = ip, addrPort = p\<rparr>) None s else s)"

definition stashedTap :: "string \<Rightarrow> TapResources \<Rightarrow> string \<times> int \<times> string \<times> int \<Rightarrow> PendingTap" where
  "stashedTap name t ends = (case ends of (h1, p1, h2, p2) \<Rightarrow>
     \<lparr>ptTap = \<lparr>tapApp = name, callerStream = tapRemote h1 p1 (trCallerSide t),
               calleeStream = tapRemote h2 p2 (trCalleeSide t),
               callerPair = trCallerPair t, calleePair = trCalleePair t\<rparr>,
      ptCaller = trCallerPair t, ptCallee = trCalleePair t\<rparr>)"

section \<open>The application chain\<close>

definition appLegFailed :: "Application \<Rightarrow> TapResources option \<Rightarrow> bool op" where
  "appLegFailed app tap = do {
     _ \<leftarrow> (case tap of None \<Rightarrow> State_Monad.return () | Some t \<Rightarrow> releaseTap t);
     _ \<leftarrow> emit [EvAppFailure (appName app)];
     State_Monad.return (failureAction (appOnFailure app) = actionAbort)
   }"

text \<open>What follows a leg's 2xx: the tap is stashed, or released when the answer does not parse,
  and the leg is recorded either way.\<close>

definition appAnswered :: "Env \<Rightarrow> nat \<Rightarrow> Application \<Rightarrow> TapResources option \<Rightarrow> string \<Rightarrow> nat \<Rightarrow> Response \<Rightarrow> unit op" where
  "appAnswered E r app tap lid sess res = do {
     _ \<leftarrow> ack E r sess;
     _ \<leftarrow> (case tap of
         None \<Rightarrow> State_Monad.return ()
       | Some t \<Rightarrow> (case parseTapAnswer (resBody res) of
             Inl _ \<Rightarrow> releaseTap t
           | Inr ends \<Rightarrow> locked E r (\<lambda>c. c\<lparr>pendingTaps := pendingTaps c @ [stashedTap (appName app) t ends]\<rparr>)));
     _ \<leftarrow> locked E r (\<lambda>c. c\<lparr>appLegs := appLegs c @ [\<lparr>legRole = roleApplication, legTarget = appURI app,
            legID = lid, legSession = sess, legAnswer = resBody res\<rparr>]\<rparr>);
     emit [EvAppInvocation (appName app)]
   }"

definition appLeg :: "Env \<Rightarrow> nat \<Rightarrow> Application \<Rightarrow> Uri \<Rightarrow> string \<Rightarrow> TapResources option \<Rightarrow> bool op" where
  "appLeg E r app uri body tap = do {
     c \<leftarrow> getCall r;
     t \<leftarrow> gets_st wTick;
     sess \<leftarrow> invite E r roleApplication
       (dialerFor (lib E) uri (appTransport app) (appTLSProfile app) (appResolved app) ''tcp'')
       [effectiveTimeout app (legTimeout E)] body (legHeaders (lib E) c (newLegID E t));
     (case sess of
        None \<Rightarrow> do {
          abort \<leftarrow> appLegFailed app tap;
          if abort then do {
            _ \<leftarrow> fail E r 503 ''Service Unavailable'';
            State_Monad.return False
          } else State_Monad.return True
        }
      | Some s \<Rightarrow> do {
          a \<leftarrow> waitAnswer E r s (effectiveTimeout app (legTimeout E));
          (case a of
             Answered res \<Rightarrow> do {
               _ \<leftarrow> appAnswered E r app tap (newLegID E t) s res;
               State_Monad.return True
             }
           | _ \<Rightarrow> do {
               abort \<leftarrow> appLegFailed app tap;
               if abort then do {
                 _ \<leftarrow> respondInboundFromLegError E r a;
                 State_Monad.return False
               } else State_Monad.return True
             })
        })
   }"

definition appStep :: "Env \<Rightarrow> nat \<Rightarrow> Application \<Rightarrow> bool op" where
  "appStep E r app = do {
     c \<leftarrow> getCall r;
     if \<not> Matches (appRoutingRe app) (routing c) then State_Monad.return True
     else (case ParseUri (lib E) (appURI app) of
        None \<Rightarrow> do {
          _ \<leftarrow> fail E r 500 ''Server Error'';
          State_Monad.return False
        }
      | Some uri \<Rightarrow>
          if appMedia app = MediaTap then do {
            t \<leftarrow> acquireTap E;
            (case t of
               Inl e \<Rightarrow> do {
                 _ \<leftarrow> emit [EvAppFailure (appName app)];
                 if failureAction (appOnFailure app) = actionAbort then do {
                   _ \<leftarrow> (if e = errTapExhausted then fail E r 503 ''Service Unavailable''
                        else fail E r 500 ''Server Error'');
                   State_Monad.return False
                 } else State_Monad.return True
               }
             | Inr tap \<Rightarrow>
                 (case buildTapOffer (offerSDP c) (mediaHost E) (RTP (trCallerPair tap)) (RTP (trCalleePair tap)) of
                    Inl _ \<Rightarrow> do {
                      _ \<leftarrow> releaseTap tap;
                      _ \<leftarrow> fail E r 500 ''Server Error'';
                      State_Monad.return False
                    }
                  | Inr body \<Rightarrow> appLeg E r app uri body (Some tap)))
          } else
            (case buildInactiveOffer (offerSDP c) (mediaHost E) of
               Inl _ \<Rightarrow> do {
                 _ \<leftarrow> fail E r 500 ''Server Error'';
                 State_Monad.return False
               }
             | Inr body \<Rightarrow> appLeg E r app uri body None))
   }"

fun appChain :: "Env \<Rightarrow> nat \<Rightarrow> Application list \<Rightarrow> bool op" where
  "appChain E r [] = State_Monad.return True"
| "appChain E r (app # apps) = do {
     ok \<leftarrow> appStep E r app;
     if ok then appChain E r apps else State_Monad.return False
   }"

definition runAppChain :: "Env \<Rightarrow> nat \<Rightarrow> bool op" where
  "runAppChain E r = appChain E r (cfgSequence (cfg E))"

section \<open>Anchoring\<close>

text \<open>The anchored state the PBX phase needs; the session itself is the call's \<open>media\<close>.\<close>

datatype MediaAnchor = PlainAnchor PortPair PortPair | SecuredAnchor SecuredLeg

text \<open>The release hook run on a session that was never registered.\<close>

definition releaseUnregistered :: "MediaSession \<Rightarrow> PortPair list \<Rightarrow> unit op" where
  "releaseUnregistered m fixed = do {
     _ \<leftarrow> modify_st (\<lambda>w. w\<lparr>wHandles := snd (closeSession m (wHandles w))\<rparr>);
     releasePairs (fixed @ tapPairs m)
   }"

definition failWith :: "Env \<Rightarrow> nat \<Rightarrow> int \<Rightarrow> string \<Rightarrow> 'a option op" where
  "failWith E r status reason = do {
     _ \<leftarrow> fail E r status reason;
     State_Monad.return None
   }"

definition register :: "MediaSession \<Rightarrow> PortPair list \<Rightarrow> Call \<Rightarrow> Call" where
  "register m fixed c = c\<lparr>media := Some m, releaseMedia := Some fixed\<rparr>"

definition anchorWebRTC :: "Env \<Rightarrow> nat \<Rightarrow> MediaAnchor option op" where
  "anchorWebRTC E r = do {
     c \<leftarrow> getCall r;
     t \<leftarrow> sync E;
     leg \<leftarrow> gets_st (\<lambda>w. fst (newSecuredLeg (webrtc E t) (mediaPublicAddr E) (offerSDP c) (wHandles w)));
     _ \<leftarrow> modify_st (\<lambda>w. w\<lparr>wHandles :=
            snd (newSecuredLeg (webrtc E t) (mediaPublicAddr E) (offerSDP c) (wHandles w))\<rparr>);
     (case leg of
        None \<Rightarrow> failWith E r 488 ''Not Acceptable Here''
      | Some l \<Rightarrow> do {
          ok \<leftarrow> registerMedia E r (register (newMediaSession None None (Some l)) []);
          if ok then State_Monad.return (Some (SecuredAnchor l))
          else do {
            _ \<leftarrow> releaseUnregistered (newMediaSession None None (Some l)) [];
            State_Monad.return None
          }
        })
   }"

definition anchorPlain :: "Env \<Rightarrow> nat \<Rightarrow> string \<Rightarrow> int \<Rightarrow> MediaAnchor option op" where
  "anchorPlain E r epHost epPort = do {
     q1 \<leftarrow> acquire E;
     (case q1 of
        None \<Rightarrow> failWith E r 503 ''Service Unavailable''
      | Some epP \<Rightarrow> do {
          q2 \<leftarrow> acquire E;
          (case q2 of
             None \<Rightarrow> do {
               _ \<leftarrow> releasePairs [epP];
               failWith E r 503 ''Service Unavailable''
             }
           | Some pbxP \<Rightarrow> do {
               s1 \<leftarrow> bindSide E epP;
               (case s1 of
                  None \<Rightarrow> do {
                    _ \<leftarrow> releasePairs [epP, pbxP];
                    failWith E r 500 ''Server Error''
                  }
                | Some epS \<Rightarrow> do {
                    s2 \<leftarrow> bindSide E pbxP;
                    (case s2 of
                       None \<Rightarrow> do {
                         _ \<leftarrow> closeSides [epS];
                         _ \<leftarrow> releasePairs [epP, pbxP];
                         failWith E r 500 ''Server Error''
                       }
                     | Some pbxS \<Rightarrow>
                         (let (rtp, rtcp) = udpAddrPair epHost epPort;
                              m = newMediaSession (Some (setRemote (Some rtp) (Some rtcp) epS)) (Some pbxS) None
                          in do {
                            ok \<leftarrow> registerMedia E r (register m [epP, pbxP]);
                            if ok then State_Monad.return (Some (PlainAnchor epP pbxP))
                            else do {
                              _ \<leftarrow> releaseUnregistered m [epP, pbxP];
                              State_Monad.return None
                            }
                          }))
                  })
             })
        })
   }"

definition anchorMedia :: "Env \<Rightarrow> nat \<Rightarrow> MediaAnchor option op" where
  "anchorMedia E r = do {
     c \<leftarrow> getCall r;
     if offerIsWebRTC (offerSDP c) then anchorWebRTC E r
     else (case parseMedia (offerSDP c) of
        Inl _ \<Rightarrow> failWith E r 488 ''Not Acceptable Here''
      | Inr (epHost, epPort) \<Rightarrow> anchorPlain E r epHost epPort)
   }"

section \<open>The PBX leg\<close>

definition hopFailed :: "Env \<Rightarrow> nat \<Rightarrow> int \<Rightarrow> string \<Rightarrow> 'a option op" where
  "hopFailed E r status reason = do {
     _ \<leftarrow> emit [EvTerminatingHopFailure];
     failWith E r status reason
   }"

definition originatePBX :: "Env \<Rightarrow> nat \<Rightarrow> string \<Rightarrow> Response option op" where
  "originatePBX E r offer =
     (let hop = cfgNextHop (cfg E) in
      case ParseUri (lib E) (nhURI hop) of
        None \<Rightarrow> failWith E r 500 ''Server Error''
      | Some uri \<Rightarrow> do {
          c \<leftarrow> getCall r;
          t \<leftarrow> gets_st wTick;
          sess \<leftarrow> invite E r rolePBX
            (dialerFor (lib E) uri (nhTransport hop) (nhTLSProfile hop) (nhResolved hop)
               (if nhTransport hop = TransportTCP then ''tcp'' else []))
            [] offer (legHeaders (lib E) c (newLegID E t));
          (case sess of
             None \<Rightarrow> hopFailed E r 503 ''Service Unavailable''
           | Some s \<Rightarrow> do {
               _ \<leftarrow> locked E r (\<lambda>c. c\<lparr>pbxLeg := Some \<lparr>legRole = rolePBX, legTarget = nhURI hop,
                      legID = newLegID E t, legSession = s, legAnswer = []\<rparr>\<rparr>);
               a \<leftarrow> waitAnswer E r s (legTimeout E);
               (case a of
                  Answered res \<Rightarrow> do {
                    _ \<leftarrow> ack E r s;
                    _ \<leftarrow> locked E r (\<lambda>c. c\<lparr>pbxLeg := map_option (\<lambda>l. l\<lparr>legAnswer := resBody res\<rparr>) (pbxLeg c)\<rparr>);
                    State_Monad.return (Some res)
                  }
                | _ \<Rightarrow> do {
                    _ \<leftarrow> emit [EvTerminatingHopFailure];
                    _ \<leftarrow> respondInboundFromLegError E r a;
                    State_Monad.return None
                  })
             })
        })"

text \<open>reportCodecAgreement counts a mismatch and never changes the call.\<close>

definition reportCodecAgreement :: "string \<Rightarrow> string \<Rightarrow> unit op" where
  "reportCodecAgreement endpointSDP pbxSDP = (case selectedAudioCodec endpointSDP of
       Inl _ \<Rightarrow> State_Monad.return ()
     | Inr ep \<Rightarrow> (case selectedAudioCodec pbxSDP of
           Inl _ \<Rightarrow> State_Monad.return ()
         | Inr pbx \<Rightarrow> if codecsMatch ep pbx then State_Monad.return ()
                      else emit [EvMediaCodecMismatch (Label ep) (Label pbx)]))"

text \<open>Under the lock: established if that is a legal move, and the stashed taps go to the
  session.\<close>

definition establish :: "Call \<Rightarrow> Call" where
  "establish c = (let c1 = (if canTransition (callState c) stateEstablished
                            then c\<lparr>callState := stateEstablished\<rparr> else c)
     in c1\<lparr>media := map_option (fold addTap (map ptTap (pendingTaps c1))) (media c1), pendingTaps := []\<rparr>)"

definition answerEndpoint :: "Env \<Rightarrow> nat \<Rightarrow> string \<Rightarrow> Header list \<Rightarrow> bool op" where
  "answerEndpoint E r sdp hdrs = do {
     _ \<leftarrow> locked E r establish;
     ok \<leftarrow> respond E r 200 ''OK'' sdp hdrs;
     if ok then do {
       _ \<leftarrow> emit [EvSequencingLatency];
       State_Monad.return True
     } else do {
       _ \<leftarrow> modify_st (releasePendingTaps r);
       _ \<leftarrow> modify_st (teardown r);
       State_Monad.return False
     }
   }"

definition setPBXRemote :: "string \<Rightarrow> int \<Rightarrow> Call \<Rightarrow> Call" where
  "setPBXRemote host port c = (let (rtp, rtcp) = udpAddrPair host port in
     c\<lparr>media := map_option (\<lambda>m. m\<lparr>pbxSide := map_option (setRemote (Some rtp) (Some rtcp)) (pbxSide m)\<rparr>) (media c)\<rparr>)"

definition failFalse :: "Env \<Rightarrow> nat \<Rightarrow> int \<Rightarrow> string \<Rightarrow> bool op" where
  "failFalse E r status reason = do {
     _ \<leftarrow> fail E r status reason;
     State_Monad.return False
   }"

definition dialPBX :: "Env \<Rightarrow> nat \<Rightarrow> PortPair \<Rightarrow> PortPair \<Rightarrow> bool op" where
  "dialPBX E r epP pbxP = do {
     c \<leftarrow> getCall r;
     (case rewriteToAnchor (offerSDP c) (mediaHost E) (RTP pbxP) of
        Inl _ \<Rightarrow> failFalse E r 500 ''Server Error''
      | Inr offer \<Rightarrow> do {
          ans \<leftarrow> originatePBX E r offer;
          (case ans of
             None \<Rightarrow> State_Monad.return False
           | Some res \<Rightarrow>
               (case parseMedia (resBody res) of
                  Inl _ \<Rightarrow> do {
                    _ \<leftarrow> emit [EvTerminatingHopFailure];
                    failFalse E r 488 ''Not Acceptable Here''
                  }
                | Inr (pbxHost, pbxPort) \<Rightarrow> do {
                    _ \<leftarrow> locked E r (setPBXRemote pbxHost pbxPort);
                    (case rewriteToAnchor (resBody res) (mediaHost E) (RTP epP) of
                       Inl _ \<Rightarrow> failFalse E r 500 ''Server Error''
                     | Inr epAnswer \<Rightarrow> do {
                         _ \<leftarrow> reportCodecAgreement epAnswer (resBody res);
                         answerEndpoint E r epAnswer (relayableResponseHeaders (lib E) res epAnswer)
                       })
                  }))
        })
   }"

definition bridgeSecuredToPBX :: "Env \<Rightarrow> nat \<Rightarrow> SecuredLeg \<Rightarrow> bool op" where
  "bridgeSecuredToPBX E r leg = do {
     q \<leftarrow> acquire E;
     (case q of
        None \<Rightarrow> failFalse E r 503 ''Service Unavailable''
      | Some pbxP \<Rightarrow> do {
          s \<leftarrow> bindSide E pbxP;
          (case s of
             None \<Rightarrow> do {
               _ \<leftarrow> releasePairs [pbxP];
               failFalse E r 500 ''Server Error''
             }
           | Some pbxS \<Rightarrow> do {
               ok \<leftarrow> registerMedia E r (\<lambda>c. c\<lparr>media := map_option (\<lambda>m. m\<lparr>pbxSide := Some pbxS\<rparr>) (media c),
                                              releaseMedia := Some [pbxP]\<rparr>);
               if \<not> ok then do {
                 _ \<leftarrow> closeSides [pbxS];
                 _ \<leftarrow> releasePairs [pbxP];
                 State_Monad.return False
               } else do {
                 c \<leftarrow> getCall r;
                 (case buildPlainOfferFromWebRTC (offerSDP c) (mediaHost E) (RTP pbxP) of
                    Inl _ \<Rightarrow> failFalse E r 500 ''Server Error''
                  | Inr offer \<Rightarrow> do {
                      ans \<leftarrow> originatePBX E r offer;
                      (case ans of
                         None \<Rightarrow> State_Monad.return False
                       | Some res \<Rightarrow>
                           (case parseMedia (resBody res) of
                              Inl _ \<Rightarrow> do {
                                _ \<leftarrow> emit [EvTerminatingHopFailure];
                                failFalse E r 488 ''Not Acceptable Here''
                              }
                            | Inr (pbxHost, pbxPort) \<Rightarrow> do {
                                _ \<leftarrow> locked E r (setPBXRemote pbxHost pbxPort);
                                _ \<leftarrow> reportCodecAgreement (answerSDP leg) (resBody res);
                                answerEndpoint E r (answerSDP leg) []
                              }))
                    })
               }
             })
        })
   }"

text \<open>bridge: the phases in order, then the relay. The result says whether the call is up.\<close>

definition bridge :: "Env \<Rightarrow> nat \<Rightarrow> bool op" where
  "bridge E r = do {
     chain \<leftarrow> runAppChain E r;
     if \<not> chain then State_Monad.return False
     else do {
       a \<leftarrow> anchorMedia E r;
       (case a of
          None \<Rightarrow> State_Monad.return False
        | Some (SecuredAnchor leg) \<Rightarrow> do {
            up \<leftarrow> bridgeSecuredToPBX E r leg;
            _ \<leftarrow> (if up then emit [EvRelay r] else State_Monad.return ());
            State_Monad.return up
          }
        | Some (PlainAnchor epP pbxP) \<Rightarrow> do {
            up \<leftarrow> dialPBX E r epP pbxP;
            _ \<leftarrow> (if up then emit [EvRelay r] else State_Monad.return ());
            State_Monad.return up
          })
     }
   }"

end
