(* ===== verification/Accounting.thy ===== *)
theory Accounting
  imports Bridge
begin

text \<open>
  Who holds which port pair. A call holds the pairs of its pending taps and, until it is torn
  down, those its release hook will give back; \<open>acct F L w\<close> says that the pairs the allocator
  counts as outstanding are those the calls and the other goroutines hold, those in local
  variables (\<open>F\<close>) and those nobody will give back any more (\<open>L\<close>). Every operation of the set-up
  is shown to keep the books.
\<close>

section \<open>The books\<close>

definition ptPairs :: "PendingTap list \<Rightarrow> PortPair list" where
  "ptPairs pts = concat (map (\<lambda>pt. [ptCaller pt, ptCallee pt]) pts)"

definition mediaTapPairs :: "MediaSession option \<Rightarrow> PortPair list" where
  "mediaTapPairs m = (case m of None \<Rightarrow> [] | Some m \<Rightarrow> tapPairs m)"

definition hookPairs :: "Call \<Rightarrow> PortPair list" where
  "hookPairs c = (case releaseMedia c of None \<Rightarrow> [] | Some fixed \<Rightarrow> fixed @ mediaTapPairs (media c))"

definition callHeld :: "Call \<Rightarrow> PortPair multiset" where
  "callHeld c = mset (ptPairs (pendingTaps c))
     + (if callState c = stateTearingDown then {#} else mset (hookPairs c))"

definition held :: "World \<Rightarrow> PortPair multiset" where
  "held w = sum_list (map callHeld (wCalls w)) + mset (wOthers w)"

definition ptOk :: "Call \<Rightarrow> bool" where
  "ptOk c = (\<forall>pt \<in> set (pendingTaps c). ptCaller pt = callerPair (ptTap pt) \<and> ptCallee pt = calleePair (ptTap pt))"

definition acct :: "PortPair multiset \<Rightarrow> PortPair multiset \<Rightarrow> World \<Rightarrow> bool" where
  "acct F L w = (ports_inv (wPorts w) \<and> outstanding (wPorts w) = F + held w + L \<and> (\<forall>c \<in> set (wCalls w). ptOk c))"

lemma acct_simps [simp]:
  "acct F L (w\<lparr>wTrace := x1\<rparr>) = acct F L w"
  "acct F L (w\<lparr>wTick := x2\<rparr>) = acct F L w"
  "acct F L (w\<lparr>wHandles := x3\<rparr>) = acct F L w"
  "acct F L (w\<lparr>wReg := x4\<rparr>) = acct F L w"
  "acct F L (w\<lparr>wDialogs := x5\<rparr>) = acct F L w"
  by (simp_all add: acct_def held_def)

lemma acct_addTrace [simp]: "acct F L (addTrace es w) = acct F L w"
  by (simp add: addTrace_def)

lemma acct_regRemove [simp]: "acct F L (regRemove a b w) = acct F L w"
  by (simp add: regRemove_def Let_def)

lemma held_updCall:
  assumes "r < length (wCalls w)"
  shows "held (updCall r f w) + callHeld (wCalls w ! r) = held w + callHeld (f (wCalls w ! r))"
  using sum_list_update_comm [OF assms, of callHeld "f (wCalls w ! r)"]
  by (simp add: held_def updCall_def algebra_simps)

lemma acct_updCall:
  assumes "r < length (wCalls w)" "acct F L w" "ptOk (f (wCalls w ! r))"
    and "F + L + callHeld (wCalls w ! r) = F' + L' + callHeld (f (wCalls w ! r))"
  shows "acct F' L' (updCall r f w)"
proof -
  let ?c = "wCalls w ! r"
  have "held (updCall r f w) + callHeld ?c + (F' + L') = held w + (F' + L' + callHeld (f ?c))"
    using held_updCall [OF assms(1), of f] by (simp add: add.assoc add.commute add.left_commute)
  also have "\<dots> = held w + (F + L) + callHeld ?c"
    using assms(4) by (simp add: add.assoc add.commute add.left_commute)
  finally have "held (updCall r f w) + (F' + L') = held w + (F + L)"
    by (simp add: add.assoc add.commute add.left_commute)
  then have "F' + held (updCall r f w) + L' = F + held w + L"
    by (simp add: add.assoc add.commute add.left_commute)
  then show ?thesis
    using assms(1-3) by (auto simp: acct_def updCall_def dest!: set_update_subset_insert [THEN subsetD])
qed

lemma acct_same:
  "\<lbrakk>acct F L w; r < length (wCalls w); callHeld (f (wCalls w ! r)) = callHeld (wCalls w ! r);
    ptOk (wCalls w ! r) \<Longrightarrow> ptOk (f (wCalls w ! r))\<rbrakk> \<Longrightarrow> acct F L (updCall r f w)"
  by (rule acct_updCall) (auto simp: acct_def)

lemma acct_release:
  assumes "acct (F + mset qs) L w"
  shows "acct F L (w\<lparr>wPorts := fold Release qs (wPorts w)\<rparr>)"
proof -
  have "mset qs \<subseteq># outstanding (wPorts w)" using assms by (simp add: acct_def)
  with pool.release_all [of "wPorts w" qs] assms
  have "ports_inv (fold Release qs (wPorts w))"
    "outstanding (fold Release qs (wPorts w)) = F + held w + L"
    by (auto simp: acct_def)
  then show ?thesis using assms by (simp add: acct_def held_def)
qed

lemma acct_acquire:
  assumes "acct F L w"
  shows "case Acquire (wPorts w) of
           (None, p) \<Rightarrow> p = wPorts w
         | (Some q, p) \<Rightarrow> acct (add_mset q F) L (w\<lparr>wPorts := p\<rparr>)"
  using assms Acquire_some [of "wPorts w"] Acquire_none [of "wPorts w"]
  by (auto simp: acct_def held_def split: prod.split option.split)

section \<open>Teardown and pending taps\<close>

lemma wCalls_updCall [simp]: "length (wCalls (updCall r f w)) = length (wCalls w)"
  "r < length (wCalls w) \<Longrightarrow> wCalls (updCall r f w) ! r = f (wCalls w ! r)"
  "r' \<noteq> r \<Longrightarrow> wCalls (updCall r f w) ! r' = wCalls w ! r'"
  "wPorts (updCall r f w) = wPorts w" "wHandles (updCall r f w) = wHandles w"
  "wTrace (updCall r f w) = wTrace w" "wTick (updCall r f w) = wTick w" "wOthers (updCall r f w) = wOthers w"
  by (simp_all add: updCall_def)

lemma tapPairs_close: "closeSession m h = (m', h') \<Longrightarrow> tapPairs m' = tapPairs m"
  by (auto simp: closeSession_def tapPairs_def Let_def split: if_splits)

lemma acct_runRelease:
  assumes "r < length (wCalls w)" "callState (wCalls w ! r) = stateTearingDown"
    "acct (F + mset (fixed @ mediaTapPairs (media (wCalls w ! r)))) L w"
  shows "acct F L (runRelease r fixed w)"
proof (cases "media (wCalls w ! r)")
  case None
  with acct_release [of F fixed L w] assms(3) show ?thesis by (simp add: runRelease_def mediaTapPairs_def)
next
  case (Some m)
  obtain m' h where m: "closeSession m (wHandles w) = (m', h)" by force
  let ?w = "w\<lparr>wHandles := h, wPorts := fold Release (fixed @ tapPairs m) (wPorts w)\<rparr>"
  have "acct F L (w\<lparr>wPorts := fold Release (fixed @ tapPairs m) (wPorts w)\<rparr>)"
    using assms(3) Some by (intro acct_release) (simp add: mediaTapPairs_def)
  then have "acct F L ?w" by (simp add: acct_def held_def)
  then have "acct F L (updCall r (\<lambda>c. c\<lparr>media := Some m'\<rparr>) ?w)"
    using assms(1,2) by (intro acct_same) (auto simp: callHeld_def ptOk_def)
  then show ?thesis by (simp add: runRelease_def Some m)
qed

lemma acct_teardown:
  assumes "acct F L w"
  shows "acct F L (teardown r w)"
proof (cases "r < length (wCalls w) \<and> canTransition (callState (wCalls w ! r)) stateTearingDown")
  case True
  let ?c = "wCalls w ! r"
  let ?w = "updCall r (\<lambda>c. c\<lparr>callState := stateTearingDown, cancelled := True\<rparr>) w"
  have live: "callState ?c \<noteq> stateTearingDown" using True by (auto simp: canTransition_def)
  have 1: "acct (F + mset (hookPairs ?c)) L ?w"
    using True assms live
    by (intro acct_updCall [OF _ assms]) (auto simp: callHeld_def ptOk_def acct_def)
  have 2: "callState (wCalls ?w ! r) = stateTearingDown" "media (wCalls ?w ! r) = media ?c" using True by simp_all
  have "acct F L (case releaseMedia ?c of None \<Rightarrow> ?w | Some fixed \<Rightarrow> runRelease r fixed ?w)"
  proof (cases "releaseMedia ?c")
    case None
    with 1 show ?thesis by (simp add: hookPairs_def)
  next
    case (Some fixed)
    with 1 2 True acct_runRelease [of r ?w F fixed L] show ?thesis by (simp add: hookPairs_def)
  qed
  with True show ?thesis by (simp add: teardown_def Let_def)
next
  case False
  with assms show ?thesis by (auto simp: teardown_def Let_def)
qed

lemma fold_release_pending:
  "fold (\<lambda>pt p. Release (ptCallee pt) (Release (ptCaller pt) p)) pts p = fold Release (ptPairs pts) p"
  by (induction pts arbitrary: p) (auto simp: ptPairs_def)

lemma acct_releasePendingTaps:
  assumes "acct F L w" "r < length (wCalls w)"
  shows "acct F L (releasePendingTaps r w)"
proof -
  let ?pts = "pendingTaps (wCalls w ! r)" and ?w = "updCall r (\<lambda>c. c\<lparr>pendingTaps := []\<rparr>) w"
  have "acct (F + mset (ptPairs ?pts)) L ?w"
    using assms(2) by (intro acct_updCall [OF _ assms(1)]) (auto simp: callHeld_def ptOk_def hookPairs_def ptPairs_def split: option.split)
  then have "acct F L (?w\<lparr>wPorts := fold Release (ptPairs ?pts) (wPorts ?w)\<rparr>)" by (rule acct_release)
  then show ?thesis
    by (simp add: releasePendingTaps_def Let_def fold_release_pending) (simp add: acct_def held_def)
qed

text \<open>What a teardown leaves alone.\<close>

lemma runRelease_frame:
  "length (wCalls (runRelease r fixed w)) = length (wCalls w)"
  "r' \<noteq> r \<Longrightarrow> wCalls (runRelease r fixed w) ! r' = wCalls w ! r'"
  "wTrace (runRelease r fixed w) = wTrace w" "wTick (runRelease r fixed w) = wTick w"
  "wOthers (runRelease r fixed w) = wOthers w"
  "r < length (wCalls w) \<Longrightarrow> callState (wCalls (runRelease r fixed w) ! r) = callState (wCalls w ! r)
     \<and> pendingTaps (wCalls (runRelease r fixed w) ! r) = pendingTaps (wCalls w ! r)
     \<and> releaseMedia (wCalls (runRelease r fixed w) ! r) = releaseMedia (wCalls w ! r)
     \<and> (media (wCalls (runRelease r fixed w) ! r) = None \<longleftrightarrow> media (wCalls w ! r) = None)"
  by (auto simp: runRelease_def Let_def updCall_def split: option.splits prod.splits)

definition finalOf :: "nat \<Rightarrow> Event \<Rightarrow> bool" where
  "finalOf r e = (case e of EvRespond r' s _ _ _ _ \<Rightarrow> r' = r \<and> isFinal s | _ \<Rightarrow> False)"

definition finals :: "nat \<Rightarrow> World \<Rightarrow> nat" where
  "finals r w = length (filter (finalOf r) (wTrace w))"

lemma finals_simps [simp]:
  "finals r (w\<lparr>wPorts := x1\<rparr>) = finals r w" "finals r (w\<lparr>wHandles := x2\<rparr>) = finals r w"
  "finals r (w\<lparr>wTick := x3\<rparr>) = finals r w" "finals r (w\<lparr>wOthers := x4\<rparr>) = finals r w"
  "finals r (w\<lparr>wReg := x5\<rparr>) = finals r w" "finals r (w\<lparr>wDialogs := x6\<rparr>) = finals r w"
  "finals r (w\<lparr>wCalls := x7\<rparr>) = finals r w"
  "finals r (updCall r' f w) = finals r w"
  by (simp_all add: finals_def)

lemma finals_addTrace: "finals r (addTrace es w) = finals r w + length (filter (finalOf r) es)"
  by (simp add: finals_def addTrace_def)

lemma byes_not_final: "filter (finalOf r) (byes r' c) = []"
  by (auto simp: byes_def finalOf_def split: option.splits)

lemma teardown_frame:
  shows "length (wCalls (teardown r w)) = length (wCalls w)"
    and "r' \<noteq> r \<Longrightarrow> wCalls (teardown r w) ! r' = wCalls w ! r'"
    and "finals r' (teardown r w) = finals r' w" and "wTick (teardown r w) = wTick w"
proof -
  have 0: "finals r' (runRelease r fixed w) = finals r' w" for fixed w
    by (simp add: finals_def runRelease_frame)
  show "length (wCalls (teardown r w)) = length (wCalls w)"
    by (simp add: teardown_def Let_def regRemove_def addTrace_def runRelease_frame split: option.split)
  show "r' \<noteq> r \<Longrightarrow> wCalls (teardown r w) ! r' = wCalls w ! r'"
    by (simp add: teardown_def Let_def regRemove_def addTrace_def runRelease_frame split: option.split)
  show "finals r' (teardown r w) = finals r' w"
    by (simp add: teardown_def Let_def regRemove_def finals_addTrace byes_not_final 0 split: option.split)
  show "wTick (teardown r w) = wTick w"
    by (simp add: teardown_def Let_def regRemove_def addTrace_def runRelease_frame split: option.split)
qed

lemma teardown_self:
  assumes "r < length (wCalls w)"
  shows "callState (wCalls (teardown r w) ! r) = stateTearingDown"
    and "pendingTaps (wCalls (teardown r w) ! r) = pendingTaps (wCalls w ! r)"
    and "releaseMedia (wCalls (teardown r w) ! r) = releaseMedia (wCalls w ! r)"
    and "media (wCalls (teardown r w) ! r) = None \<longleftrightarrow> media (wCalls w ! r) = None"
proof -
  let ?w = "updCall r (\<lambda>c. c\<lparr>callState := stateTearingDown, cancelled := True\<rparr>) w"
  have 1: "wCalls ?w ! r = (wCalls w ! r)\<lparr>callState := stateTearingDown, cancelled := True\<rparr>"
    using assms by simp
  note f = runRelease_frame(6) [of r ?w] 
  have "callState (wCalls (teardown r w) ! r) = stateTearingDown
      \<and> pendingTaps (wCalls (teardown r w) ! r) = pendingTaps (wCalls w ! r)
      \<and> releaseMedia (wCalls (teardown r w) ! r) = releaseMedia (wCalls w ! r)
      \<and> (media (wCalls (teardown r w) ! r) = None \<longleftrightarrow> media (wCalls w ! r) = None)"
  proof (cases "canTransition (callState (wCalls w ! r)) stateTearingDown")
    case True
    with assms f 1 show ?thesis
      by (auto simp: teardown_def Let_def regRemove_def addTrace_def split: option.split)
  next
    case False
    then have "callState (wCalls w ! r) = stateTearingDown"
      by (cases "callState (wCalls w ! r)") (auto simp: canTransition_def)
    with False show ?thesis by (simp add: teardown_def Let_def)
  qed
  then show "callState (wCalls (teardown r w) ! r) = stateTearingDown"
    "pendingTaps (wCalls (teardown r w) ! r) = pendingTaps (wCalls w ! r)"
    "releaseMedia (wCalls (teardown r w) ! r) = releaseMedia (wCalls w ! r)"
    "media (wCalls (teardown r w) ! r) = None \<longleftrightarrow> media (wCalls w ! r) = None" by blast+
qed

lemma releasePendingTaps_frame:
  "length (wCalls (releasePendingTaps r w)) = length (wCalls w)"
  "finals r' (releasePendingTaps r w) = finals r' w"
  "r < length (wCalls w) \<Longrightarrow> wCalls (releasePendingTaps r w) ! r = (wCalls w ! r)\<lparr>pendingTaps := []\<rparr>"
  by (simp_all add: releasePendingTaps_def Let_def)

end
