(* ===== verification/BridgeProps.thy ===== *)
theory BridgeProps
  imports Accounting
begin

text \<open>
  Properties of the set-up of a call, over every behaviour of the environment: the port books,
  the final response to the caller, and the order of the legs. \<open>quiet E r\<close> says that no other
  goroutine tears down this call while it is being set up.
\<close>

section \<open>Invariants of the set-up\<close>

definition quiet :: "Env \<Rightarrow> nat \<Rightarrow> bool" where
  "quiet E r = (\<forall>t. ITeardown r \<notin> set (interf E t))"

text \<open>The books up to an unknown leak, which is the known one when nobody interferes.\<close>

definition books :: "Env \<Rightarrow> nat \<Rightarrow> PortPair multiset \<Rightarrow> PortPair multiset \<Rightarrow> World \<Rightarrow> bool" where
  "books E r F L w = (\<exists>L'. acct F L' w \<and> (quiet E r \<longrightarrow> L' = L))"

text \<open>During the set-up: no final response yet, \<open>P\<close> holds of the call when nobody interferes, and
  \<open>A\<close> says that the media is anchored.\<close>

definition prep :: "Env \<Rightarrow> nat \<Rightarrow> (Call \<Rightarrow> bool) \<Rightarrow> bool \<Rightarrow> PortPair multiset \<Rightarrow> PortPair multiset \<Rightarrow> World \<Rightarrow> bool" where
  "prep E r P A F L w = (r < length (wCalls w) \<and> finals r w = 0 \<and> books E r F L w
     \<and> (quiet E r \<longrightarrow> P (wCalls w ! r))
     \<and> (A \<longrightarrow> media (wCalls w ! r) \<noteq> None \<and> releaseMedia (wCalls w ! r) \<noteq> None))"

abbreviation inSetup :: "Call \<Rightarrow> bool" where
  "inSetup \<equiv> \<lambda>c. callState c = stateSetup"

text \<open>Before the media is anchored there is no release hook.\<close>

abbreviation fresh :: "Call \<Rightarrow> bool" where
  "fresh \<equiv> \<lambda>c. callState c = stateSetup \<and> releaseMedia c = None"

text \<open>The set-up failed.\<close>

definition over :: "Env \<Rightarrow> nat \<Rightarrow> PortPair multiset \<Rightarrow> World \<Rightarrow> bool" where
  "over E r L w = (finals r w \<le> 1 \<and> books E r {#} L w
     \<and> (quiet E r \<longrightarrow> finals r w = 1 \<and> callState (wCalls w ! r) = stateTearingDown
          \<and> pendingTaps (wCalls w ! r) = []))"

text \<open>The call is up.\<close>

definition up :: "Env \<Rightarrow> nat \<Rightarrow> PortPair multiset \<Rightarrow> World \<Rightarrow> bool" where
  "up E r L w = (r < length (wCalls w) \<and> finals r w = 1 \<and> books E r {#} L w
     \<and> (quiet E r \<longrightarrow> callState (wCalls w ! r) = stateEstablished \<and> pendingTaps (wCalls w ! r) = []
          \<and> media (wCalls w ! r) \<noteq> None \<and> releaseMedia (wCalls w ! r) \<noteq> None))"

section \<open>Interference\<close>

lemma acct_interf: "acct F L w \<Longrightarrow> acct F L (applyInterf i w)"
proof (cases i)
  case (ITeardown r)
  then show "acct F L w \<Longrightarrow> ?thesis" by (simp add: acct_teardown)
next
  case IAcquire
  assume a: "acct F L w"
  obtain q p where q: "Acquire (wPorts w) = (q, p)" by force
  with acct_acquire [OF a] show ?thesis
    using a unfolding IAcquire by (cases q) (auto simp: acct_def held_def)
next
  case (IRelease i)
  assume a: "acct F L w"
  show ?thesis
  proof (cases "i < length (wOthers w)")
    case True
    let ?q = "wOthers w ! i" and ?os = "take i (wOthers w) @ drop (Suc i) (wOthers w)"
    have "mset (wOthers w) = add_mset ?q (mset ?os)"
      using arg_cong [where f = mset, OF id_take_nth_drop [OF True]] by simp
    then have "acct (F + mset [?q]) L (w\<lparr>wOthers := ?os\<rparr>)"
      using a by (simp add: acct_def held_def)
    from acct_release [OF this] have "acct F L (w\<lparr>wOthers := ?os, wPorts := Release ?q (wPorts w)\<rparr>)" by simp
    then show ?thesis using True by (simp add: IRelease acct_def held_def)
  next
    case False
    with a show ?thesis by (simp add: IRelease)
  qed
qed

lemma interf_frame:
  "length (wCalls (applyInterf i w)) = length (wCalls w)" "finals r (applyInterf i w) = finals r w"
  "i \<noteq> ITeardown r \<Longrightarrow> wCalls (applyInterf i w) ! r = wCalls w ! r"
  "r < length (wCalls w) \<Longrightarrow> releaseMedia (wCalls (applyInterf i w) ! r) = releaseMedia (wCalls w ! r)
     \<and> (media (wCalls (applyInterf i w) ! r) = None \<longleftrightarrow> media (wCalls w ! r) = None)"
proof -
  show "length (wCalls (applyInterf i w)) = length (wCalls w)" "finals r (applyInterf i w) = finals r w"
    by (cases i; auto simp: teardown_frame split: prod.split option.split)+
  show 1: "i \<noteq> ITeardown r \<Longrightarrow> wCalls (applyInterf i w) ! r = wCalls w ! r"
    by (cases i) (auto simp: teardown_frame split: prod.split option.split)
  show "r < length (wCalls w) \<Longrightarrow> releaseMedia (wCalls (applyInterf i w) ! r) = releaseMedia (wCalls w ! r)
     \<and> (media (wCalls (applyInterf i w) ! r) = None \<longleftrightarrow> media (wCalls w ! r) = None)"
    using 1 teardown_self [of r w] by (cases "i = ITeardown r") auto
qed

lemma interf_prep:
  assumes "prep E r P A F L w" "quiet E r \<Longrightarrow> i \<noteq> ITeardown r"
  shows "prep E r P A F L (applyInterf i w)"
  using assms interf_frame(1) [of i w] interf_frame(2) [of r i w] interf_frame(3,4) [where i = i and w = w and r = r]
  by (auto simp: prep_def books_def intro: acct_interf)

lemma prep_tick [simp]: "prep E r P A F L (w\<lparr>wTick := t\<rparr>) = prep E r P A F L w"
  by (simp add: prep_def books_def)

lemma prep_handles [simp]: "prep E r P A F L (w\<lparr>wHandles := t\<rparr>) = prep E r P A F L w"
  by (simp add: prep_def books_def)

lemma prep_trace:
  "prep E r P A F L w \<Longrightarrow> filter (finalOf r) es = [] \<Longrightarrow> prep E r P A F L (addTrace es w)"
  by (simp add: prep_def books_def finals_addTrace) (simp add: addTrace_def)

lemma wp_sync:
  assumes "prep E r P A F L w" "\<And>t w'. prep E r P A F L w' \<Longrightarrow> Q t w'"
  shows "wp (sync E) Q w"
proof -
  have "prep E r P A F L (fold applyInterf is w)"
    if "quiet E r \<longrightarrow> ITeardown r \<notin> set is" "prep E r P A F L w" for "is" w
    using that
  proof (induction "is" arbitrary: w)
    case (Cons a "is")
    then have "prep E r P A F L (applyInterf a w)" by (intro interf_prep) auto
    with Cons show ?case by simp
  qed simp
  then show ?thesis
    using assms by (auto simp: sync_def wp_simps quiet_def)
qed

section \<open>Single operations keep the books\<close>

lemma wp_getCall [wp_simps]: "wp (getCall r) Q w = Q (wCalls w ! r) w"
  by (simp add: getCall_def wp_simps)

lemma wp_emit [wp_simps]: "wp (emit es) Q w = Q () (addTrace es w)"
  by (simp add: emit_def wp_simps)

lemma books_release: "books E r (F + mset qs) L w \<Longrightarrow> books E r F L (w\<lparr>wPorts := fold Release qs (wPorts w)\<rparr>)"
  by (auto simp: books_def intro: acct_release)

lemma wp_releasePairs:
  "prep E r P A (F + mset qs) L w \<Longrightarrow> (\<And>w'. prep E r P A F L w' \<Longrightarrow> Q () w') \<Longrightarrow> wp (releasePairs qs) Q w"
  using books_release [of E r F qs L w] by (auto simp: releasePairs_def wp_simps prep_def)

lemma wp_closeSides:
  "prep E r P A F L w \<Longrightarrow> (\<And>w'. prep E r P A F L w' \<Longrightarrow> Q () w') \<Longrightarrow> wp (closeSides ss) Q w"
  by (auto simp: closeSides_def wp_simps)

lemma wp_acquire:
  assumes "prep E r P A F L w" "\<And>w'. prep E r P A F L w' \<Longrightarrow> Q None w'"
    "\<And>q w'. prep E r P A (add_mset q F) L w' \<Longrightarrow> Q (Some q) w'"
  shows "wp (acquire E) Q w"
proof -
  have "Q (fst (Acquire (wPorts w))) (w\<lparr>wPorts := snd (Acquire (wPorts w))\<rparr>)" if p: "prep E r P A F L w" for w
  proof -
    obtain L' where L': "acct F L' w" "quiet E r \<longrightarrow> L' = L" using p by (auto simp: prep_def books_def)
    obtain q p' where a: "Acquire (wPorts w) = (q, p')" by force
    show ?thesis
    proof (cases q)
      case None
      with a have "p' = wPorts w" using Acquire_none by blast
      with assms(2) [OF p] a None show ?thesis by simp
    next
      case (Some q')
      with acct_acquire [OF L'(1)] a have "acct (add_mset q' F) L' (w\<lparr>wPorts := p'\<rparr>)" by simp
      with p L'(2) have "prep E r P A (add_mset q' F) L (w\<lparr>wPorts := p'\<rparr>)"
        by (auto simp: prep_def books_def)
      with assms(3) a Some show ?thesis by simp
    qed
  qed
  then show ?thesis
    unfolding acquire_def wp_simps by (intro wp_sync [OF assms(1)]) simp
qed

lemma wp_bindSide:
  assumes "prep E r P A F L w" "\<And>s w'. prep E r P A F L w' \<Longrightarrow> Q s w'"
  shows "wp (bindSide E p) Q w"
  unfolding bindSide_def wp_simps using assms(2) by (intro wp_sync [OF assms(1)]) simp

text \<open>An update of the call that holds what it held.\<close>

definition innocent :: "(Call \<Rightarrow> bool) \<Rightarrow> bool \<Rightarrow> (Call \<Rightarrow> Call) \<Rightarrow> bool" where
  "innocent P A f = (\<forall>c. callHeld (f c) = callHeld c \<and> (ptOk c \<longrightarrow> ptOk (f c)) \<and> (P c \<longrightarrow> P (f c))
     \<and> (A \<longrightarrow> media c \<noteq> None \<longrightarrow> media (f c) \<noteq> None) \<and> releaseMedia (f c) = releaseMedia c)"

lemma prep_innocent:
  assumes "prep E r P A F L w" "innocent P A f"
  shows "prep E r P A F L (updCall r f w)"
  using assms by (auto simp: prep_def books_def innocent_def intro!: acct_same)

lemma wp_locked:
  assumes "prep E r P A F L w" "innocent P A f" "\<And>w'. prep E r P A F L w' \<Longrightarrow> Q () w'"
  shows "wp (locked E r f) Q w"
  unfolding locked_def wp_simps using assms(3) prep_innocent [OF _ assms(2)]
  by (intro wp_sync [OF assms(1)]) simp

text \<open>A response: a provisional one leaves the call in set-up, a final one is counted.\<close>

lemma wp_respond_provisional:
  assumes "prep E r P A F L w" "\<not> isFinal s" "\<And>b w'. prep E r P A F L w' \<Longrightarrow> Q b w'"
  shows "wp (respond E r s reason body hdrs) Q w"
  unfolding respond_def wp_simps using assms(2)
  by (intro wp_sync [OF assms(1)] assms(3) prep_trace) (simp_all add: finalOf_def)

lemma addTrace_frame [simp]: "wCalls (addTrace es w) = wCalls w" "wPorts (addTrace es w) = wPorts w"
  by (simp_all add: addTrace_def)

text \<open>After the final response of a failure: the pending taps and then the call itself.\<close>

lemma finish:
  assumes "prep E r P A {#} L w" "isFinal s"
  shows "over E r L (teardown r (releasePendingTaps r (addTrace [EvRespond r s reason body hdrs b] w)))"
proof -
  let ?w = "addTrace [EvRespond r s reason body hdrs b] w"
  have r: "r < length (wCalls w)" and f: "finals r ?w = 1"
    using assms by (auto simp: prep_def finals_addTrace finalOf_def)
  have "books E r {#} L (teardown r (releasePendingTaps r ?w))"
    using assms(1) r by (auto simp: prep_def books_def intro!: acct_teardown acct_releasePendingTaps)
  then show ?thesis
    using f r by (simp add: over_def teardown_frame releasePendingTaps_frame teardown_self)
qed

lemma wp_fail:
  assumes "prep E r P A {#} L w" "isFinal s" "\<And>w'. over E r L w' \<Longrightarrow> Q () w'"
  shows "wp (fail E r s reason) Q w"
  unfolding fail_def respond_def wp_simps using assms(3) finish [OF _ assms(2)]
  by (intro wp_sync [OF assms(1)]) blast

text \<open>Rejections carry a final status, as the SIP library reports them.\<close>

definition rejectionsFinal :: "Env \<Rightarrow> bool" where
  "rejectionsFinal E = (\<forall>t res. snd (waitResult E t) = Rejected res \<longrightarrow> 300 \<le> resStatus res)"

definition provisionalsBelow :: "Env \<Rightarrow> bool" where
  "provisionalsBelow E = (\<forall>s. IsProvisional (lib E) s \<longrightarrow> s < 200)"

lemma wp_respondError:
  assumes "prep E r P A {#} L w" "\<And>res. err = Rejected res \<Longrightarrow> 300 \<le> resStatus res"
    "\<And>w'. over E r L w' \<Longrightarrow> Q () w'"
  shows "wp (respondInboundFromLegError E r err) Q w"
proof -
  have "wp (do { _ \<leftarrow> respond E r s reason body hdrs; _ \<leftarrow> modify_st (releasePendingTaps r); modify_st (teardown r) }) Q w"
    if "isFinal s" for s reason body hdrs
    unfolding respond_def wp_simps using assms(3) finish [OF _ that]
    by (intro wp_sync [OF assms(1)]) blast
  then show ?thesis
    using assms(2)
    by (cases err) (auto simp: respondInboundFromLegError_def mapFailureStatus_def isFinal_def)
qed

section \<open>The application chain\<close>

lemma wp_relayProvisional:
  assumes "prep E r P A F L w" "provisionalsBelow E" "\<And>w'. prep E r P A F L w' \<Longrightarrow> Q () w'"
  shows "wp (relayProvisional E r rs) Q w"
  using assms(1)
proof (induction rs arbitrary: w)
  case Nil
  then show ?case using assms(3) by (simp add: wp_simps)
next
  case (Cons res rs)
  have IH: "wp (relayProvisional E r rs) Q w'" if "prep E r P A F L w'" for w' using Cons.IH that .
  have "\<not> isFinal (resStatus res)" if "IsProvisional (lib E) (resStatus res)"
    using assms(2) that by (auto simp: provisionalsBelow_def isFinal_def not_le)
  then show ?case
    using IH Cons.prems by (auto simp: wp_simps intro!: wp_respond_provisional [where P = P and A = A and F = F and L = L])
qed

lemma wp_waitAnswer:
  assumes "prep E r P A F L w" "provisionalsBelow E" "rejectionsFinal E"
    "\<And>a w'. prep E r P A F L w' \<Longrightarrow> (\<And>res. a = Rejected res \<Longrightarrow> 300 \<le> resStatus res) \<Longrightarrow> Q a w'"
  shows "wp (waitAnswer E r s b) Q w"
  unfolding waitAnswer_def wp_simps
  by (rule wp_sync [OF assms(1)], rule wp_relayProvisional [OF prep_trace assms(2)], assumption)
     (auto simp: finalOf_def wp_simps assms(3) [unfolded rejectionsFinal_def] intro!: assms(4)
        intro: wp_sync [where P = P and A = A and F = F and L = L])

lemma wp_ack:
  assumes "prep E r P A F L w" "\<And>w'. prep E r P A F L w' \<Longrightarrow> Q () w'"
  shows "wp (ack E r s) Q w"
  unfolding ack_def wp_simps by (intro wp_sync [OF assms(1)] assms(2) prep_trace) (simp_all add: finalOf_def)

lemma wp_invite:
  assumes "prep E r P A F L w" "\<And>s w'. prep E r P A F L w' \<Longrightarrow> Q s w'"
  shows "wp (invite E r role d b body hdrs) Q w"
  unfolding invite_def wp_simps by (intro wp_sync [OF assms(1)] assms(2) prep_trace) (simp_all add: finalOf_def)

text \<open>The pairs of a tap.\<close>

definition tapOf :: "TapResources option \<Rightarrow> PortPair multiset" where
  "tapOf t = (case t of None \<Rightarrow> {#} | Some t \<Rightarrow> mset [trCallerPair t, trCalleePair t])"

lemma wp_releaseTap:
  assumes "prep E r P A (F + tapOf (Some t)) L w" "\<And>w'. prep E r P A F L w' \<Longrightarrow> Q () w'"
  shows "wp (releaseTap t) Q w"
  unfolding releaseTap_def wp_simps
  by (rule wp_closeSides [OF assms(1)], rule wp_releasePairs [where F = F and P = P and A = A and L = L])
     (auto simp: tapOf_def intro: assms(2))

lemma wp_acquireTap:
  assumes "prep E r P A F L w" "\<And>e w'. prep E r P A F L w' \<Longrightarrow> Q (Inl e) w'"
    "\<And>t w'. prep E r P A (F + tapOf (Some t)) L w' \<Longrightarrow> Q (Inr t) w'"
  shows "wp (acquireTap E) Q w"
proof -
  have rel: "wp (releasePairs qs) (\<lambda>_. Q (Inl e)) w"
    if "prep E r P A (F + mset qs) L w" for qs e w
    by (rule wp_releasePairs [OF that]) (rule assms(2))
  have bind2: "wp (bindSide E q2) (\<lambda>s2. wp (case s2 of
        None \<Rightarrow> do { _ \<leftarrow> closeSides [s1]; _ \<leftarrow> releasePairs [q1, q2]; State_Monad.return (Inl errTapBind) }
      | Some s2 \<Rightarrow> State_Monad.return (Inr \<lparr>trCallerPair = q1, trCalleePair = q2, trCallerSide = s1, trCalleeSide = s2\<rparr>)) Q) w"
    if "prep E r P A (F + mset [q1, q2]) L w" for q1 q2 s1 w
    apply (rule wp_bindSide [OF that])
    subgoal for s2 w' by (cases s2) (auto simp: wp_simps tapOf_def intro!: wp_closeSides rel assms(3))
    done
  show ?thesis
    unfolding acquireTap_def wp_simps
    apply (rule wp_acquire [OF assms(1)])
    subgoal by (simp add: wp_simps assms(2))
    subgoal for q1 w1
      apply (simp add: wp_simps)
      apply (rule wp_acquire, assumption)
      subgoal by (auto simp: wp_simps intro: rel)
      subgoal for q2 w2
        apply (simp add: wp_simps)
        apply (rule wp_bindSide, assumption)
        subgoal for s1 w3
          using rel [of "[q1, q2]"] bind2 [of q1 q2 w3] by (cases s1) (simp_all add: wp_simps add_mset_commute)
        done
      done
    done
qed


lemma wp_appLegFailed:
  assumes "prep E r P A (F + tapOf tap) L w" "\<And>b w'. prep E r P A F L w' \<Longrightarrow> Q b w'"
  shows "wp (appLegFailed app tap) Q w"
proof (cases tap)
  case None
  with assms show ?thesis
    by (simp add: appLegFailed_def wp_simps tapOf_def prep_trace finalOf_def)
next
  case (Some t)
  show ?thesis
    unfolding appLegFailed_def wp_simps Some option.case
    by (rule wp_releaseTap [OF assms(1) [unfolded Some]])
       (simp add: wp_simps assms(2) prep_trace finalOf_def)
qed

text \<open>Stashing a tap moves its pairs from the local variable to the call.\<close>

lemma stash_books:
  assumes "prep E r P A (F + tapOf (Some t)) L w"
    "\<And>c. P c \<Longrightarrow> P (c\<lparr>pendingTaps := pendingTaps c @ [stashedTap n t ends]\<rparr>)"
  shows "prep E r P A F L (updCall r (\<lambda>c. c\<lparr>pendingTaps := pendingTaps c @ [stashedTap n t ends]\<rparr>) w)"
proof -
  obtain h1 p1 h2 p2 where e: "ends = (h1, p1, h2, p2)" by (cases ends)
  let ?f = "\<lambda>c. c\<lparr>pendingTaps := pendingTaps c @ [stashedTap n t ends]\<rparr>"
  have h: "callHeld (?f c) = callHeld c + tapOf (Some t)" for c
    by (simp add: callHeld_def hookPairs_def ptPairs_def stashedTap_def e tapOf_def split: option.split)
  have "acct F L' (updCall r ?f w)" if "acct (F + tapOf (Some t)) L' w" "r < length (wCalls w)" for L'
  proof (rule acct_updCall [OF that(2,1)])
    show "ptOk (?f (wCalls w ! r))"
      using that by (auto simp: acct_def ptOk_def stashedTap_def e)
    show "F + tapOf (Some t) + L' + callHeld (wCalls w ! r) = F + L' + callHeld (?f (wCalls w ! r))"
      unfolding h by (simp add: algebra_simps)
  qed
  then show ?thesis using assms by (auto simp: prep_def books_def)
qed

lemma wp_appAnswered:
  assumes "prep E r fresh A (F + tapOf tap) L w" "\<And>w'. prep E r fresh A F L w' \<Longrightarrow> Q () w'"
  shows "wp (appAnswered E r app tap lid sess res) Q w"
proof -
  let ?leg = "\<lparr>legRole = roleApplication, legTarget = appURI app, legID = lid, legSession = sess, legAnswer = resBody res\<rparr>"
  have rest: "wp (do { _ \<leftarrow> locked E r (\<lambda>c. c\<lparr>appLegs := appLegs c @ [?leg]\<rparr>);
                       emit [EvAppInvocation (appName app)] }) Q w" if "prep E r fresh A F L w" for w
    unfolding wp_simps
    by (rule wp_locked [OF that])
       (auto simp: innocent_def callHeld_def hookPairs_def ptOk_def finalOf_def intro!: assms(2) prep_trace split: option.split)
  show ?thesis
  proof (cases tap)
    case None
    then show ?thesis
      unfolding appAnswered_def wp_bind using assms(1) rest
      by (intro wp_ack [where P = fresh and A = A and F = F and L = L]) (simp_all add: wp_bind wp_return tapOf_def)
  next
    case (Some t)
    show ?thesis
    proof (cases "parseTapAnswer (resBody res)")
      case (Inl e)
      show ?thesis
        unfolding appAnswered_def wp_bind Some option.case Inl sum.case
        by (rule wp_ack [OF assms(1) [unfolded Some]], rule wp_releaseTap [where F = F and P = fresh and A = A and L = L], assumption)
           (use rest in \<open>simp add: wp_bind\<close>)
    next
      case (Inr ends)
      show ?thesis
        unfolding appAnswered_def wp_bind Some option.case Inr sum.case locked_def [of E r "\<lambda>c. c\<lparr>pendingTaps := pendingTaps c @ [stashedTap (appName app) t ends]\<rparr>"]
        apply (rule wp_ack [OF assms(1) [unfolded Some]], rule wp_sync, assumption)
        using rest stash_books [where P = fresh and t = t and E = E and r = r and A = A and F = F and L = L]
        by (simp add: wp_bind wp_modify_st wp_return)
    qed
  qed
qed

definition chainPost :: "Env \<Rightarrow> nat \<Rightarrow> PortPair multiset \<Rightarrow> bool \<Rightarrow> World \<Rightarrow> bool" where
  "chainPost E r L b w = (if b then prep E r fresh False {#} L w else over E r L w)"

lemma chainPost_simps [simp]:
  "chainPost E r L True w = prep E r fresh False {#} L w" "chainPost E r L False w = over E r L w"
  by (simp_all add: chainPost_def)

lemma finals_ok [simp]: "isFinal 500" "isFinal 503" "isFinal 488" "isFinal 200"
  by (simp_all add: isFinal_def)

lemma wp_appLeg:
  assumes p: "prep E r fresh False (tapOf tap) L w" and env: "provisionalsBelow E" "rejectionsFinal E"
  shows "wp (appLeg E r app uri body tap) (chainPost E r L) w"
proof -
  have p': "prep E r fresh False ({#} + tapOf tap) L w" using p by simp
  have failed: "wp (do { abort \<leftarrow> appLegFailed app tap;
        if abort then do { _ \<leftarrow> m; State_Monad.return False } else State_Monad.return True }) (chainPost E r L) w"
    if "prep E r fresh False ({#} + tapOf tap) L w"
      "\<And>w. prep E r fresh False {#} L w \<Longrightarrow> wp m (\<lambda>_. wp (State_Monad.return False) (chainPost E r L)) w"
    for m :: "unit op" and w
    unfolding wp_bind by (rule wp_appLegFailed [OF that(1)]) (use that(2) in \<open>simp add: wp_bind wp_return\<close>)
  show ?thesis
    unfolding appLeg_def wp_bind wp_getCall wp_gets_st
    apply (rule wp_invite [OF p'])
    subgoal for s w'
    proof (cases s)
      case None
      assume p1: "prep E r fresh False ({#} + tapOf tap) L w'"
      show ?thesis
        unfolding None option.case
        by (rule failed [OF p1]) (rule wp_fail; simp add: wp_return)
    next
      case (Some s)
      assume p1: "prep E r fresh False ({#} + tapOf tap) L w'"
      show ?thesis
        unfolding Some option.case wp_bind
        apply (rule wp_waitAnswer [OF p1 env])
        subgoal for a w''
        proof (cases a)
          case (Answered res)
          assume p2: "prep E r fresh False ({#} + tapOf tap) L w''"
          show ?thesis
            unfolding Answered LegResult.case wp_bind by (rule wp_appAnswered [OF p2]) (simp add: wp_simps)
        next
          case (Rejected res)
          assume p2: "prep E r fresh False ({#} + tapOf tap) L w''" and "\<And>res. a = Rejected res \<Longrightarrow> 300 \<le> resStatus res"
          then show ?thesis
            unfolding Rejected LegResult.case by (intro failed [OF p2]) (rule wp_respondError; simp add: wp_return)
        next
          case LegError
          assume p2: "prep E r fresh False ({#} + tapOf tap) L w''"
          then show ?thesis
            unfolding LegError LegResult.case by (intro failed [OF p2]) (rule wp_respondError; simp add: wp_return)
        qed
        done
    qed
    done
qed

lemma wp_appStep:
  assumes p: "prep E r fresh False {#} L w" and env: "provisionalsBelow E" "rejectionsFinal E"
  shows "wp (appStep E r app) (chainPost E r L) w"
proof -
  have fail500: "wp (do { _ \<leftarrow> fail E r s reason; State_Monad.return False }) (chainPost E r L) w"
    if "prep E r fresh False {#} L w" "isFinal s" for w s reason
    unfolding wp_bind by (rule wp_fail [OF that]) (simp add: wp_simps)
  have plain: "wp (case buildInactiveOffer sdp h of
        Inl _ \<Rightarrow> do { _ \<leftarrow> fail E r 500 ''Server Error''; State_Monad.return False }
      | Inr body \<Rightarrow> appLeg E r app uri body None) (chainPost E r L) w" for sdp h uri
    using fail500 [OF p] wp_appLeg [of E r None L w] p env by (simp add: tapOf_def split: sum.split)
  have tap: "wp (do { t \<leftarrow> acquireTap E;
      (case t of
         Inl e \<Rightarrow> do {
           _ \<leftarrow> emit [EvAppFailure (appName app)];
           if failureAction (appOnFailure app) = actionAbort then do {
             _ \<leftarrow> (if e = errTapExhausted then fail E r 503 ''Service Unavailable'' else fail E r 500 ''Server Error'');
             State_Monad.return False } else State_Monad.return True }
       | Inr tap \<Rightarrow> (case buildTapOffer sdp h (RTP (trCallerPair tap)) (RTP (trCalleePair tap)) of
            Inl _ \<Rightarrow> do { _ \<leftarrow> releaseTap tap; _ \<leftarrow> fail E r 500 ''Server Error''; State_Monad.return False }
          | Inr body \<Rightarrow> appLeg E r app uri body (Some tap))) }) (chainPost E r L) w" for sdp h uri
    unfolding wp_bind
    apply (rule wp_acquireTap [OF p])
    subgoal for e w'
      using fail500 [OF prep_trace] by (auto simp: wp_simps finalOf_def prep_trace)
    subgoal for t w'
      using wp_appLeg [of E r "Some t" L w'] env
      by (auto simp: wp_bind split: sum.split
          intro!: wp_releaseTap [where F = "{#}" and P = fresh and A = False and L = L] wp_fail [where L = L]
          simp: wp_simps)
    done
  show ?thesis
    unfolding appStep_def wp_bind wp_getCall
    using fail500 [OF p] plain tap p by (simp add: wp_return wp_if split: option.split)
qed

lemma wp_appChain:
  assumes "prep E r fresh False {#} L w" "provisionalsBelow E" "rejectionsFinal E"
  shows "wp (appChain E r apps) (chainPost E r L) w"
  using assms(1)
proof (induction apps arbitrary: w)
  case (Cons app apps)
  then have IH: "wp (appChain E r apps) (chainPost E r L) w'" if "prep E r fresh False {#} L w'" for w' using that by simp
  show ?case
    unfolding appChain.simps wp_bind
    by (rule wp_mono [OF wp_appStep [OF Cons.prems assms(2,3)]]) (auto simp: wp_simps chainPost_def intro: IH split: if_splits)
qed (simp add: wp_simps)

section \<open>Anchoring\<close>

definition anchorPost :: "Env \<Rightarrow> nat \<Rightarrow> PortPair multiset \<Rightarrow> MediaAnchor option \<Rightarrow> World \<Rightarrow> bool" where
  "anchorPost E r L a w = (case a of
       None \<Rightarrow> over E r L w
     | Some (PlainAnchor _ _) \<Rightarrow> prep E r inSetup True {#} L w
     | Some (SecuredAnchor _) \<Rightarrow> prep E r (\<lambda>c. inSetup c \<and> hookPairs c = []) True {#} L w)"

lemma wp_failWith:
  assumes "prep E r P A {#} L w" "isFinal s" "\<And>w'. over E r L w' \<Longrightarrow> Q None w'"
  shows "wp (failWith E r s reason) Q w"
  unfolding failWith_def wp_bind by (rule wp_fail [OF assms(1,2)]) (simp add: wp_return assms(3))

text \<open>What a registration does to the books: the hook takes over the fixed pairs; what an earlier
  hook held besides is lost, which cannot happen undisturbed.\<close>

definition registers :: "(Call \<Rightarrow> bool) \<Rightarrow> bool \<Rightarrow> PortPair list \<Rightarrow> (Call \<Rightarrow> bool) \<Rightarrow> (Call \<Rightarrow> Call) \<Rightarrow> bool" where
  "registers P A fixed P' f = (\<forall>c. (A \<longrightarrow> releaseMedia c \<noteq> None) \<and> (A \<longrightarrow> media c \<noteq> None) \<longrightarrow>
      (\<exists>X. mset (hookPairs (f c)) + X = mset (hookPairs c) + mset fixed \<and> (P c \<longrightarrow> X = {#}))
      \<and> pendingTaps (f c) = pendingTaps c \<and> callState (f c) = callState c
      \<and> media (f c) \<noteq> None \<and> releaseMedia (f c) \<noteq> None \<and> (P c \<longrightarrow> P' (f c)))"

lemma prep_register:
  assumes p: "prep E r P A (F + mset fixed) L w" and f: "registers P A fixed P' f"
    and live: "callState (wCalls w ! r) \<noteq> stateTearingDown"
  shows "prep E r P' True F L (updCall r f w)"
proof -
  let ?c = "wCalls w ! r"
  have r: "r < length (wCalls w)" and A: "A \<longrightarrow> releaseMedia ?c \<noteq> None" "A \<longrightarrow> media ?c \<noteq> None"
    using p by (auto simp: prep_def)
  obtain L' where L': "acct (F + mset fixed) L' w" "quiet E r \<longrightarrow> L' = L" using p by (auto simp: prep_def books_def)
  obtain X where X: "mset (hookPairs (f ?c)) + X = mset (hookPairs ?c) + mset fixed" "P ?c \<longrightarrow> X = {#}"
    and fc: "pendingTaps (f ?c) = pendingTaps ?c" "callState (f ?c) = callState ?c"
      "media (f ?c) \<noteq> None" "releaseMedia (f ?c) \<noteq> None" "P ?c \<longrightarrow> P' (f ?c)"
    using f A unfolding registers_def by blast
  have "acct F (L' + X) (updCall r f w)"
  proof (rule acct_updCall [OF r L'(1)])
    show "ptOk (f ?c)" using L'(1) r fc by (auto simp: acct_def ptOk_def)
    have "callHeld (f ?c) + X = callHeld ?c + mset fixed"
      using X(1) live by (simp add: callHeld_def fc)
    then show "F + mset fixed + L' + callHeld ?c = F + (L' + X) + callHeld (f ?c)"
      by (simp add: add.assoc add.commute add.left_commute)
  qed
  moreover have "quiet E r \<longrightarrow> X = {#}" "quiet E r \<longrightarrow> P' (f ?c)" using p X(2) fc by (auto simp: prep_def)
  ultimately show ?thesis using p L'(2) fc r by (auto simp: prep_def books_def)
qed

lemma wp_registerMedia:
  assumes "prep E r P A (F + mset fixed) L w" "registers P A fixed P' f" "\<And>c. P c \<Longrightarrow> inSetup c"
    "\<And>w'. prep E r P' True F L w' \<Longrightarrow> Q True w'"
    "\<And>w'. prep E r (\<lambda>_. False) A (F + mset fixed) L w' \<Longrightarrow> Q False w'"
  shows "wp (registerMedia E r f) Q w"
proof -
  have "Q False w'" if "prep E r P A (F + mset fixed) L w'" "callState (wCalls w' ! r) = stateTearingDown" for w'
    using that assms(3) by (intro assms(5)) (force simp: prep_def)
  moreover have "Q True (updCall r f w')"
    if "prep E r P A (F + mset fixed) L w'" "callState (wCalls w' ! r) \<noteq> stateTearingDown" for w'
    using prep_register [OF that(1) assms(2) that(2)] by (rule assms(4))
  ultimately show ?thesis
    unfolding registerMedia_def wp_bind by (intro wp_sync [OF assms(1)]) (simp add: wp_simps)
qed

text \<open>A refused registration means interference: nothing is left to show but the books.\<close>

lemma refused: "prep E r (\<lambda>_. False) A {#} L w \<Longrightarrow> over E r L w"
  by (auto simp: prep_def over_def)

lemma wp_releaseUnregistered:
  assumes "prep E r P A (mset fixed) L w" "taps m = []" "\<And>w'. prep E r P A {#} L w' \<Longrightarrow> Q () w'"
  shows "wp (releaseUnregistered m fixed) Q w"
  unfolding releaseUnregistered_def wp_bind wp_modify_st
  by (rule wp_releasePairs [where F = "{#}" and P = P and A = A and L = L])
     (use assms in \<open>auto simp: tapPairs_def\<close>)

lemma wp_anchorWebRTC:
  assumes p: "prep E r fresh False {#} L w"
  shows "wp (anchorWebRTC E r) (anchorPost E r L) w"
proof -
  let ?m = "\<lambda>l. newMediaSession None None (Some l)"
  have reg: "registers fresh False [] (\<lambda>c. inSetup c \<and> hookPairs c = []) (register (?m l) [])" for l
    by (auto simp: registers_def register_def hookPairs_def mediaTapPairs_def tapPairs_def newMediaSession_def
        split: option.split)
  have leg: "wp (case leg of None \<Rightarrow> failWith E r 488 ''Not Acceptable Here''
      | Some l \<Rightarrow> do { ok \<leftarrow> registerMedia E r (register (?m l) []);
          if ok then State_Monad.return (Some (SecuredAnchor l))
          else do { _ \<leftarrow> releaseUnregistered (?m l) []; State_Monad.return None } }) (anchorPost E r L) w'"
    if p': "prep E r fresh False {#} L w'" for leg w'
  proof (cases leg)
    case None
    then show ?thesis by (simp add: wp_failWith [OF p'] anchorPost_def)
  next
    case (Some l)
    show ?thesis
      unfolding Some option.case wp_bind
      apply (rule wp_registerMedia [OF _ reg])
      using p' apply simp
      apply simp
      apply (simp add: wp_return anchorPost_def)
      apply (simp add: wp_bind)
      apply (rule wp_releaseUnregistered)
      apply simp
      apply (simp add: newMediaSession_def)
      apply (simp add: wp_return anchorPost_def refused)
      done
  qed
  show ?thesis
    unfolding anchorWebRTC_def wp_bind wp_getCall wp_gets_st wp_modify_st
    by (rule wp_sync [OF p]) (rule leg, simp)
qed


lemma wp_anchorPlain:
  assumes p: "prep E r fresh False {#} L w"
  shows "wp (anchorPlain E r h port) (anchorPost E r L) w"
proof -
  have fl: "wp (failWith E r s reason) (anchorPost E r L) w'"
    if "prep E r fresh False {#} L w'" "isFinal s" for s reason w'
    by (rule wp_failWith [OF that]) (simp add: anchorPost_def)
  have rel: "wp (releasePairs qs) (\<lambda>_. wp (failWith E r s reason) (anchorPost E r L)) w'"
    if "prep E r fresh False (mset qs) L w'" "isFinal s" for qs s reason w'
    by (rule wp_releasePairs [where F = "{#}" and P = fresh and A = False and L = L]) (use that fl in auto)
  have cls: "wp (closeSides ss) (\<lambda>_. wp (releasePairs qs) (\<lambda>_. wp (failWith E r s reason) (anchorPost E r L))) w'"
    if "prep E r fresh False (mset qs) L w'" "isFinal s" for qs ss s reason w'
    by (rule wp_closeSides [OF that(1)]) (rule rel [OF _ that(2)])
  let ?m = "\<lambda>s1 s2 rtp rtcp. newMediaSession (Some (setRemote (Some rtp) (Some rtcp) s1)) (Some s2) None"
  have reg: "registers fresh False [q1, q2] inSetup (register (?m s1 s2 rtp rtcp) [q1, q2])" for q1 q2 s1 s2 rtp rtcp
    by (auto simp: registers_def register_def hookPairs_def mediaTapPairs_def tapPairs_def newMediaSession_def
        split: option.split)
  have tail: "wp (do { ok \<leftarrow> registerMedia E r (register (?m s1 s2 rtp rtcp) [q1, q2]);
        if ok then State_Monad.return (Some (PlainAnchor q1 q2))
        else do { _ \<leftarrow> releaseUnregistered (?m s1 s2 rtp rtcp) [q1, q2]; State_Monad.return None } })
      (anchorPost E r L) w'"
    if "prep E r fresh False (mset [q1, q2]) L w'" for q1 q2 s1 s2 rtp rtcp w'
    unfolding wp_bind
  proof (rule wp_registerMedia [OF _ reg, where F = "{#}" and E = E and L = L])
    show "prep E r fresh False ({#} + mset [q1, q2]) L w'" using that by simp
    show "wp (if False then State_Monad.return (Some (PlainAnchor q1 q2))
        else do { _ \<leftarrow> releaseUnregistered (?m s1 s2 rtp rtcp) [q1, q2]; State_Monad.return None }) (anchorPost E r L) w0"
      if "prep E r (\<lambda>_. False) False ({#} + mset [q1, q2]) L w0" for w0
      unfolding if_False wp_bind
      by (rule wp_releaseUnregistered [where P = "\<lambda>_. False" and A = False and L = L])
         (use that in \<open>auto simp: newMediaSession_def wp_return anchorPost_def refused\<close>)
  qed (simp_all add: wp_return anchorPost_def)
  have bind2: "wp (bindSide E q2) (\<lambda>s2. wp (case s2 of
        None \<Rightarrow> do { _ \<leftarrow> closeSides [s1]; _ \<leftarrow> releasePairs [q1, q2]; failWith E r 500 ''Server Error'' }
      | Some pbxS \<Rightarrow> (let (rtp, rtcp) = udpAddrPair h port; m = ?m s1 pbxS rtp rtcp
          in do { ok \<leftarrow> registerMedia E r (register m [q1, q2]);
            if ok then State_Monad.return (Some (PlainAnchor q1 q2))
            else do { _ \<leftarrow> releaseUnregistered m [q1, q2]; State_Monad.return None } })) (anchorPost E r L)) w'"
    if p': "prep E r fresh False (mset [q1, q2]) L w'" for q1 q2 s1 w'
  proof (rule wp_bindSide [OF p'])
    fix s2 w2
    assume p2: "prep E r fresh False (mset [q1, q2]) L w2"
    show "wp (case s2 of
        None \<Rightarrow> do { _ \<leftarrow> closeSides [s1]; _ \<leftarrow> releasePairs [q1, q2]; failWith E r 500 ''Server Error'' }
      | Some pbxS \<Rightarrow> (let (rtp, rtcp) = udpAddrPair h port; m = ?m s1 pbxS rtp rtcp
          in do { ok \<leftarrow> registerMedia E r (register m [q1, q2]);
            if ok then State_Monad.return (Some (PlainAnchor q1 q2))
            else do { _ \<leftarrow> releaseUnregistered m [q1, q2]; State_Monad.return None } })) (anchorPost E r L) w2"
      using tail [OF p2] cls [OF p2, of 500] by (cases s2) (simp_all add: wp_bind Let_def split: prod.split)
  qed
  show ?thesis
    unfolding anchorPlain_def wp_bind
  proof (rule wp_acquire [OF p])
    fix q1 w1
    assume p1: "prep E r fresh False {#q1#} L w1"
    show "wp (case Some q1 of None \<Rightarrow> failWith E r 503 ''Service Unavailable'' | Some epP \<Rightarrow> do {
        q2 \<leftarrow> acquire E;
        (case q2 of
           None \<Rightarrow> do { _ \<leftarrow> releasePairs [epP]; failWith E r 503 ''Service Unavailable'' }
         | Some pbxP \<Rightarrow> do {
             s1 \<leftarrow> bindSide E epP;
             (case s1 of
                None \<Rightarrow> do { _ \<leftarrow> releasePairs [epP, pbxP]; failWith E r 500 ''Server Error'' }
              | Some epS \<Rightarrow> do {
                  s2 \<leftarrow> bindSide E pbxP;
                  (case s2 of
                     None \<Rightarrow> do { _ \<leftarrow> closeSides [epS]; _ \<leftarrow> releasePairs [epP, pbxP]; failWith E r 500 ''Server Error'' }
                   | Some pbxS \<Rightarrow> (let (rtp, rtcp) = udpAddrPair h port; m = ?m epS pbxS rtp rtcp
                        in do { ok \<leftarrow> registerMedia E r (register m [epP, pbxP]);
                          if ok then State_Monad.return (Some (PlainAnchor epP pbxP))
                          else do { _ \<leftarrow> releaseUnregistered m [epP, pbxP]; State_Monad.return None } })) }) }) })
      (anchorPost E r L) w1"
      unfolding option.case wp_bind
    proof (rule wp_acquire [OF p1], goal_cases)
      case (1 w2)
      then show ?case using rel [of "[q1]" w2 503] by (simp add: wp_bind)
    next
      case (2 q2 w2)
      then have p2: "prep E r fresh False (mset [q1, q2]) L w2" by (simp add: add_mset_commute)
      show ?case
        unfolding option.case wp_bind
      proof (rule wp_bindSide [OF p2], goal_cases)
        case (1 s1 w3)
        show ?case
        proof (cases s1)
          case None
          show ?thesis unfolding None option.case wp_bind by (rule rel [OF 1]) simp
        next
          case (Some s)
          show ?thesis unfolding Some option.case wp_bind by (rule bind2 [OF 1])
        qed
      qed
    qed
  qed (simp add: fl)
qed

lemma wp_anchorMedia:
  assumes "prep E r fresh False {#} L w"
  shows "wp (anchorMedia E r) (anchorPost E r L) w"
  unfolding anchorMedia_def wp_bind wp_getCall
  using wp_anchorWebRTC [OF assms] wp_anchorPlain [OF assms]
  by (auto simp: wp_failWith [OF assms] anchorPost_def split: sum.split)

section \<open>The PBX leg and the answer\<close>

text \<open>The facts about the call that the PBX leg does not touch.\<close>

definition stable :: "(Call \<Rightarrow> bool) \<Rightarrow> bool" where
  "stable P = (\<forall>c c'. P c \<and> callState c' = callState c \<and> hookPairs c' = hookPairs c \<longrightarrow> P c')"

lemma stable_setup [simp]: "stable inSetup" "stable (\<lambda>c. inSetup c \<and> hookPairs c = [])"
  by (simp_all add: stable_def)

lemma stableD: "\<lbrakk>stable P; P c; callState c' = callState c; hookPairs c' = hookPairs c\<rbrakk> \<Longrightarrow> P c'"
  unfolding stable_def by blast

lemma innocent_stable:
  assumes "stable P" "\<And>c. hookPairs (f c) = hookPairs c" "\<And>c. pendingTaps (f c) = pendingTaps c"
    "\<And>c. callState (f c) = callState c" "\<And>c. media c \<noteq> None \<Longrightarrow> media (f c) \<noteq> None"
    "\<And>c. releaseMedia (f c) = releaseMedia c"
  shows "innocent P A f"
  using assms(2-6) stableD [OF assms(1)] by (auto simp: innocent_def callHeld_def ptOk_def)

lemma innocent_leg: "stable P \<Longrightarrow> innocent P A (\<lambda>c. c\<lparr>pbxLeg := f (pbxLeg c)\<rparr>)"
  by (rule innocent_stable) (auto simp: hookPairs_def split: option.split)

lemma innocent_remote: "stable P \<Longrightarrow> innocent P A (setPBXRemote h p)"
  by (rule innocent_stable)
     (auto simp: hookPairs_def setPBXRemote_def mediaTapPairs_def tapPairs_def Let_def
        split: option.split prod.split)

definition legPost :: "Env \<Rightarrow> nat \<Rightarrow> (Call \<Rightarrow> bool) \<Rightarrow> PortPair multiset \<Rightarrow> Response option \<Rightarrow> World \<Rightarrow> bool" where
  "legPost E r P L a w = (if a = None then over E r L w else prep E r P True {#} L w)"

lemma prep_failure: "prep E r P A F L w \<Longrightarrow> prep E r P A F L (addTrace [EvTerminatingHopFailure] w)"
  by (rule prep_trace) (simp_all add: finalOf_def)

lemma wp_originatePBX:
  assumes p: "prep E r P True {#} L w" and env: "provisionalsBelow E" "rejectionsFinal E" and st: "stable P"
  shows "wp (originatePBX E r offer) (legPost E r P L) w"
proof -
  have fl: "wp (failWith E r s reason) (legPost E r P L) w'"
    if "prep E r P True {#} L w'" "isFinal s" for s reason w'
    by (rule wp_failWith [OF that]) (simp add: legPost_def)
  have err: "wp (respondInboundFromLegError E r a) (\<lambda>_. legPost E r P L None) (addTrace [EvTerminatingHopFailure] w')"
    if "prep E r P True {#} L w'" "\<And>res. a = Rejected res \<Longrightarrow> 300 \<le> resStatus res" for a w'
    by (rule wp_respondError [OF prep_failure [OF that(1)] that(2)]) (simp_all add: legPost_def)
  have answered: "wp (case a of
         Answered res \<Rightarrow> do {
           _ \<leftarrow> ack E r s;
           _ \<leftarrow> locked E r (\<lambda>c. c\<lparr>pbxLeg := map_option (\<lambda>l. l\<lparr>legAnswer := resBody res\<rparr>) (pbxLeg c)\<rparr>);
           State_Monad.return (Some res) }
       | _ \<Rightarrow> do {
           _ \<leftarrow> emit [EvTerminatingHopFailure];
           _ \<leftarrow> respondInboundFromLegError E r a;
           State_Monad.return None }) (legPost E r P L) w'"
    if p': "prep E r P True {#} L w'" "\<And>res. a = Rejected res \<Longrightarrow> 300 \<le> resStatus res" for a s w'
  proof (cases a)
    case (Answered res)
    show ?thesis
      unfolding Answered LegResult.case wp_bind wp_return
      by (rule wp_ack [OF p'(1)], rule wp_locked [OF _ innocent_leg [OF st]], assumption) (simp add: legPost_def)
  next
    case (Rejected res)
    show ?thesis
      unfolding Rejected LegResult.case wp_bind wp_emit wp_return by (rule err) (use p' Rejected in auto)
  next
    case LegError
    show ?thesis
      unfolding LegError LegResult.case wp_bind wp_emit wp_return by (rule err) (use p' in auto)
  qed
  show ?thesis
  proof (cases "ParseUri (lib E) (nhURI (cfgNextHop (cfg E)))")
    case None
    then show ?thesis by (simp add: originatePBX_def Let_def fl p)
  next
    case (Some uri)
    show ?thesis
      unfolding originatePBX_def Let_def Some option.case wp_bind wp_getCall wp_gets_st
    proof (rule wp_invite [OF p], goal_cases)
      case (1 sess w1)
      show ?case
      proof (cases sess)
        case None
        then show ?thesis
          using fl [OF prep_failure [OF 1], of 503] by (simp add: hopFailed_def wp_simps)
      next
        case (Some s)
        show ?thesis
          unfolding Some option.case wp_bind
          by (rule wp_locked [OF 1 innocent_leg [OF st]], rule wp_waitAnswer [OF _ env], assumption)
             (rule answered)
      qed
    qed
  qed
qed

lemma wp_reportCodecAgreement:
  assumes "prep E r P A F L w" "\<And>w'. prep E r P A F L w' \<Longrightarrow> Q () w'"
  shows "wp (reportCodecAgreement ep pbx) Q w"
  using assms by (auto simp: reportCodecAgreement_def wp_simps prep_trace finalOf_def split: sum.split)

text \<open>Establishing moves the pending taps to the session.\<close>

abbreviation established :: "Call \<Rightarrow> bool" where
  "established \<equiv> \<lambda>c. callState c = stateEstablished \<and> pendingTaps c = []"

lemma fold_addTap: "tapPairs (fold addTap ts m) = tapPairs m @ concat (map (\<lambda>t. [callerPair t, calleePair t]) ts)"
  by (induction ts arbitrary: m) (auto simp: tapPairs_def addTap_def)

lemma ptPairs_taps: "ptOk c \<Longrightarrow> concat (map (\<lambda>t. [callerPair t, calleePair t]) (map ptTap (pendingTaps c))) = ptPairs (pendingTaps c)"
  by (auto simp: ptOk_def ptPairs_def intro!: arg_cong [where f = concat])

lemma establish_held:
  assumes "media c \<noteq> None" "releaseMedia c \<noteq> None" "ptOk c"
  shows "callHeld (establish c) + (if callState c = stateTearingDown then mset (ptPairs (pendingTaps c)) else {#}) = callHeld c"
proof -
  obtain m fixed where m: "media c = Some m" "releaseMedia c = Some fixed" using assms by auto
  have h: "mset (hookPairs (establish c)) = mset (hookPairs c) + mset (ptPairs (pendingTaps c))"
    using ptPairs_taps [OF assms(3)] m
    by (simp add: establish_def Let_def hookPairs_def mediaTapPairs_def fold_addTap)
  have "pendingTaps (establish c) = []" by (simp add: establish_def Let_def)
  moreover have "callState (establish c) = stateTearingDown \<longleftrightarrow> callState c = stateTearingDown"
    by (cases "callState c") (auto simp: establish_def Let_def canTransition_def)
  ultimately show ?thesis using h by (simp add: callHeld_def ptPairs_def)
qed

lemma prep_establish:
  assumes p: "prep E r P True {#} L w" and P: "\<And>c. P c \<Longrightarrow> inSetup c"
  shows "prep E r established True {#} L (updCall r establish w)"
proof -
  let ?c = "wCalls w ! r"
  have r: "r < length (wCalls w)" and m: "media ?c \<noteq> None" "releaseMedia ?c \<noteq> None"
    using p by (auto simp: prep_def)
  obtain L' where L': "acct {#} L' w" "quiet E r \<longrightarrow> L' = L" using p by (auto simp: prep_def books_def)
  then have ok: "ptOk ?c" using r by (auto simp: acct_def)
  define X where "X = (if callState ?c = stateTearingDown then mset (ptPairs (pendingTaps ?c)) else {#})"
  have e: "media (establish ?c) \<noteq> None" "releaseMedia (establish ?c) \<noteq> None" "pendingTaps (establish ?c) = []"
    using m by (auto simp: establish_def Let_def)
  have "acct {#} (L' + X) (updCall r establish w)"
  proof (rule acct_updCall [OF r L'(1)])
    show "ptOk (establish ?c)" by (simp add: ptOk_def e)
    show "{#} + L' + callHeld ?c = {#} + (L' + X) + callHeld (establish ?c)"
      using establish_held [OF m ok] by (simp add: X_def add.assoc add.commute add.left_commute)
  qed
  moreover have "quiet E r \<Longrightarrow> inSetup ?c" using p P by (auto simp: prep_def)
  ultimately show ?thesis
    using p L'(2) r e by (auto simp: prep_def books_def X_def establish_def Let_def canTransition_def)
qed

definition upPost :: "Env \<Rightarrow> nat \<Rightarrow> PortPair multiset \<Rightarrow> bool \<Rightarrow> World \<Rightarrow> bool" where
  "upPost E r L b w = (if b then up E r L w else over E r L w)"

lemma prep_answered:
  assumes "prep E r established True {#} L w"
  shows "up E r L (addTrace [EvRespond r 200 reason body hdrs b] w)"
  using assms by (auto simp: prep_def up_def finals_addTrace finalOf_def books_def)

lemma wp_answerEndpoint:
  assumes p: "prep E r P True {#} L w" and P: "\<And>c. P c \<Longrightarrow> inSetup c"
  shows "wp (answerEndpoint E r sdp hdrs) (upPost E r L) w"
proof -
  have 1: "wp (respond E r 200 ''OK'' sdp hdrs) (\<lambda>ok. wp (if ok then do {
         _ \<leftarrow> emit [EvSequencingLatency]; State_Monad.return True }
       else do { _ \<leftarrow> modify_st (releasePendingTaps r); _ \<leftarrow> modify_st (teardown r); State_Monad.return False })
      (upPost E r L)) w'" if "prep E r established True {#} L w'" for w'
    unfolding respond_def wp_simps
  proof (rule wp_sync [OF that], goal_cases)
    case (1 t w')
    have "up E r L (addTrace [EvSequencingLatency] (addTrace [EvRespond r 200 ''OK'' sdp hdrs b] w'))" for b
      using prep_answered [OF 1, of "''OK''" sdp hdrs b]
      by (auto simp: up_def books_def finals_addTrace finalOf_def)
    then show ?case
      using finish [OF 1, of 200] by (simp add: upPost_def wp_simps)
  qed
  show ?thesis
    unfolding answerEndpoint_def locked_def wp_bind wp_modify_st
    by (rule wp_sync [OF p]) (rule 1, rule prep_establish [OF _ P])
qed

lemma wp_failFalse:
  assumes "prep E r P A {#} L w" "isFinal s"
  shows "wp (failFalse E r s reason) (upPost E r L) w"
  unfolding failFalse_def wp_bind by (rule wp_fail [OF assms]) (simp add: wp_return upPost_def)

lemma wp_dialPBX:
  assumes p: "prep E r inSetup True {#} L w" and env: "provisionalsBelow E" "rejectionsFinal E"
  shows "wp (dialPBX E r epP pbxP) (upPost E r L) w"
proof -
  have 1: "wp (case a of None \<Rightarrow> State_Monad.return False
      | Some res \<Rightarrow> (case parseMedia (resBody res) of
            Inl _ \<Rightarrow> do { _ \<leftarrow> emit [EvTerminatingHopFailure]; failFalse E r 488 ''Not Acceptable Here'' }
          | Inr (pbxHost, pbxPort) \<Rightarrow> do {
              _ \<leftarrow> locked E r (setPBXRemote pbxHost pbxPort);
              (case rewriteToAnchor (resBody res) (mediaHost E) (RTP epP) of
                 Inl _ \<Rightarrow> failFalse E r 500 ''Server Error''
               | Inr epAnswer \<Rightarrow> do {
                   _ \<leftarrow> reportCodecAgreement epAnswer (resBody res);
                   answerEndpoint E r epAnswer (relayableResponseHeaders (lib E) res epAnswer) }) }))
      (upPost E r L) w'" if l: "legPost E r inSetup L a w'" for a w'
  proof (cases a)
    case None
    with l show ?thesis by (simp add: legPost_def upPost_def wp_return)
  next
    case (Some res)
    with l have p': "prep E r inSetup True {#} L w'" by (simp add: legPost_def)
    show ?thesis
    proof (cases "parseMedia (resBody res)")
      case (Inl e)
      then show ?thesis
        using wp_failFalse [OF prep_failure [OF p'], of 488] by (simp add: Some wp_simps)
    next
      case (Inr hp)
      obtain h port where hp: "hp = (h, port)" by force
      show ?thesis
        unfolding Some option.case Inr hp sum.case prod.case wp_bind
      proof (rule wp_locked [OF p' innocent_remote], goal_cases)
        case (2 w'')
        then show ?case
          using wp_failFalse [OF 2, of 500]
          by (auto simp: wp_bind split: sum.split intro!: wp_reportCodecAgreement [OF 2] wp_answerEndpoint)
      qed simp
    qed
  qed
  show ?thesis
    unfolding dialPBX_def wp_bind wp_getCall
    using wp_failFalse [OF p, of 500] wp_mono [OF wp_originatePBX [OF p env] 1]
    by (simp add: wp_bind split: sum.split)
qed

lemma wp_bridgeSecured:
  assumes p: "prep E r (\<lambda>c. inSetup c \<and> hookPairs c = []) True {#} L w"
    and env: "provisionalsBelow E" "rejectionsFinal E"
  shows "wp (bridgeSecuredToPBX E r leg) (upPost E r L) w"
proof -
  let ?P = "\<lambda>c. inSetup c \<and> hookPairs c = []"
  let ?f = "\<lambda>q s c. c\<lparr>media := map_option (\<lambda>m. m\<lparr>pbxSide := Some s\<rparr>) (media c), releaseMedia := Some [q]\<rparr>"
  have reg: "registers ?P True [q] inSetup (?f q s)" for q s
    by (auto simp: registers_def hookPairs_def mediaTapPairs_def tapPairs_def)
  have 1: "wp (case a of None \<Rightarrow> State_Monad.return False
      | Some res \<Rightarrow> (case parseMedia (resBody res) of
            Inl _ \<Rightarrow> do { _ \<leftarrow> emit [EvTerminatingHopFailure]; failFalse E r 488 ''Not Acceptable Here'' }
          | Inr (pbxHost, pbxPort) \<Rightarrow> do {
              _ \<leftarrow> locked E r (setPBXRemote pbxHost pbxPort);
              _ \<leftarrow> reportCodecAgreement (answerSDP leg) (resBody res);
              answerEndpoint E r (answerSDP leg) [] }))
      (upPost E r L) w'" if l: "legPost E r inSetup L a w'" for a w'
  proof (cases a)
    case None
    with l show ?thesis by (simp add: legPost_def upPost_def wp_return)
  next
    case (Some res)
    with l have p': "prep E r inSetup True {#} L w'" by (simp add: legPost_def)
    show ?thesis
    proof (cases "parseMedia (resBody res)")
      case (Inl e)
      then show ?thesis
        using wp_failFalse [OF prep_failure [OF p'], of 488] by (simp add: Some wp_simps)
    next
      case (Inr hp)
      obtain h port where hp: "hp = (h, port)" by force
      show ?thesis
        unfolding Some option.case Inr hp sum.case prod.case wp_bind
      proof (rule wp_locked [OF p' innocent_remote], goal_cases)
        case (2 w'')
        then show ?case
          by (auto intro!: wp_reportCodecAgreement [OF 2] wp_answerEndpoint)
      qed simp
    qed
  qed
  have 2: "wp (do { c \<leftarrow> getCall r;
      (case buildPlainOfferFromWebRTC (offerSDP c) (mediaHost E) (RTP q) of
         Inl _ \<Rightarrow> failFalse E r 500 ''Server Error''
       | Inr offer \<Rightarrow> do {
           ans \<leftarrow> originatePBX E r offer;
           (case ans of None \<Rightarrow> State_Monad.return False
            | Some res \<Rightarrow> (case parseMedia (resBody res) of
                  Inl _ \<Rightarrow> do { _ \<leftarrow> emit [EvTerminatingHopFailure]; failFalse E r 488 ''Not Acceptable Here'' }
                | Inr (pbxHost, pbxPort) \<Rightarrow> do {
                    _ \<leftarrow> locked E r (setPBXRemote pbxHost pbxPort);
                    _ \<leftarrow> reportCodecAgreement (answerSDP leg) (resBody res);
                    answerEndpoint E r (answerSDP leg) [] })) }) }) (upPost E r L) w'"
    if p': "prep E r inSetup True {#} L w'" for q w'
    unfolding wp_bind wp_getCall
    using wp_failFalse [OF p', of 500] wp_mono [OF wp_originatePBX [OF p' env stable_setup(1)] 1]
    by (simp add: wp_bind split: sum.split)
  have 3: "wp (do { ok \<leftarrow> registerMedia E r (?f q s);
      if \<not> ok then do { _ \<leftarrow> closeSides [s]; _ \<leftarrow> releasePairs [q]; State_Monad.return False }
      else do { c \<leftarrow> getCall r;
      (case buildPlainOfferFromWebRTC (offerSDP c) (mediaHost E) (RTP q) of
         Inl _ \<Rightarrow> failFalse E r 500 ''Server Error''
       | Inr offer \<Rightarrow> do {
           ans \<leftarrow> originatePBX E r offer;
           (case ans of None \<Rightarrow> State_Monad.return False
            | Some res \<Rightarrow> (case parseMedia (resBody res) of
                  Inl _ \<Rightarrow> do { _ \<leftarrow> emit [EvTerminatingHopFailure]; failFalse E r 488 ''Not Acceptable Here'' }
                | Inr (pbxHost, pbxPort) \<Rightarrow> do {
                    _ \<leftarrow> locked E r (setPBXRemote pbxHost pbxPort);
                    _ \<leftarrow> reportCodecAgreement (answerSDP leg) (resBody res);
                    answerEndpoint E r (answerSDP leg) [] })) }) } }) (upPost E r L) w'"
    if p': "prep E r ?P True {#q#} L w'" for q s w'
    unfolding wp_bind [of "registerMedia E r (?f q s)"]
  proof (rule wp_registerMedia [OF _ reg, where F = "{#}" and E = E and L = L], goal_cases)
    case 1
    show ?case using p' by simp
  next
    case (3 w0)
    then show ?case unfolding not_True_eq_False if_False by (rule 2)
  next
    case (4 w0)
    show ?case
      unfolding not_False_eq_True if_True wp_bind
      by (rule wp_closeSides [OF 4], rule wp_releasePairs, assumption)
         (simp add: wp_return upPost_def refused)
  qed simp
  show ?thesis
    unfolding bridgeSecuredToPBX_def wp_bind [of "acquire E"]
  proof (rule wp_acquire [OF p], goal_cases)
    case (1 w')
    then show ?case by (simp add: wp_failFalse)
  next
    case (2 q w1)
    show ?case
      unfolding option.case wp_bind [of "bindSide E q"]
    proof (rule wp_bindSide [OF 2], goal_cases)
      case (1 s w2)
      show ?case
      proof (cases s)
        case None
        show ?thesis
          unfolding None option.case wp_bind
          by (rule wp_releasePairs [where F = "{#}" and E = E and r = r and L = L and P = ?P and A = True])
             (use 1 in \<open>auto intro: wp_failFalse\<close>)
      next
        case (Some s')
        show ?thesis unfolding Some option.case by (rule 3 [OF 1])
      qed
    qed
  qed
qed

section \<open>The whole set-up\<close>

lemma up_relay: "up E r L w \<Longrightarrow> up E r L (addTrace [EvRelay r] w)"
  by (auto simp: up_def books_def finals_addTrace finalOf_def)

lemma wp_bridge:
  assumes p: "prep E r fresh False {#} L w" and env: "provisionalsBelow E" "rejectionsFinal E"
  shows "wp (bridge E r) (upPost E r L) w"
proof -
  have relay: "wp (do { up \<leftarrow> m; _ \<leftarrow> (if up then emit [EvRelay r] else State_Monad.return ()); State_Monad.return up })
      (upPost E r L) w'" if "wp m (upPost E r L) w'" for m w'
    unfolding wp_bind by (rule wp_mono [OF that]) (auto simp: wp_simps upPost_def up_relay)
  have 2: "wp (case a of None \<Rightarrow> State_Monad.return False
      | Some (SecuredAnchor leg) \<Rightarrow> do { up \<leftarrow> bridgeSecuredToPBX E r leg;
          _ \<leftarrow> (if up then emit [EvRelay r] else State_Monad.return ()); State_Monad.return up }
      | Some (PlainAnchor epP pbxP) \<Rightarrow> do { up \<leftarrow> dialPBX E r epP pbxP;
          _ \<leftarrow> (if up then emit [EvRelay r] else State_Monad.return ()); State_Monad.return up })
      (upPost E r L) w'" if "anchorPost E r L a w'" for a w'
    using that relay wp_dialPBX [OF _ env] wp_bridgeSecured [OF _ env]
    by (auto simp: anchorPost_def wp_return upPost_def split: option.split MediaAnchor.split)
  show ?thesis
    unfolding bridge_def runAppChain_def wp_bind [of "appChain E r (cfgSequence (cfg E))"]
  proof (rule wp_mono [OF wp_appChain [OF p env]], goal_cases)
    case (1 b w')
    show ?case
    proof (cases b)
      case True
      with 1 have "prep E r fresh False {#} L w'" by simp
      from wp_mono [OF wp_anchorMedia [OF this] 2] show ?thesis using True by (simp add: wp_bind)
    next
      case False
      with 1 show ?thesis by (simp add: wp_return upPost_def)
    qed
  qed
qed

end
