(* ===== verification/WorldInv.thy ===== *)
theory WorldInv
  imports BridgeProps
begin

text \<open>
  Invariants of the world while a call is set up. A predicate on worlds that does not look at
  ports, handles and clocks, and that survives the harmless updates of a call and every event but
  an INVITE, is kept by each operation of the set-up that sends no INVITE, whatever other
  goroutines do meanwhile.
\<close>

section \<open>keeps over case distinctions\<close>

lemma keeps_case_option: "keeps I m \<Longrightarrow> (\<And>x. keeps I (f x)) \<Longrightarrow> keeps I (case z of None \<Rightarrow> m | Some x \<Rightarrow> f x)"
  by (cases z) auto

lemma keeps_case_sum: "(\<And>x. keeps I (f x)) \<Longrightarrow> (\<And>x. keeps I (g x)) \<Longrightarrow> keeps I (case z of Inl x \<Rightarrow> f x | Inr x \<Rightarrow> g x)"
  by (cases z) auto

lemma keeps_case_leg: "(\<And>x. keeps I (f x)) \<Longrightarrow> (\<And>x. keeps I (g x)) \<Longrightarrow> keeps I h
  \<Longrightarrow> keeps I (case z of Answered x \<Rightarrow> f x | Rejected x \<Rightarrow> g x | LegError \<Rightarrow> h)"
  by (cases z) auto

lemma keeps_case_prod: "(\<And>x y. keeps I (f x y)) \<Longrightarrow> keeps I (case z of (x, y) \<Rightarrow> f x y)"
  by (cases z) auto

lemmas keeps_cases = keeps_case_option keeps_case_sum keeps_case_leg keeps_case_prod

lemma keeps_getCall: "keeps I (getCall r')"
  unfolding getCall_def by (rule keeps_gets_st)

section \<open>Invariants of the set-up\<close>

fun isInvite :: "Event \<Rightarrow> bool" where
  "isInvite (EvInvite _ _ _ _ _ _ _) = True"
| "isInvite _ = False"

lemma byes_not_invite: "e \<in> set (byes r c) \<Longrightarrow> \<not> isInvite e"
  by (auto simp: byes_def split: if_splits option.splits)

text \<open>\<open>loud\<close> are the events the predicate looks at.\<close>

locale quiet_base =
  fixes I :: "World \<Rightarrow> bool" and calm :: "(Call \<Rightarrow> Call) \<Rightarrow> bool" and loud :: "Event \<Rightarrow> bool"
  assumes inv_simps [simp]:
    "I (w\<lparr>wPorts := x1\<rparr>) = I w" "I (w\<lparr>wHandles := x2\<rparr>) = I w" "I (w\<lparr>wTick := x3\<rparr>) = I w" "I (w\<lparr>wOthers := x4\<rparr>) = I w"
  and inv_updCall: "I w \<Longrightarrow> calm f \<Longrightarrow> I (updCall r f w)"
  and inv_addTrace: "I w \<Longrightarrow> \<forall>e \<in> set es. \<not> loud e \<Longrightarrow> I (addTrace es w)"
  and calm_taps: "\<And>ts. calm (\<lambda>c. c\<lparr>pendingTaps := ts\<rparr>)"
      "\<And>t. calm (\<lambda>c. c\<lparr>pendingTaps := pendingTaps c @ t\<rparr>)"
  and calm_appLegs: "\<And>l. calm (\<lambda>c. c\<lparr>appLegs := appLegs c @ l\<rparr>)"

text \<open>An invariant that a teardown keeps as a whole and that does not listen to what every operation
  sends.\<close>

locale quiet_inv = quiet_base +
  assumes quiet_teardown: "I w \<Longrightarrow> I (teardown r w)"
  and quiet_events: "\<And>r s reason body hdrs ok. \<not> loud (EvRespond r s reason body hdrs ok)"
    "\<And>r s b. \<not> loud (EvWait r s b)" "\<And>r s. \<not> loud (EvAck r s)"

text \<open>One that listens to INVITEs only.\<close>

locale inv_base = quiet_base I calm isInvite for I calm

locale world_inv = inv_base +
  assumes inv_teardown: "I w \<Longrightarrow> I (teardown r w)"

sublocale world_inv \<subseteq> quiet_inv I calm isInvite
  by unfold_locales (simp_all add: inv_teardown)

text \<open>An invariant that each step of a teardown keeps.\<close>

locale calm_inv = inv_base +
  assumes inv_regRemove: "I w \<Longrightarrow> I (regRemove x y w)"
  and calm_dies: "calm (\<lambda>c. c\<lparr>callState := stateTearingDown, cancelled := True\<rparr>)"
  and calm_closed: "\<And>h. calm (\<lambda>c. c\<lparr>media := map_option (\<lambda>m. fst (closeSession m h)) (media c)\<rparr>)"

lemma runRelease_upd:
  "media (wCalls w ! r) = Some m \<Longrightarrow> runRelease r fixed w = updCall r (\<lambda>c. c\<lparr>media := map_option (\<lambda>m. fst (closeSession m (wHandles w))) (media c)\<rparr>)
     (w\<lparr>wHandles := snd (closeSession m (wHandles w)), wPorts := fold Release (fixed @ tapPairs m) (wPorts w)\<rparr>)"
  "media (wCalls w ! r) = None \<Longrightarrow> runRelease r fixed w = w\<lparr>wPorts := fold Release fixed (wPorts w)\<rparr>"
  by (simp_all add: runRelease_def updCall_def split: prod.split)

sublocale calm_inv \<subseteq> world_inv
proof unfold_locales
  fix w r
  assume w: "I w"
  have rel: "I (runRelease r fixed w)" if "I w" for fixed w
    using that inv_updCall [OF _ calm_closed] by (cases "media (wCalls w ! r)") (simp_all add: runRelease_upd)
  show "I (teardown r w)"
    using w byes_not_invite
    by (auto simp: teardown_def Let_def intro!: inv_addTrace inv_regRemove rel inv_updCall calm_dies split: option.split)
qed

lemma keeps_sync_moves:
  assumes "\<And>t j w. j \<in> set (interf E t) \<Longrightarrow> I w \<Longrightarrow> I (applyInterf j w)" "\<And>w t. I (w\<lparr>wTick := t\<rparr>) = I w"
  shows "keeps I (sync E)"
proof -
  have *: "set js \<subseteq> set (interf E t) \<Longrightarrow> I w \<Longrightarrow> I (fold applyInterf js w)" for t js w
    by (induction js arbitrary: w) (auto intro: assms(1))
  show ?thesis unfolding sync_def
    by (intro keeps_bind keeps_gets_st keeps_modify_st keeps_return) (auto simp: assms(2) intro: *)
qed

text \<open>What one call's handler needs of an invariant: \<open>E\<close> is its environment, \<open>r\<close> its call. First the operations
  that do not end the call.\<close>

locale own_calm =
  fixes I :: "World \<Rightarrow> bool" and calm :: "(Call \<Rightarrow> Call) \<Rightarrow> bool" and loud :: "Event \<Rightarrow> bool"
    and E :: Env and r :: nat
  assumes own_simps [simp]:
    "I (w\<lparr>wPorts := x1\<rparr>) = I w" "I (w\<lparr>wHandles := x2\<rparr>) = I w" "I (w\<lparr>wTick := x3\<rparr>) = I w" "I (w\<lparr>wOthers := x4\<rparr>) = I w"
  and own_updCall: "I w \<Longrightarrow> calm f \<Longrightarrow> I (updCall r f w)"
  and own_addTrace: "I w \<Longrightarrow> \<forall>e \<in> set es. \<not> loud e \<Longrightarrow> I (addTrace es w)"
  and own_taps: "\<And>ts. calm (\<lambda>c. c\<lparr>pendingTaps := ts\<rparr>)"
      "\<And>t. calm (\<lambda>c. c\<lparr>pendingTaps := pendingTaps c @ t\<rparr>)"
  and own_interf: "j \<in> set (interf E t) \<Longrightarrow> I w \<Longrightarrow> I (applyInterf j w)"
  and own_events: "\<And>s reason body hdrs ok. \<not> loud (EvRespond r s reason body hdrs ok)"
    "\<And>s b. \<not> loud (EvWait r s b)"
begin

lemma own_releasePendingTaps: "I w \<Longrightarrow> I (releasePendingTaps r w)"
  by (auto simp: releasePendingTaps_def Let_def intro!: own_updCall own_taps)

lemma keeps_sync: "keeps I (sync E)"
  by (rule keeps_sync_moves) (auto intro: own_interf)

lemma keeps_emit: "(\<And>e. e \<in> set es \<Longrightarrow> \<not> loud e) \<Longrightarrow> keeps I (emit es)"
  unfolding emit_def by (rule keeps_modify_st) (simp add: own_addTrace)

lemma keeps_locked: "calm f \<Longrightarrow> keeps I (locked E r f)"
  unfolding locked_def by (intro keeps_bind keeps_sync keeps_modify_st own_updCall)

lemma keeps_respond: "keeps I (respond E r s reason body hdrs)"
  unfolding respond_def by (intro keeps_bind keeps_sync keeps_emit keeps_return) (simp add: own_events)

lemma keeps_releasePairs: "keeps I (releasePairs qs)"
  unfolding releasePairs_def by (rule keeps_modify_st) simp

lemma keeps_closeSides: "keeps I (closeSides ss)"
  unfolding closeSides_def by (rule keeps_modify_st) simp

lemma keeps_acquire: "keeps I (acquire E)"
  unfolding acquire_def by (intro keeps_bind keeps_sync keeps_gets_st keeps_modify_st keeps_return) simp

lemma keeps_bindSide: "keeps I (bindSide E p)"
  unfolding bindSide_def by (intro keeps_bind keeps_sync keeps_gets_st keeps_modify_st keeps_return) simp

lemma keeps_relay: "keeps I (relayProvisional E r rs)"
  by (induction rs) (auto intro: keeps_return keeps_bind keeps_respond)

lemma keeps_wait: "keeps I (waitAnswer E r s b)"
  unfolding waitAnswer_def
  by (intro keeps_bind keeps_sync keeps_emit keeps_relay keeps_return) (simp add: own_events)

lemma keeps_dial: "\<not> loud (EvInvite r role (fst d) (fst (snd d)) body hdrs (b @ snd (snd d))) \<Longrightarrow> keeps I (invite E r role d b body hdrs)"
  unfolding invite_def by (intro keeps_bind keeps_sync keeps_emit keeps_return) simp

lemma keeps_releaseTap: "keeps I (releaseTap t)"
  unfolding releaseTap_def by (intro keeps_bind keeps_closeSides keeps_releasePairs)

lemma keeps_acquireTap: "keeps I (acquireTap E)"
  unfolding acquireTap_def
  by (intro keeps_bind keeps_cases keeps_acquire keeps_bindSide keeps_closeSides keeps_releasePairs keeps_return)

lemma keeps_releaseUnregistered: "keeps I (releaseUnregistered m fixed)"
  unfolding releaseUnregistered_def by (intro keeps_bind keeps_modify_st keeps_releasePairs) simp

lemma keeps_registerMedia: "calm f \<Longrightarrow> keeps I (registerMedia E r f)"
  unfolding registerMedia_def
  by (intro keeps_bind keeps_sync keeps_getCall keeps_if keeps_modify_st own_updCall keeps_return)

end

text \<open>Then those that may.\<close>

locale own_inv = own_calm +
  assumes own_teardown: "I w \<Longrightarrow> I (teardown r w)"
begin

lemma keeps_finish: "keeps I (modify_st (releasePendingTaps r))" "keeps I (modify_st (teardown r))"
  by (auto intro: keeps_modify_st own_releasePendingTaps own_teardown)

lemma keeps_fail: "keeps I (fail E r s reason)"
  unfolding fail_def by (intro keeps_bind keeps_respond keeps_finish)

lemma keeps_respondError: "keeps I (respondInboundFromLegError E r a)"
  unfolding respondInboundFromLegError_def by (intro keeps_bind keeps_cases keeps_respond keeps_finish)

lemma keeps_failWith: "keeps I (failWith E r s reason)"
  unfolding failWith_def by (intro keeps_bind keeps_fail keeps_return)

lemma keeps_failFalse: "keeps I (failFalse E r s reason)"
  unfolding failFalse_def by (intro keeps_bind keeps_fail keeps_return)

lemma keeps_anchorMedia: "(\<And>m fixed. calm (register m fixed)) \<Longrightarrow> keeps I (anchorMedia E r)"
  unfolding anchorMedia_def anchorWebRTC_def anchorPlain_def Let_def
  by (intro keeps_bind keeps_getCall keeps_if keeps_cases keeps_sync keeps_gets_st keeps_modify_st keeps_failWith
      keeps_registerMedia keeps_return keeps_releaseUnregistered keeps_acquire keeps_bindSide keeps_closeSides
      keeps_releasePairs) simp_all

end

text \<open>An invariant that the answer of a leg does not touch.\<close>

locale own_acks = own_inv +
  assumes own_ack: "\<And>s. \<not> loud (EvAck r s)"
  and own_appLegs: "\<And>l. calm (\<lambda>c. c\<lparr>appLegs := appLegs c @ l\<rparr>)"
begin

lemma keeps_ack: "keeps I (ack E r s)"
  unfolding ack_def by (intro keeps_bind keeps_sync keeps_emit) (simp add: own_ack)

end

text \<open>An invariant that does not listen to what a set-up sends besides its INVITEs either.\<close>

locale own_world = own_acks +
  assumes own_quiet: "\<And>name. \<not> loud (EvAppInvocation name)" "\<And>name. \<not> loud (EvAppFailure name)"
    "\<not> loud EvTerminatingHopFailure" "\<not> loud EvSequencingLatency" "\<And>a b. \<not> loud (EvMediaCodecMismatch a b)"
    "\<not> loud (EvRelay r)"
begin

lemma keeps_appLegFailed: "keeps I (appLegFailed app tap)"
  unfolding appLegFailed_def
  by (intro keeps_bind keeps_cases keeps_releaseTap keeps_emit keeps_return) (simp add: own_quiet)

lemma keeps_appAnswered: "keeps I (appAnswered E r app tap lid s res)"
  unfolding appAnswered_def
  by (intro keeps_bind keeps_cases keeps_ack keeps_releaseTap keeps_locked keeps_emit keeps_return own_taps own_appLegs) (simp add: own_quiet)

lemma keeps_reportCodecAgreement: "keeps I (reportCodecAgreement a b)"
  unfolding reportCodecAgreement_def
  by (intro keeps_cases keeps_return keeps_if keeps_emit) (simp add: own_quiet)

lemma keeps_answerEndpoint: "calm establish \<Longrightarrow> keeps I (answerEndpoint E r sdp hdrs)"
  unfolding answerEndpoint_def
  by (intro keeps_bind keeps_locked keeps_respond keeps_if keeps_emit keeps_finish keeps_return) (simp_all add: own_quiet)

end

context quiet_inv
begin

lemma inv_interf: "I w \<Longrightarrow> I (applyInterf j w)"
  by (cases j) (auto simp: quiet_teardown split: option.split prod.split)

end

sublocale quiet_inv \<subseteq> own_acks I calm loud E r for E r
  by unfold_locales (simp_all add: inv_updCall inv_addTrace calm_taps calm_appLegs inv_interf quiet_teardown quiet_events)

sublocale world_inv \<subseteq> own_world I calm isInvite E r for E r
  by unfold_locales simp_all

end
