(* ===== verification/FlowToken.thy ===== *)
theory FlowToken
  imports GoNet
begin

text \<open>
  Flow tokens, internal/b2bua/flowtoken.go: the address and transport a registered peer came
  from, packed into the user part of a Path and read back from a Route, with the URL-safe base64
  of the standard library written out.
\<close>

section \<open>URL-safe base64 without padding\<close>

definition b64char :: "nat \<Rightarrow> char" where
  "b64char n = (if n < 26 then char_of (65 + n) else if n < 52 then char_of (71 + n)
     else if n < 62 then char_of (n - 4) else if n = 62 then CHR ''-'' else CHR ''_'')"

definition b64val :: "char \<Rightarrow> nat option" where
  "b64val c = (let k = of_char c :: nat in
     if 65 \<le> k \<and> k < 91 then Some (k - 65) else if 97 \<le> k \<and> k < 123 then Some (k - 71)
     else if 48 \<le> k \<and> k < 58 then Some (k + 4) else if c = CHR ''-'' then Some 62
     else if c = CHR ''_'' then Some 63 else None)"

fun sextets :: "byte list \<Rightarrow> nat list" where
  "sextets (a # b # c # r) =
     (let v = unat a * 65536 + unat b * 256 + unat c
      in [v div 262144, v div 4096 mod 64, v div 64 mod 64, v mod 64] @ sextets r)"
| "sextets [a, b] = (let v = unat a * 65536 + unat b * 256 in [v div 262144, v div 4096 mod 64, v div 64 mod 64])"
| "sextets [a] = (let v = unat a * 65536 in [v div 262144, v div 4096 mod 64])"
| "sextets [] = []"

fun unsextets :: "nat list \<Rightarrow> byte list option" where
  "unsextets (a # b # c # d # r) =
     (let v = a * 262144 + b * 4096 + c * 64 + d in
      case unsextets r of None \<Rightarrow> None
      | Some bs \<Rightarrow> Some ([byte_of (v div 65536), byte_of (v div 256), byte_of v] @ bs))"
| "unsextets [a, b, c] = (let v = a * 262144 + b * 4096 + c * 64 in Some [byte_of (v div 65536), byte_of (v div 256)])"
| "unsextets [a, b] = (let v = a * 262144 + b * 4096 in Some [byte_of (v div 65536)])"
| "unsextets [a] = None"
| "unsextets [] = Some []"

definition EncodeToString :: "byte list \<Rightarrow> string" where
  "EncodeToString bs = map b64char (sextets bs)"

text \<open>Decoding skips line breaks and refuses any other character outside the alphabet.\<close>

definition DecodeString :: "string \<Rightarrow> byte list option" where
  "DecodeString s = (let cs = filter (\<lambda>c. c \<noteq> CR \<and> c \<noteq> NL) s in
     if list_all (\<lambda>c. b64val c \<noteq> None) cs then unsextets (map (the \<circ> b64val) cs) else None)"

section \<open>Tokens\<close>

record Flow =
  flowAddr :: string
  flowTransport :: string

definition codeToTransport :: "string list" where
  "codeToTransport = [''udp'', ''tcp'', ''tls'', ''ws'', ''wss'']"

definition transportToCode :: "string \<Rightarrow> byte option" where
  "transportToCode t = map_of [(''udp'', 0), (''tcp'', 1), (''tls'', 2), (''ws'', 3), (''wss'', 4)] t"

datatype token_error = TokTransport | TokAddr | TokIP | TokPort | TokDecode | TokLength nat | TokCode byte

definition mintFlowToken :: "Flow \<Rightarrow> token_error + string" where
  "mintFlowToken f =
     (case transportToCode (toLower (flowTransport f)) of
        None \<Rightarrow> Inl TokTransport
      | Some code \<Rightarrow>
          (case SplitHostPort (flowAddr f) of
             None \<Rightarrow> Inl TokAddr
           | Some (host, portStr) \<Rightarrow>
               (case ParseIP host of
                  None \<Rightarrow> Inl TokIP
                | Some ip \<Rightarrow>
                    (case ParseUint16 portStr of
                       None \<Rightarrow> Inl TokPort
                     | Some port \<Rightarrow>
                         (let addr = (case To4 ip of Some v4 \<Rightarrow> v4
                                      | None \<Rightarrow> (case To16 ip of Some b \<Rightarrow> b | None \<Rightarrow> []))
                          in Inr (EncodeToString ([code] @ addr @ [byte_of (port div 256), byte_of port])))))))"

definition parseFlowToken :: "string \<Rightarrow> token_error + Flow" where
  "parseFlowToken token =
     (case DecodeString token of
        None \<Rightarrow> Inl TokDecode
      | Some blob \<Rightarrow>
          if length blob \<noteq> 1 + 4 + 2 \<and> length blob \<noteq> 1 + 16 + 2 then Inl (TokLength (length blob))
          else
            (let ipLen = (if length blob = 1 + 4 + 2 then 4 else 16) in
             if unat (blob ! 0) \<ge> length codeToTransport then Inl (TokCode (blob ! 0))
             else
               (let ip = take ipLen (drop 1 blob);
                    port = unat (blob ! (1 + ipLen)) * 256 + unat (blob ! (2 + ipLen))
                in Inr \<lparr>flowAddr = JoinHostPort (IPString ip) (itoa (int port)),
                        flowTransport = codeToTransport ! unat (blob ! 0)\<rparr>)))"

section \<open>Facts\<close>

lemma b64val_char: "n < 64 \<Longrightarrow> b64val (b64char n) = Some n"
  by (auto simp: b64val_def b64char_def Let_def)

lemma b64char_not_break: "n < 64 \<Longrightarrow> b64char n \<noteq> CR \<and> b64char n \<noteq> NL"
  using b64val_char [of n] by (auto simp: b64val_def)

lemma byte_lt: "unat (b :: byte) < 256"
  using unsigned_less [of b] by simp

lemma byte_of_unat [simp]: "byte_of (unat b) = b"
  by simp

lemma byte_of_cong: "m mod 256 = n mod 256 \<Longrightarrow> byte_of m = byte_of n"
  by (simp add: word_of_nat_eq_iff take_bit_eq_mod)

lemma byte_of_add: "byte_of (256 * k + unat b) = b"
proof -
  have "byte_of (256 * k + unat b) = byte_of (unat b)" by (rule byte_of_cong) simp
  then show ?thesis by (simp only: byte_of_unat)
qed

lemma sextets_lt: "x \<in> set (sextets bs) \<Longrightarrow> x < 64"
proof (induction bs rule: sextets.induct)
  case (1 a b c r)
  then show ?case using byte_lt [of a] byte_lt [of b] byte_lt [of c] by (auto simp: Let_def)
next
  case (2 a b)
  then show ?case using byte_lt [of a] byte_lt [of b] by (auto simp: Let_def)
next
  case (3 a)
  then show ?case using byte_lt [of a] by (auto simp: Let_def)
qed simp

lemma regroup: "(v div 262144) * 262144 + (v div 4096 mod 64) * 4096 + (v div 64 mod 64) * 64 + v mod 64 = (v :: nat)"
proof -
  have base: "x div 64 * 64 + x mod 64 = x" for x :: nat by simp
  have d: "v div 4096 = v div 64 div 64" "v div 262144 = v div 64 div 64 div 64" by (simp_all add: div_mult2_eq [symmetric])
  have "a * 262144 + b * 4096 + c * 64 + e = ((a * 64 + b) * 64 + c) * 64 + e" for a b c e :: nat by simp
  then show ?thesis by (simp only: d base)
qed

lemma unsextets_quad:
  "unsextets (v div 262144 # v div 4096 mod 64 # v div 64 mod 64 # v mod 64 # r) =
     (case unsextets r of None \<Rightarrow> None
      | Some bs \<Rightarrow> Some ([byte_of (v div 65536), byte_of (v div 256), byte_of v] @ bs))"
  by (simp only: unsextets.simps Let_def regroup)

lemma split_bytes:
  "byte_of ((unat a * 65536 + unat b * 256 + unat c) div 65536) = (a :: byte)"
  "byte_of ((unat a * 65536 + unat b * 256 + unat c) div 256) = (b :: byte)"
  "byte_of (unat a * 65536 + unat b * 256 + unat c) = (c :: byte)"
proof -
  have "(unat a * 65536 + unat b * 256 + unat c) div 65536 = unat a" using byte_lt [of b] byte_lt [of c] by simp
  then show "byte_of ((unat a * 65536 + unat b * 256 + unat c) div 65536) = a" by simp
  have "(unat a * 65536 + unat b * 256 + unat c) div 256 = 256 * unat a + unat b" using byte_lt [of c] by simp
  then show "byte_of ((unat a * 65536 + unat b * 256 + unat c) div 256) = b" by (simp only: byte_of_add)
  have "unat a * 65536 + unat b * 256 + unat c = 256 * (256 * unat a + unat b) + unat c" by simp
  then show "byte_of (unat a * 65536 + unat b * 256 + unat c) = c" by (simp only: byte_of_add)
qed

lemma unsextets_sextets: "unsextets (sextets bs) = Some bs"
proof (induction bs rule: sextets.induct)
  case (1 a b c r)
  then show ?case
    by (simp only: sextets.simps Let_def append.simps unsextets_quad split_bytes option.case)
next
  case (2 a b)
  let ?v = "unat a * 65536 + unat b * 256"
  have "?v mod 64 = 0" by presburger
  then have "?v div 262144 * 262144 + ?v div 4096 mod 64 * 4096 + ?v div 64 mod 64 * 64 = ?v"
    using regroup [of ?v] by linarith
  moreover have "byte_of (?v div 65536) = a" "byte_of (?v div 256) = b" using split_bytes [of a b 0] by simp_all
  ultimately show ?case by (simp only: sextets.simps Let_def unsextets.simps)
next
  case (3 a)
  let ?v = "unat a * 65536"
  have e: "?v = unat a * 16 * 64 * 64" by simp
  have 1: "?v mod 64 = 0" unfolding e by (rule mod_mult_self2_is_0)
  have "?v div 64 = unat a * 16 * 64" unfolding e by (rule nonzero_mult_div_cancel_right) simp
  then have 2: "?v div 64 mod 64 = 0" by (simp only: mod_mult_self2_is_0)
  then have "?v div 262144 * 262144 + ?v div 4096 mod 64 * 4096 = ?v"
    using regroup [of ?v] unfolding 1 2 by (simp only: mult_0 add_0_right)
  moreover have "byte_of (?v div 65536) = a" using split_bytes [of a 0 0] by simp
  ultimately show ?case by (simp only: sextets.simps Let_def unsextets.simps)
qed simp

lemma decode_encode: "DecodeString (EncodeToString bs) = Some bs"
proof -
  have f: "filter (\<lambda>c. c \<noteq> CR \<and> c \<noteq> NL) (EncodeToString bs) = EncodeToString bs"
    using b64char_not_break sextets_lt by (auto simp: EncodeToString_def intro!: filter_True)
  have v: "list_all (\<lambda>c. b64val c \<noteq> None) (EncodeToString bs)"
    using b64val_char sextets_lt [of _ bs] by (auto simp: EncodeToString_def list_all_iff)
  have "map (the \<circ> b64val) (EncodeToString bs) = sextets bs"
    using b64val_char sextets_lt [of _ bs] by (auto simp: EncodeToString_def intro!: map_idI)
  then show ?thesis by (simp only: DecodeString_def Let_def f v if_True unsextets_sextets)
qed

lemma To4_self: "length v = 4 \<Longrightarrow> To4 v = Some v"
  by (simp add: To4_def)


lemma sextets_length: "length (sextets bs) = (length bs * 4 + 2) div 3"
  by (induction bs rule: sextets.induct) (simp_all add: Let_def)

lemma v6_loop_length:
  "v6_loop s ip el = Some (ip', el') \<Longrightarrow> even (length ip) \<Longrightarrow> length ip \<le> 16 \<Longrightarrow> length ip' \<le> 16"
proof (induction s arbitrary: ip el rule: length_induct)
  case (1 s)
  show ?case
  proof (cases "16 \<le> length ip")
    case True
    then show ?thesis using "1.prems" by (subst (asm) v6_loop.simps) (auto split: if_splits)
  next
    case False
    then have le: "length ip + 2 \<le> 16" using "1.prems"(2) by presburger
    let ?ds = "takeWhile is_hex s"
    let ?ip = "ip @ [byte_of (hex_value ?ds div 256), byte_of (hex_value ?ds mod 256)]"
    have rec: "length ip' \<le> 16" if "v6_loop s' ?ip e = Some (ip', el')" "length s' < length s" for s' e
      using that "1.IH" le "1.prems"(2) by (auto dest!: spec [of _ s'])
    have 4: "length b = 4" if "parseIPv4 s = Some b" for b by (rule parseIPv4_length [OF that])
    have d: "length (dropWhile is_hex s) \<le> length s" by (rule length_dropWhile_le)
    show ?thesis
      using "1.prems"(1) False le rec 4 d
      by (subst (asm) v6_loop.simps) (auto simp: Let_def split: if_splits list.splits)
  qed
qed

lemma ParseIP_length: "ParseIP s = Some ip \<Longrightarrow> length ip = 16"
proof -
  have 6: "length ip = 16" if "parseIPv6 s = Some ip" for s ip
    using that v6_loop_length [of s "[]" None] v6_loop_length [of "drop 2 s" "[]" "Some 0"]
    by (auto simp: parseIPv6_def Let_def split: if_splits option.splits)
  assume "ParseIP s = Some ip"
  then show ?thesis
    using 6 parseIPv4_length by (auto simp: ParseIP_def v4in6_def split: list.splits if_splits)
qed

text \<open>What is packed, as a blob of seven or nineteen bytes.\<close>

definition addrBytes :: "byte list \<Rightarrow> byte list" where
  "addrBytes ip = (case To4 ip of Some v4 \<Rightarrow> v4 | None \<Rightarrow> (case To16 ip of Some b \<Rightarrow> b | None \<Rightarrow> []))"

lemma addrBytes_facts:
  assumes "length ip = 16"
  shows "length (addrBytes ip) = 4 \<or> length (addrBytes ip) = 16" "IPString (addrBytes ip) = IPString ip"
  using assms To4_length by (auto simp: addrBytes_def To16_def IPString_def To4_self split: option.split)

lemma mint_blob:
  assumes "mintFlowToken f = Inr t"
  obtains code h p ip port where "transportToCode (toLower (flowTransport f)) = Some code"
    "SplitHostPort (flowAddr f) = Some (h, p)" "ParseIP h = Some ip" "ParseUint16 p = Some port"
    "t = EncodeToString (code # addrBytes ip @ [byte_of (port div 256), byte_of port])"
  using assms by (auto simp: mintFlowToken_def addrBytes_def Let_def split: option.splits prod.splits)

lemma code_transport:
  "transportToCode s = Some code \<Longrightarrow> unat code < length codeToTransport \<and> codeToTransport ! unat code = s"
  by (auto simp: transportToCode_def codeToTransport_def split: if_splits)

lemma port_bytes: "p < 65536 \<Longrightarrow> unat (byte_of (p div 256)) * 256 + unat (byte_of p) = p"
  by (simp add: unsigned_of_nat take_bit_eq_mod)

lemma port_bytes_int: "p < 65536 \<Longrightarrow> uint (byte_of (p div 256)) * 256 + uint (byte_of p) = int p"
  using port_bytes [of p] by (metis of_nat_add of_nat_mult of_nat_numeral uint_nat)

lemma mint_parse:
  assumes "mintFlowToken f = Inr t"
  shows "\<exists>h p ip port. SplitHostPort (flowAddr f) = Some (h, p) \<and> ParseIP h = Some ip \<and> ParseUint16 p = Some port
       \<and> parseFlowToken t = Inr \<lparr>flowAddr = JoinHostPort (IPString ip) (itoa (int port)),
                                  flowTransport = toLower (flowTransport f)\<rparr>"
proof -
  obtain code h p ip port where m: "transportToCode (toLower (flowTransport f)) = Some code"
    "SplitHostPort (flowAddr f) = Some (h, p)" "ParseIP h = Some ip" "ParseUint16 p = Some port"
    "t = EncodeToString (code # addrBytes ip @ [byte_of (port div 256), byte_of port])"
    using assms by (rule mint_blob)
  have lt: "port < 65536" using m(4) by (auto simp: ParseUint16_def split: if_splits)
  note a = addrBytes_facts [OF ParseIP_length [OF m(3)]]
  have "parseFlowToken t = Inr \<lparr>flowAddr = JoinHostPort (IPString ip) (itoa (int port)),
                                  flowTransport = toLower (flowTransport f)\<rparr>"
    using a code_transport [OF m(1)] port_bytes_int [OF lt]
    by (auto simp: parseFlowToken_def m(5) decode_encode Let_def nth_append)
  with m show ?thesis by blast
qed

lemma ipv4_addr:
  assumes "length ip = 4" "port < 65536"
  shows "SplitHostPort (JoinHostPort (showV4 ip) (showNat port)) = Some (showV4 ip, showNat port)"
    "ParseIP (showV4 ip) = Some (v4in6 ip)" "ParseUint16 (showNat port) = Some port" "IPString (v4in6 ip) = showV4 ip"
proof -
  have dig: "is_digit c" if "c \<in> set (showNat port)" for c using that by (rule showNat_digits)
  show "SplitHostPort (JoinHostPort (showV4 ip) (showNat port)) = Some (showV4 ip, showNat port)"
    using dig showV4_chars [of _ ip] digit_not_sep
    by (intro SplitHostPort_Join) (fastforce simp: is_digit_def)+
  show "ParseIP (showV4 ip) = Some (v4in6 ip)" by (rule ParseIP_showV4 [OF assms(1)])
  show "ParseUint16 (showNat port) = Some port"
    using assms(2) dig by (simp add: ParseUint16_def list_all_iff)
  show "IPString (v4in6 ip) = showV4 ip" using assms(1) by (simp add: IPString_def To4_def v4in6_def)
qed

lemma minted_ipv4:
  assumes "mintFlowToken \<lparr>flowAddr = JoinHostPort (showV4 ip) (showNat port), flowTransport = tr\<rparr> = Inr t"
    "length ip = 4" "port < 65536"
  shows "parseFlowToken t = Inr \<lparr>flowAddr = JoinHostPort (showV4 ip) (showNat port), flowTransport = toLower tr\<rparr>"
  using mint_parse [OF assms(1)] ipv4_addr [OF assms(2,3)] by (auto simp: itoa_def)

section \<open>Properties\<close>

text \<open>A flow survives its token: parsing a minted token gives back the flow's transport in
  lower case and its address as the standard library prints it.\<close>

theorem flow_token_roundtrip:
  assumes "mintFlowToken f = Inr t"
  shows "\<exists>h p ip port. SplitHostPort (flowAddr f) = Some (h, p) \<and> ParseIP h = Some ip \<and> ParseUint16 p = Some port
       \<and> parseFlowToken t = Inr \<lparr>flowAddr = JoinHostPort (IPString ip) (itoa (int port)),
                                  flowTransport = toLower (flowTransport f)\<rparr>"
  using assms by (rule mint_parse)

theorem flow_token_roundtrip_witness:
  "mintFlowToken \<lparr>flowAddr = ''[2001:db8:0:0::7]:5061'', flowTransport = ''WSS''\<rparr> = Inr ''BCABDbgAAAAAAAAAAAAAAAcTxQ''
   \<and> parseFlowToken ''BCABDbgAAAAAAAAAAAAAAAcTxQ'' = Inr \<lparr>flowAddr = ''[2001:db8::7]:5061'', flowTransport = ''wss''\<rparr>"
proof -
  have m: "mintFlowToken \<lparr>flowAddr = ''[2001:db8:0:0::7]:5061'', flowTransport = ''WSS''\<rparr> = Inr ''BCABDbgAAAAAAAAAAAAAAAcTxQ''"
    by code_simp
  have s: "SplitHostPort ''[2001:db8:0:0::7]:5061'' = Some (''2001:db8:0:0::7'', ''5061'')"
    "map_option IPString (ParseIP ''2001:db8:0:0::7'') = Some ''2001:db8::7''" "ParseUint16 ''5061'' = Some 5061"
    "JoinHostPort ''2001:db8::7'' (itoa 5061) = ''[2001:db8::7]:5061''" "toLower ''WSS'' = ''wss''"
    by code_simp+
  obtain ip where ip: "ParseIP ''2001:db8:0:0::7'' = Some ip" "IPString ip = ''2001:db8::7''" using s(2) by auto
  from flow_token_roundtrip [OF m] show ?thesis by (simp add: m s ip)
qed

text \<open>A token is safe in a URI: it has 10 characters for an IPv4 flow or 26 for an IPv6 one,
  all of them letters, digits, hyphens or underscores.\<close>

theorem flow_token_is_uri_safe:
  assumes "mintFlowToken f = Inr t"
  shows "(length t = 10 \<or> length t = 26) \<and> (\<forall>c \<in> set t. c \<in> set (map b64char [0..<64]))"
proof -
  obtain code h p ip port where "ParseIP h = Some ip"
    and t: "t = EncodeToString (code # addrBytes ip @ [byte_of (port div 256), byte_of port])"
    using assms by (rule mint_blob)
  then have "length (addrBytes ip) = 4 \<or> length (addrBytes ip) = 16" using addrBytes_facts ParseIP_length by blast
  then have "length t = 10 \<or> length t = 26" by (auto simp: t EncodeToString_def sextets_length)
  moreover have "\<forall>c \<in> set t. c \<in> set (map b64char [0..<64])"
    using sextets_lt by (fastforce simp: t EncodeToString_def)
  ultimately show ?thesis by blast
qed

theorem flow_token_is_uri_safe_witness:
  "\<exists>t. mintFlowToken \<lparr>flowAddr = ''10.1.2.3:40000'', flowTransport = ''ws''\<rparr> = Inr t \<and> (length t = 10 \<or> length t = 26)"
proof -
  have m: "mintFlowToken \<lparr>flowAddr = ''10.1.2.3:40000'', flowTransport = ''ws''\<rparr> = Inr ''AwoBAgOcQA''" by code_simp
  show ?thesis using m flow_token_is_uri_safe [OF m] by blast
qed

text \<open>An IPv4 peer's own address comes back exactly, so that a request from that peer is told
  from one for it.\<close>

theorem ipv4_flow_comes_back:
  assumes "length ip = 4" "port < 65536" "tr \<in> set codeToTransport"
  shows "\<exists>t. mintFlowToken \<lparr>flowAddr = JoinHostPort (showV4 ip) (showNat port), flowTransport = tr\<rparr> = Inr t
       \<and> parseFlowToken t = Inr \<lparr>flowAddr = JoinHostPort (showV4 ip) (showNat port), flowTransport = tr\<rparr>"
proof -
  have tr: "toLower tr = tr" "transportToCode tr \<noteq> None"
    using assms(3) by (auto simp: codeToTransport_def transportToCode_def ascii_lower lowerChar_def)
  then obtain t where m: "mintFlowToken \<lparr>flowAddr = JoinHostPort (showV4 ip) (showNat port), flowTransport = tr\<rparr> = Inr t"
    using ipv4_addr [OF assms(1,2)] by (auto simp: mintFlowToken_def Let_def)
  with minted_ipv4 [OF m assms(1,2)] tr show ?thesis by simp
qed

theorem ipv4_flow_comes_back_witness:
  "\<exists>t. mintFlowToken \<lparr>flowAddr = JoinHostPort (showV4 [10, 1, 2, 3]) (showNat 40000), flowTransport = ''ws''\<rparr> = Inr t"
  using ipv4_flow_comes_back [of "[10, 1, 2, 3]" 40000 "''ws''"] by (auto simp: codeToTransport_def)

end
