(* ===== verification/Proxy.thy ===== *)
theory Proxy
  imports FlowToken Headers
begin

text \<open>
  The requests that are not bridged, internal/b2bua/proxy.go and register.go: forwarding with the
  relaying of every response, the registration edge that mints a flow token into a Path, and the
  routing of a request along the flow its top Route names. Messages belong to the SIP library:
  its operations on header lists are the fields of \<open>MsgLib\<close>.
\<close>

section \<open>Messages\<close>

record Request =
  reqMethod :: string
  reqRecipient :: Uri
  reqHeaders :: "Header list"
  reqBody :: string
  reqSource :: string
  reqTransport :: string
  reqDestination :: string

record RouteAddr =
  raUser :: string
  raHost :: string
  raPort :: int

record MsgLib =
  CloneRequest :: "Request \<Rightarrow> Request"
  GetHeaders :: "Header list \<Rightarrow> string \<Rightarrow> Header list"
  RemoveHeader :: "Header list \<Rightarrow> string \<Rightarrow> bool \<times> Header list"
  AppendHeader :: "Header list \<Rightarrow> Header \<Rightarrow> Header list"
  PrependHeader :: "Header list \<Rightarrow> Header \<Rightarrow> Header list"
  MaxForwards :: "Header list \<Rightarrow> 32 word option"
  MaxForwardsHeader :: "32 word \<Rightarrow> Header"
  RouteAddress :: "Header \<Rightarrow> RouteAddr option"
  RecordRouteHeader :: "RouteAddr \<Rightarrow> Header"
  HostPort :: "Uri \<Rightarrow> string"

abbreviation named :: "string \<Rightarrow> Header \<Rightarrow> bool" where
  "named n h \<equiv> equalFold (hdrName h) n"

fun removeFirst :: "('a \<Rightarrow> bool) \<Rightarrow> 'a list \<Rightarrow> 'a list" where
  "removeFirst p [] = []"
| "removeFirst p (x # xs) = (if p x then xs else x # removeFirst p xs)"

text \<open>A clone is equal; GetHeaders gives all headers of a name in order; RemoveHeader removes the
  first one and says whether there was one; Max-Forwards is read from the first header of that
  name, and a header made of a number reads as that number; made headers carry their name.\<close>

definition msgDocumented :: "MsgLib \<Rightarrow> bool" where
  "msgDocumented M =
     ((\<forall>q. CloneRequest M q = q)
      \<and> (\<forall>hs n. GetHeaders M hs n = filter (named n) hs)
      \<and> (\<forall>hs n. RemoveHeader M hs n = (if \<exists>h \<in> set hs. named n h then (True, removeFirst (named n) hs) else (False, hs)))
      \<and> (\<forall>hs h. AppendHeader M hs h = hs @ [h])
      \<and> (\<forall>hs h. PrependHeader M hs h = h # hs)
      \<and> (\<forall>hs. MaxForwards M hs = None \<longleftrightarrow> filter (named ''Max-Forwards'') hs = [])
      \<and> (\<forall>hs. MaxForwards M hs = MaxForwards M (take 1 (filter (named ''Max-Forwards'') hs)))
      \<and> (\<forall>v. MaxForwards M [MaxForwardsHeader M v] = Some v \<and> hdrName (MaxForwardsHeader M v) = ''Max-Forwards'')
      \<and> (\<forall>ra. hdrName (RecordRouteHeader M ra) = ''Record-Route''))"

record ProxyEnv =
  pCfg :: Config
  pSip :: SipLib
  pMsg :: MsgLib
  pathHost :: string
  pathPort :: int

section \<open>Building the forwarded request\<close>

text \<open>A prepare hook changes the headers of the clone; None is a slice out of bounds.\<close>

type_synonym hook = "Header list \<Rightarrow> Header list option"

fun runHooks :: "hook list \<Rightarrow> hook" where
  "runHooks [] hs = Some hs"
| "runHooks (p # ps) hs = (case p hs of None \<Rightarrow> None | Some hs' \<Rightarrow> runHooks ps hs')"

definition buildForward :: "ProxyEnv \<Rightarrow> Request \<Rightarrow> string \<Rightarrow> string \<Rightarrow> hook list \<Rightarrow> Request option" where
  "buildForward P req destination transport prepare =
     (let M = pMsg P;
          fwd = (CloneRequest M req)\<lparr>reqBody := reqBody req\<rparr>;
          hs1 = snd (RemoveHeader M (reqHeaders fwd) ''Max-Forwards'');
          newMF = (case MaxForwards M (reqHeaders req) of None \<Rightarrow> 70 | Some v \<Rightarrow> v - 1);
          hs2 = AppendHeader M hs1 (MaxForwardsHeader M newMF)
      in case runHooks prepare hs2 of
           None \<Rightarrow> None
         | Some hs3 \<Rightarrow>
             (let fwd1 = fwd\<lparr>reqHeaders := hs3\<rparr>;
                  fwd2 = (if transport \<noteq> []
                          then fwd1\<lparr>reqRecipient := AddTransport (pSip P) (reqRecipient fwd1) transport,
                                    reqTransport := toUpper transport\<rparr>
                          else fwd1)
              in Some (fwd2\<lparr>reqDestination := destination\<rparr>)))"

section \<open>Forwarding and relaying\<close>

text \<open>What the client transaction delivers: a response, the end of its responses, its
  termination, or the cancellation of the engine.\<close>

datatype ClientEvent = GotResponse Response | ResponsesClosed | TxDone | CtxDone

text \<open>What a handler does: send the forwarded request, answer by itself, relay a response.\<close>

datatype ProxyOut = Sent Request | Replied int string | Relayed Response

text \<open>How it ends; a handler still waiting for its transaction has consumed all events.\<close>

datatype ProxyEnd = Finished | Waiting | Panics | Loops

type_synonym proxyFault = "int \<times> string"

partial_function (option) removeAll_named :: "MsgLib \<Rightarrow> string \<Rightarrow> Header list \<Rightarrow> Header list option" where
  "removeAll_named M n hs = (if fst (RemoveHeader M hs n) then removeAll_named M n (snd (RemoveHeader M hs n))
     else Some (snd (RemoveHeader M hs n)))"

fun relayLoop :: "MsgLib \<Rightarrow> proxyFault \<Rightarrow> ClientEvent list \<Rightarrow> ProxyOut list \<times> ProxyEnd" where
  "relayLoop M onNoFinal [] = ([], Waiting)"
| "relayLoop M onNoFinal (ResponsesClosed # evs) = ([], Finished)"
| "relayLoop M onNoFinal (TxDone # evs) = ([Replied (fst onNoFinal) (snd onNoFinal)], Finished)"
| "relayLoop M onNoFinal (CtxDone # evs) = ([Replied 408 ''Request Timeout''], Finished)"
| "relayLoop M onNoFinal (GotResponse res # evs) =
     (let vias = GetHeaders M (resHeaders res) ''Via'' in
      case removeAll_named M ''Via'' (resHeaders res) of
        None \<Rightarrow> ([], Loops)
      | Some hs \<Rightarrow>
          if vias = [] then ([], Panics)
          else
            (let res' = res\<lparr>resHeaders := foldl (AppendHeader M) hs (tl vias)\<rparr> in
             if resStatus res \<ge> 200 then ([Relayed res'], Finished)
             else (let (outs, en) = relayLoop M onNoFinal evs in (Relayed res' # outs, en))))"

definition forwardAndRelay ::
  "ProxyEnv \<Rightarrow> Request \<Rightarrow> string \<Rightarrow> string \<Rightarrow> proxyFault \<Rightarrow> proxyFault \<Rightarrow> hook list \<Rightarrow> bool \<Rightarrow> ClientEvent list
     \<Rightarrow> ProxyOut list \<times> ProxyEnd" where
  "forwardAndRelay P req destination transport onSendErr onNoFinal prepare sendOk evs =
     (if MaxForwards (pMsg P) (reqHeaders req) = Some 0 then ([Replied 483 ''Too Many Hops''], Finished)
      else
        (case buildForward P req destination transport prepare of
           None \<Rightarrow> ([], Panics)
         | Some fwd \<Rightarrow>
             if \<not> sendOk then ([Replied (fst onSendErr) (snd onSendErr)], Finished)
             else (let (outs, en) = relayLoop (pMsg P) onNoFinal evs in (Sent fwd # outs, en))))"

definition forwardStateless ::
  "ProxyEnv \<Rightarrow> Request \<Rightarrow> string \<Rightarrow> string \<Rightarrow> hook list \<Rightarrow> bool \<Rightarrow> ProxyOut list \<times> ProxyEnd" where
  "forwardStateless P req destination transport prepare sendOk =
     (case buildForward P req destination transport prepare of
        None \<Rightarrow> ([], Panics)
      | Some fwd \<Rightarrow> (if sendOk then [Sent fwd] else [], Finished))"

definition nextHopTransport :: "Config \<Rightarrow> string" where
  "nextHopTransport c =
     (if nhTransport (cfgNextHop c) = TransportTLS then ''tls''
      else if nhTransport (cfgNextHop c) = TransportTCP then ''tcp'' else ''udp'')"

definition proxyUnmanaged :: "ProxyEnv \<Rightarrow> Request \<Rightarrow> bool \<Rightarrow> ClientEvent list \<Rightarrow> ProxyOut list \<times> ProxyEnd" where
  "proxyUnmanaged P req sendOk evs =
     (case ParseUri (pSip P) (nhURI (cfgNextHop (pCfg P))) of
        None \<Rightarrow> ([Replied 500 ''Internal Server Error''], Finished)
      | Some nextHop \<Rightarrow> forwardAndRelay P req (HostPort (pMsg P) nextHop) (nextHopTransport (pCfg P))
          (502, ''Bad Gateway'') (503, ''Service Unavailable'') [] sendOk evs)"

section \<open>Registration edge\<close>

definition pathValue :: "ProxyEnv \<Rightarrow> string \<Rightarrow> string" where
  "pathValue P token = ''<sip:'' @ token @ ''@'' @ pathHost P @ '':'' @ itoa (pathPort P) @ '';lr>''"

definition insertPath :: "ProxyEnv \<Rightarrow> string \<Rightarrow> hook" where
  "insertPath P token hs = Some (AppendHeader (pMsg P) hs (NewHeader (pSip P) ''Path'' (pathValue P token)))"

definition handleRegister :: "ProxyEnv \<Rightarrow> Request \<Rightarrow> bool \<Rightarrow> ClientEvent list \<Rightarrow> ProxyOut list \<times> ProxyEnd" where
  "handleRegister P req sendOk evs =
     (case mintFlowToken \<lparr>flowAddr = reqSource req, flowTransport = reqTransport req\<rparr> of
        Inl _ \<Rightarrow> ([Replied 500 ''Internal Server Error''], Finished)
      | Inr token \<Rightarrow>
          (case ParseUri (pSip P) (nhURI (cfgNextHop (pCfg P))) of
             None \<Rightarrow> ([Replied 500 ''Internal Server Error''], Finished)
           | Some nextHop \<Rightarrow> forwardAndRelay P req (HostPort (pMsg P) nextHop) (nextHopTransport (pCfg P))
               (502, ''Bad Gateway'') (503, ''Service Unavailable'') [insertPath P token] sendOk evs))"

section \<open>Routing along a flow\<close>

definition popRoute :: "MsgLib \<Rightarrow> hook" where
  "popRoute M hs = (let routes = GetHeaders M hs ''Route''; hs' = snd (RemoveHeader M hs ''Route'') in
     if routes = [] then None else Some (foldl (AppendHeader M) hs' (tl routes)))"

text \<open>None: the request is not for a flow and the normal handling proceeds.\<close>

definition routeToFlow :: "ProxyEnv \<Rightarrow> Request \<Rightarrow> bool \<Rightarrow> ClientEvent list \<Rightarrow> (ProxyOut list \<times> ProxyEnd) option" where
  "routeToFlow P req sendOk evs =
     (case GetHeader (pSip P) (reqHeaders req) ''Route'' of
        None \<Rightarrow> None
      | Some rt \<Rightarrow>
          (case RouteAddress (pMsg P) rt of
             None \<Rightarrow> None
           | Some ra \<Rightarrow>
               if raHost ra \<noteq> pathHost P \<or> raPort ra \<noteq> pathPort P then None
               else
                 (case parseFlowToken (raUser ra) of
                    Inl _ \<Rightarrow> None
                  | Inr flow \<Rightarrow>
                      (let outward = reqSource req = flowAddr flow;
                           destination = (if outward then HostPort (pMsg P) (reqRecipient req) else flowAddr flow);
                           transport = (if outward then [] else toLower (flowTransport flow));
                           prepare = [popRoute (pMsg P)]
                             @ (if \<not> outward \<and> reqMethod req = ''INVITE''
                                then [\<lambda>hs. Some (PrependHeader (pMsg P) hs (RecordRouteHeader (pMsg P) ra))] else [])
                       in Some (if reqMethod req = ''ACK''
                                then forwardStateless P req destination transport prepare sendOk
                                else forwardAndRelay P req destination transport (480, ''Temporarily Unavailable'')
                                       (480, ''Temporarily Unavailable'') prepare sendOk evs)))))"

text \<open>The engine's ACK and BYE handlers; the booleans are what the dialog caches answer.\<close>

definition onAck :: "ProxyEnv \<Rightarrow> Request \<Rightarrow> bool \<Rightarrow> ClientEvent list \<Rightarrow> ProxyOut list \<times> ProxyEnd" where
  "onAck P req sendOk evs = (case routeToFlow P req sendOk evs of Some r \<Rightarrow> r | None \<Rightarrow> ([], Finished))"

definition onBye :: "ProxyEnv \<Rightarrow> Request \<Rightarrow> bool \<Rightarrow> bool \<Rightarrow> bool \<Rightarrow> ClientEvent list \<Rightarrow> ProxyOut list \<times> ProxyEnd" where
  "onBye P req srvRead cliRead sendOk evs =
     (case routeToFlow P req sendOk evs of
        Some r \<Rightarrow> r
      | None \<Rightarrow> if srvRead \<or> cliRead then ([], Finished)
                else ([Replied 481 ''Call/Transaction Does Not Exist''], Finished))"

end
