(* ===== verification/Midcall.thy ===== *)
theory Midcall
  imports Bridge Proxy
begin

text \<open>
  The handlers of an INVITE and of requests inside a call, internal/b2bua/midcall.go, refer.go,
  trickle.go and \<open>handleInvite\<close> of bridge.go. A handler answers the server transaction \<open>tx\<close> it was
  started with; what the SIP library answers is a function of the tick, as for the set-up.
\<close>

section \<open>Environment\<close>

record MidEnv =
  callEnv :: Env
  proxyEnv :: ProxyEnv
  matchDialog :: "nat \<Rightarrow> Request \<Rightarrow> string option"
  readInvite :: "nat \<Rightarrow> string option"
  newCallID :: "nat \<Rightarrow> string"
  routingOf :: "Request \<Rightarrow> RoutingInput"
  sessionContact :: "nat \<Rightarrow> Uri option"
  doResult :: "nat \<Rightarrow> Response option"
  ParseAddressValue :: "string \<Rightarrow> Uri option"
  inboundContact :: "nat \<Rightarrow> Uri option"
  proxySend :: "nat \<Rightarrow> bool \<times> ClientEvent list"

text \<open>How a handler ends: it returns, or dereferences a nil pointer.\<close>

datatype Outcome = Returns | NilDereference

definition txRespond :: "MidEnv \<Rightarrow> nat \<Rightarrow> int \<Rightarrow> string \<Rightarrow> string \<Rightarrow> Header list \<Rightarrow> Outcome op" where
  "txRespond M tx status reason body hdrs = do {
     _ \<leftarrow> sync (callEnv M);
     _ \<leftarrow> emit [EvTxRespond tx status reason body hdrs];
     State_Monad.return Returns
   }"

section \<open>re-INVITE\<close>

text \<open>Re-anchoring one side of the session of a call.\<close>

definition reanchorEndpoint :: "string \<Rightarrow> int \<Rightarrow> Call \<Rightarrow> Call" where
  "reanchorEndpoint host port c = (let (rtp, rtcp) = udpAddrPair host port in
     c\<lparr>media := map_option (\<lambda>m. m\<lparr>endpointSide := map_option (setRemote (Some rtp) (Some rtcp)) (endpointSide m)\<rparr>) (media c)\<rparr>)"

definition reanchorPBX :: "string \<Rightarrow> int \<Rightarrow> Call \<Rightarrow> Call" where
  "reanchorPBX host port c = (let (rtp, rtcp) = udpAddrPair host port in
     c\<lparr>media := map_option (\<lambda>m. m\<lparr>pbxSide := map_option (setRemote (Some rtp) (Some rtcp)) (pbxSide m)\<rparr>) (media c)\<rparr>)"

definition setPBXAnswer :: "string \<Rightarrow> Call \<Rightarrow> Call" where
  "setPBXAnswer sdp c = c\<lparr>pbxLeg := map_option (\<lambda>leg. leg\<lparr>legAnswer := sdp\<rparr>) (pbxLeg c)\<rparr>"

text \<open>The PBX has accepted the re-offer: both sides are re-anchored, the endpoint is answered.\<close>

definition reInviteAccepted :: "MidEnv \<Rightarrow> nat \<Rightarrow> nat \<Rightarrow> string \<Rightarrow> int \<Rightarrow> int \<Rightarrow> Response \<Rightarrow> Outcome op" where
  "reInviteAccepted M r tx epHost epRTPPort epPort pbxRes =
     (let E = callEnv M in
      case parseMedia (resBody pbxRes) of
        Inl _ \<Rightarrow> txRespond M tx 488 ''Not Acceptable Here'' [] []
      | Inr (pbxHost, pbxRTPPort) \<Rightarrow> do {
          _ \<leftarrow> locked E r (setPBXAnswer (resBody pbxRes) \<circ> reanchorPBX pbxHost pbxRTPPort
                 \<circ> reanchorEndpoint epHost epRTPPort);
          (case rewriteToAnchor (resBody pbxRes) (mediaHost E) epPort of
             Inl _ \<Rightarrow> txRespond M tx 500 ''Server Error'' [] []
           | Inr sdp \<Rightarrow> txRespond M tx 200 ''OK'' sdp (relayableResponseHeaders (lib E) pbxRes sdp))
        })"

text \<open>The re-offer travels to the PBX in its dialog.\<close>

definition reInvitePBX :: "MidEnv \<Rightarrow> nat \<Rightarrow> nat \<Rightarrow> nat \<Rightarrow> string \<Rightarrow> string \<Rightarrow> int \<Rightarrow> int \<Rightarrow> Outcome op" where
  "reInvitePBX M r tx sess pbxReOffer epHost epRTPPort epPort =
     (let E = callEnv M in
      case sessionContact M sess of
        None \<Rightarrow> txRespond M tx 500 ''Server Error'' [] []
      | Some uri \<Rightarrow> do {
          t \<leftarrow> sync E;
          _ \<leftarrow> emit [EvReInvite r sess uri pbxReOffer];
          _ \<leftarrow> sync E;
          (case doResult M t of
             None \<Rightarrow> txRespond M tx 503 ''Service Unavailable'' [] []
           | Some res \<Rightarrow>
               if resStatus res \<ge> 300 then
                 txRespond M tx (mapFailureStatus failureReject (resStatus res)) (resReason res) (resBody res)
                   (relayableResponseHeaders (lib E) res (resBody res))
               else do {
                 _ \<leftarrow> ack E r sess;
                 reInviteAccepted M r tx epHost epRTPPort epPort res
               })
        })"

definition handleReInvite :: "MidEnv \<Rightarrow> nat \<Rightarrow> nat \<Rightarrow> Request \<Rightarrow> Outcome op" where
  "handleReInvite M r tx req = do {
     _ \<leftarrow> sync (callEnv M);
     c \<leftarrow> getCall r;
     (if callState c \<noteq> stateEstablished then txRespond M tx 481 ''Call/Transaction Does Not Exist'' [] []
      else (case Option.bind (media c) endpointSide of
         None \<Rightarrow> txRespond M tx 488 ''Not Acceptable Here'' [] []
       | Some ep \<Rightarrow>
           (case (pbxLeg c, Option.bind (media c) pbxSide) of
              (Some leg, Some ps) \<Rightarrow>
                let E = callEnv M in
                if reqBody req = [] then
                  (case rewriteToAnchor (legAnswer leg) (mediaHost E) (localRTPPort ep) of
                     Inl _ \<Rightarrow> txRespond M tx 500 ''Server Error'' [] []
                   | Inr sdp \<Rightarrow> txRespond M tx 200 ''OK'' sdp [NewHeader (lib E) ''Content-Type'' ''application/sdp''])
                else
                  (case parseMedia (reqBody req) of
                     Inl _ \<Rightarrow> txRespond M tx 488 ''Not Acceptable Here'' [] []
                   | Inr (epHost, epRTPPort) \<Rightarrow>
                       (case rewriteToAnchor (reqBody req) (mediaHost E) (localRTPPort ps) of
                          Inl _ \<Rightarrow> txRespond M tx 500 ''Server Error'' [] []
                        | Inr pbxReOffer \<Rightarrow>
                            reInvitePBX M r tx (legSession leg) pbxReOffer epHost epRTPPort (localRTPPort ep)))
            | _ \<Rightarrow> State_Monad.return NilDereference)))
   }"

section \<open>REFER\<close>

definition sendReferNotify :: "MidEnv \<Rightarrow> nat \<Rightarrow> string \<Rightarrow> Outcome op" where
  "sendReferNotify M r sipfrag = (case inboundContact M r of
       None \<Rightarrow> State_Monad.return Returns
     | Some uri \<Rightarrow> do {
         _ \<leftarrow> sync (callEnv M);
         _ \<leftarrow> emit [EvNotify r uri sipfrag];
         _ \<leftarrow> sync (callEnv M);
         State_Monad.return Returns
       })"

definition byeTarget :: "MidEnv \<Rightarrow> nat \<Rightarrow> nat \<Rightarrow> unit op" where
  "byeTarget M r sess = do {
     _ \<leftarrow> sync (callEnv M);
     emit [EvBye r sess]
   }"

text \<open>The target has answered.\<close>

definition referAnswered :: "MidEnv \<Rightarrow> nat \<Rightarrow> nat \<Rightarrow> Response \<Rightarrow> Outcome op" where
  "referAnswered M r sess res = do {
     _ \<leftarrow> ack (callEnv M) r sess;
     (case parseMedia (resBody res) of
        Inl _ \<Rightarrow> do {
          _ \<leftarrow> byeTarget M r sess;
          sendReferNotify M r ''SIP/2.0 488 Not Acceptable Here''
        }
      | Inr (host, port) \<Rightarrow> do {
          _ \<leftarrow> locked (callEnv M) r (\<lambda>c. (reanchorEndpoint host port c)\<lparr>transferTarget := Some sess\<rparr>);
          _ \<leftarrow> sendReferNotify M r ''SIP/2.0 200 OK'';
          _ \<leftarrow> sync (callEnv M);
          _ \<leftarrow> modify_st (detachInbound r);
          _ \<leftarrow> sync (callEnv M);
          _ \<leftarrow> emit [EvByeInbound r];
          State_Monad.return Returns
        })
   }"

text \<open>The INVITE to the target and the wait for its answer.\<close>

definition referInvite :: "MidEnv \<Rightarrow> nat \<Rightarrow> Uri \<Rightarrow> string \<Rightarrow> Outcome op" where
  "referInvite M r target offer = do {
     c \<leftarrow> getCall r;
     t \<leftarrow> sync (callEnv M);
     _ \<leftarrow> emit [EvTransfer r target offer (forwardHeaders (lib (callEnv M)) c
            @ [NewHeader (lib (callEnv M)) ''X-Sequencer-Call-Id'' (callId c)]) (legTimeout (callEnv M))];
     if \<not> inviteOk (callEnv M) t then sendReferNotify M r ''SIP/2.0 503 Service Unavailable''
     else do {
       t' \<leftarrow> sync (callEnv M);
       _ \<leftarrow> emit [EvWait r t (legTimeout (callEnv M))];
       _ \<leftarrow> sync (callEnv M);
       (case snd (waitResult (callEnv M) t') of
          Answered res \<Rightarrow> referAnswered M r t res
        | _ \<Rightarrow> do {
            _ \<leftarrow> byeTarget M r t;
            sendReferNotify M r ''SIP/2.0 503 Service Unavailable''
          })
     }
   }"

definition handleRefer :: "MidEnv \<Rightarrow> nat \<Rightarrow> Request \<Rightarrow> Outcome op" where
  "handleRefer M tx req = do {
     t \<leftarrow> sync (callEnv M);
     (case matchDialog M t req of
        None \<Rightarrow> txRespond M tx 481 ''Call/Transaction Does Not Exist'' [] []
      | Some did \<Rightarrow> do {
          k \<leftarrow> gets_st (getByDialog did);
          (case k of
             None \<Rightarrow> txRespond M tx 481 ''Call/Transaction Does Not Exist'' [] []
           | Some r \<Rightarrow> do {
               _ \<leftarrow> sync (callEnv M);
               c \<leftarrow> getCall r;
               (if callState c \<noteq> stateEstablished then txRespond M tx 403 ''Forbidden'' [] []
                else (case Option.bind (media c) endpointSide of
                   None \<Rightarrow> txRespond M tx 488 ''Not Acceptable Here'' [] []
                 | Some ep \<Rightarrow>
                     (case pbxLeg c of
                        None \<Rightarrow> State_Monad.return NilDereference
                      | Some leg \<Rightarrow> do {
                          _ \<leftarrow> txRespond M tx 202 ''Accepted'' [] [];
                          (case GetHeader (lib (callEnv M)) (reqHeaders req) ''Refer-To'' of
                             None \<Rightarrow> sendReferNotify M r ''SIP/2.0 400 Bad Request''
                           | Some h \<Rightarrow>
                               (case ParseAddressValue M (hdrValue h) of
                                  None \<Rightarrow> sendReferNotify M r ''SIP/2.0 400 Bad Request''
                                | Some target \<Rightarrow>
                                    (case rewriteToAnchor (legAnswer leg) (mediaHost (callEnv M)) (localRTPPort ep) of
                                       Inl _ \<Rightarrow> sendReferNotify M r ''SIP/2.0 500 Server Error''
                                     | Inr offer \<Rightarrow> referInvite M r target offer)))
                        })))
             })
        })
   }"

section \<open>INFO\<close>

definition proxied :: "MidEnv \<Rightarrow> nat \<Rightarrow> Outcome op" where
  "proxied M tx = do {
     _ \<leftarrow> emit [EvProxied tx];
     State_Monad.return Returns
   }"

definition handleInfo :: "MidEnv \<Rightarrow> nat \<Rightarrow> Request \<Rightarrow> Outcome op" where
  "handleInfo M tx req =
     (case GetHeader (lib (callEnv M)) (reqHeaders req) ''Content-Type'' of
        None \<Rightarrow> proxied M tx
      | Some ct \<Rightarrow>
          if \<not> isTrickleContentType (hdrValue ct) then proxied M tx
          else do {
            t \<leftarrow> sync (callEnv M);
            (case matchDialog M t req of
               None \<Rightarrow> proxied M tx
             | Some did \<Rightarrow> do {
                 k \<leftarrow> gets_st (getByDialog did);
                 (case k of
                    None \<Rightarrow> txRespond M tx 481 ''Call/Transaction Does Not Exist'' [] []
                  | Some r \<Rightarrow> do {
                      _ \<leftarrow> sync (callEnv M);
                      c \<leftarrow> getCall r;
                      (case Option.bind (media c) endpointLeg of
                         None \<Rightarrow> proxied M tx
                       | Some leg \<Rightarrow>
                           (let frag = parseTrickleFragment (reqBody req) in do {
                              _ \<leftarrow> emit (map (EvCandidate (endpoint leg)) (Candidates frag)
                                     @ (if EndOfCandidates frag then [EvEndOfCandidates (endpoint leg)] else []));
                              txRespond M tx 200 ''OK'' [] []
                            }))
                    })
               })
          })"

section \<open>INVITE\<close>

text \<open>A new call, indexed by its id and by its inbound dialog.\<close>

definition newCall :: "MidEnv \<Rightarrow> nat \<Rightarrow> string \<Rightarrow> Request \<Rightarrow> Call" where
  "newCall M t did req = \<lparr>callId = newCallID M t, callState = stateSetup, inboundID = did,
     offerSDP = reqBody req, inHeaders = relayableHeaders (lib (callEnv M)) (reqHeaders req) requestOwnedHeaders,
     routing = routingOf M req, appLegs = [], pbxLeg = None, transferTarget = None, cancelled = False,
     media = None, releaseMedia = None, pendingTaps = [], inboundDetached = False\<rparr>"

definition addCall :: "Call \<Rightarrow> World \<Rightarrow> World" where
  "addCall c w = (let r = length (wCalls w) in
     addDialog (inboundID c) r (regAdd (callId c) r (w\<lparr>wCalls := wCalls w @ [c]\<rparr>)))"

definition handleInvite :: "MidEnv \<Rightarrow> nat \<Rightarrow> Request \<Rightarrow> Outcome op" where
  "handleInvite M tx req = do {
     t \<leftarrow> sync (callEnv M);
     (case routeToFlow (proxyEnv M) req (fst (proxySend M t)) (snd (proxySend M t)) of
        Some _ \<Rightarrow> proxied M tx
      | None \<Rightarrow>
          (case matchDialog M t req of
             Some did \<Rightarrow> do {
               k \<leftarrow> gets_st (getByDialog did);
               (case k of
                  None \<Rightarrow> txRespond M tx 481 ''Call/Transaction Does Not Exist'' [] []
                | Some r \<Rightarrow> handleReInvite M r tx req)
             }
           | None \<Rightarrow>
               (case readInvite M t of
                  None \<Rightarrow> txRespond M tx 500 ''Server Error'' [] []
                | Some did \<Rightarrow> do {
                    r \<leftarrow> gets_st (\<lambda>w. length (wCalls w));
                    _ \<leftarrow> emit [EvRespond r 100 ''Trying'' [] [] True];
                    _ \<leftarrow> modify_st (addCall (newCall M t did req));
                    _ \<leftarrow> bridge (callEnv M) r;
                    State_Monad.return Returns
                  })))
   }"

section \<open>Shutdown\<close>

definition Shutdown :: "iteration \<Rightarrow> World \<Rightarrow> World" where
  "Shutdown it = each it teardown"

end
