(* ===== verification/HandlerInv.thy ===== *)
theory HandlerInv
  imports WorldInv Midcall
begin

text \<open>
  Invariants of the world over whole handlers. \<open>setup_inv\<close> adds to the invariants of the set-up
  those that survive every update of a call, so that the whole of bridge keeps them;
  \<open>handler_inv\<close> is what the handlers inside a call need.
\<close>

section \<open>The whole set-up\<close>

text \<open>\<open>own_setup\<close> is for the set-up of one call, \<open>setup_inv\<close> for that of any call.\<close>

locale own_setup = own_world +
  assumes own_invites: "\<And>role d uri body hdrs b. \<not> loud (EvInvite r role d uri body hdrs b)"
  and own_register: "\<And>m fixed. calm (register m fixed)"
  and own_secured: "\<And>q s. calm (\<lambda>c. c\<lparr>media := map_option (\<lambda>m. m\<lparr>pbxSide := Some s\<rparr>) (media c), releaseMedia := Some [q]\<rparr>)"
  and own_pbxLeg: "\<And>l. calm (\<lambda>c. c\<lparr>pbxLeg := Some l\<rparr>)" "\<And>g. calm (\<lambda>c. c\<lparr>pbxLeg := map_option g (pbxLeg c)\<rparr>)"
  and own_remote: "\<And>h p. calm (setPBXRemote h p)"
  and own_establish: "calm establish"
begin

lemma keeps_invite: "keeps I (invite E r role d b body hdrs)"
  by (rule keeps_dial) (simp add: own_invites)

lemma keeps_appLeg: "keeps I (appLeg E r app uri body tap)"
  unfolding appLeg_def
  by (intro keeps_bind keeps_cases keeps_if keeps_getCall keeps_gets_st keeps_invite keeps_appLegFailed
      keeps_fail keeps_return keeps_wait keeps_appAnswered keeps_respondError)

lemma keeps_sink: "\<not> loud e \<Longrightarrow> keeps I (emit [e])"
  by (rule keeps_emit) simp

lemma keeps_appChain: "keeps I (appChain E r apps)"
proof (induction apps)
  case (Cons app apps)
  have "keeps I (appStep E r app)"
    unfolding appStep_def
    by (intro keeps_bind keeps_cases keeps_if keeps_getCall keeps_return keeps_fail keeps_acquireTap
        keeps_sink own_quiet keeps_releaseTap keeps_appLeg)
  with Cons show ?case by (auto intro!: keeps_bind)
qed (simp add: keeps_return)

lemma keeps_originatePBX: "keeps I (originatePBX E r offer)"
  unfolding originatePBX_def hopFailed_def Let_def
  by (intro keeps_bind keeps_cases keeps_getCall keeps_gets_st keeps_invite keeps_failWith keeps_locked keeps_wait
      keeps_ack keeps_sink own_quiet keeps_respondError keeps_return own_pbxLeg)

lemma keeps_dialPBX: "keeps I (dialPBX E r epP pbxP)"
  unfolding dialPBX_def
  by (intro keeps_bind keeps_cases keeps_getCall keeps_failFalse keeps_originatePBX keeps_return keeps_sink own_quiet
      keeps_locked own_remote keeps_reportCodecAgreement keeps_answerEndpoint own_establish)

lemma keeps_bridgeSecured: "keeps I (bridgeSecuredToPBX E r leg)"
  unfolding bridgeSecuredToPBX_def
  by (intro keeps_bind keeps_cases keeps_if keeps_getCall keeps_failFalse keeps_originatePBX keeps_return keeps_sink own_quiet
      keeps_acquire keeps_bindSide keeps_releasePairs keeps_closeSides keeps_registerMedia own_secured
      keeps_locked own_remote keeps_reportCodecAgreement keeps_answerEndpoint own_establish)

lemma keeps_case_anchor: "(\<And>x y. keeps I (f x y)) \<Longrightarrow> (\<And>x. keeps I (g x)) \<Longrightarrow>
    keeps I (case z of PlainAnchor x y \<Rightarrow> f x y | SecuredAnchor x \<Rightarrow> g x)"
  by (cases z) auto

lemma keeps_bridge: "keeps I (bridge E r)"
  unfolding bridge_def runAppChain_def
  by (intro keeps_bind keeps_case_option keeps_case_anchor keeps_if keeps_appChain keeps_return keeps_anchorMedia own_register
      keeps_bridgeSecured keeps_dialPBX keeps_sink own_quiet)

end

locale setup_inv = world_inv +
  assumes inv_event: "I w \<Longrightarrow> I (addTrace es w)"
  and calm_register: "\<And>m fixed. calm (register m fixed)"
  and calm_secured: "\<And>q s. calm (\<lambda>c. c\<lparr>media := map_option (\<lambda>m. m\<lparr>pbxSide := Some s\<rparr>) (media c), releaseMedia := Some [q]\<rparr>)"
  and calm_pbxLeg: "\<And>l. calm (\<lambda>c. c\<lparr>pbxLeg := Some l\<rparr>)" "\<And>g. calm (\<lambda>c. c\<lparr>pbxLeg := map_option g (pbxLeg c)\<rparr>)"
  and calm_remote: "\<And>h p. calm (setPBXRemote h p)"
  and calm_establish: "calm establish"

sublocale setup_inv \<subseteq> any: own_setup I calm "\<lambda>_. False" E r for E r
  by unfold_locales (simp_all add: inv_updCall inv_event calm_taps calm_appLegs inv_interf inv_teardown
      calm_register calm_secured calm_pbxLeg calm_remote calm_establish)

section \<open>Handlers inside a call\<close>

text \<open>The same two: a handler of one call with the surroundings \<open>M\<close>, and handlers of any call.\<close>

locale own_handler =
  fixes I :: "World \<Rightarrow> bool" and calm :: "(Call \<Rightarrow> Call) \<Rightarrow> bool" and loud :: "Event \<Rightarrow> bool"
    and M :: MidEnv and r :: nat
  assumes own_move: "j \<in> set (interf (callEnv M) t) \<Longrightarrow> I w \<Longrightarrow> I (applyInterf j w)"
  and own_tick: "I (w\<lparr>wTick := t\<rparr>) = I w"
  and own_upd: "I w \<Longrightarrow> calm f \<Longrightarrow> I (updCall r f w)"
  and own_event: "I w \<Longrightarrow> \<forall>e \<in> set es. \<not> loud e \<Longrightarrow> I (addTrace es w)"
  and own_dialog: "\<And>s uri body. \<not> loud (EvReInvite r s uri body)" "\<And>s. \<not> loud (EvAck r s)" "\<And>s. \<not> loud (EvBye r s)"
    "\<And>uri frag. \<not> loud (EvNotify r uri frag)" "\<And>uri body hdrs b. \<not> loud (EvTransfer r uri body hdrs b)"
    "\<And>s b. \<not> loud (EvWait r s b)" "\<not> loud (EvByeInbound r)"
  and own_tx: "\<And>tx s reason body hdrs. \<not> loud (EvTxRespond tx s reason body hdrs)" "\<And>tx. \<not> loud (EvProxied tx)"
    "\<And>e c. \<not> loud (EvCandidate e c)" "\<And>e. \<not> loud (EvEndOfCandidates e)"
  and own_reoffer: "\<And>a h p h' p'. calm (setPBXAnswer a \<circ> reanchorPBX h p \<circ> reanchorEndpoint h' p')"
  and own_retarget: "\<And>h p s. calm (\<lambda>c. (reanchorEndpoint h p c)\<lparr>transferTarget := Some s\<rparr>)"
  and own_detach: "calm (\<lambda>c. c\<lparr>inboundDetached := True\<rparr>)"
begin

lemma keep_sync: "keeps I (sync (callEnv M))"
  by (rule keeps_sync_moves) (auto intro: own_move simp: own_tick)

lemma keep_emit: "\<forall>e \<in> set es. \<not> loud e \<Longrightarrow> keeps I (emit es)"
  unfolding emit_def by (rule keeps_modify_st) (simp add: own_event)

lemma keep_sent: "\<not> loud e \<Longrightarrow> keeps I (emit [e])"
  by (rule keep_emit) simp

lemmas keep_sends = own_dialog [THEN keep_sent] own_tx [THEN keep_sent]

lemma keep_locked: "calm f \<Longrightarrow> keeps I (locked (callEnv M) r f)"
  unfolding locked_def by (intro keeps_bind keep_sync keeps_modify_st own_upd)

lemma keep_txRespond: "keeps I (txRespond M tx status reason body hdrs)"
  unfolding txRespond_def by (intro keeps_bind keep_sync keep_sends keeps_return)

lemma keep_proxied: "keeps I (proxied M tx)"
  unfolding proxied_def by (intro keeps_bind keep_sends keeps_return)

lemma keep_candidates: "keeps I (emit (map (EvCandidate e) cs @ (if fin then [EvEndOfCandidates e] else [])))"
  by (rule keep_emit) (auto simp: own_tx)

lemma keep_handleReInvite: "keeps I (handleReInvite M r tx req)"
  unfolding handleReInvite_def reInvitePBX_def reInviteAccepted_def ack_def Let_def
  by (intro keeps_bind keeps_cases keeps_if keeps_getCall keep_sync keep_sends keeps_return keep_txRespond keep_locked
      own_reoffer)

lemma keep_sendReferNotify: "keeps I (sendReferNotify M r frag)"
  unfolding sendReferNotify_def by (intro keeps_bind keeps_cases keep_sync keep_sends keeps_return)

lemma keep_referInvite: "keeps I (referInvite M r target offer)"
  unfolding referInvite_def referAnswered_def byeTarget_def ack_def detachInbound_def
  by (intro keeps_bind keeps_cases keeps_if keeps_getCall keep_sync keep_sends keeps_return keep_sendReferNotify
      keep_locked keeps_modify_st own_upd own_retarget own_detach)

end

locale handler_inv =
  fixes I :: "World \<Rightarrow> bool" and calm :: "(Call \<Rightarrow> Call) \<Rightarrow> bool"
  assumes interf: "I w \<Longrightarrow> I (applyInterf j w)"
  and tick: "I (w\<lparr>wTick := t\<rparr>) = I w"
  and upd: "I w \<Longrightarrow> calm f \<Longrightarrow> I (updCall r f w)"
  and event: "I w \<Longrightarrow> I (addTrace es w)"
  and calm_reoffer: "\<And>a h p h' p'. calm (setPBXAnswer a \<circ> reanchorPBX h p \<circ> reanchorEndpoint h' p')"
  and calm_retarget: "\<And>h p s. calm (\<lambda>c. (reanchorEndpoint h p c)\<lparr>transferTarget := Some s\<rparr>)"
  and calm_detach: "calm (\<lambda>c. c\<lparr>inboundDetached := True\<rparr>)"

sublocale handler_inv \<subseteq> own_handler I calm "\<lambda>_. False" M r for M r
  by unfold_locales (simp_all add: interf tick upd event calm_reoffer calm_retarget calm_detach)

context handler_inv
begin

lemma keep_any: "keeps I (emit es)"
  by (rule keep_emit) simp

lemma keep_handleRefer: "keeps I (handleRefer M tx req)"
  unfolding handleRefer_def
  by (intro keeps_bind keeps_cases keeps_if keeps_getCall keep_sync keeps_gets_st keeps_return keep_sendReferNotify
      keep_txRespond keep_referInvite)

lemma keep_handleInfo: "keeps I (handleInfo M tx req)"
  unfolding handleInfo_def Let_def
  by (intro keeps_bind keeps_cases keeps_if keeps_getCall keep_sync keep_any keeps_gets_st keeps_return keep_txRespond
      keep_proxied)

end

end
