(* ===== verification/Established.thy ===== *)
theory Established
  imports WorldInv
begin

text \<open>
  What an established call has: its PBX leg, an endpoint and the PBX side of its media. The
  set-up reaches it in stages, each of which survives what other goroutines do to the call.
\<close>

definition complete :: "Call \<Rightarrow> bool" where
  "complete c = (pbxLeg c \<noteq> None \<and> Option.bind (media c) pbxSide \<noteq> None
     \<and> (Option.bind (media c) endpointSide \<noteq> None \<or> Option.bind (media c) endpointLeg \<noteq> None))"

definition ready :: "Call \<Rightarrow> bool" where
  "ready c = (callState c = stateEstablished \<longrightarrow> complete c)"

section \<open>Stages of the set-up\<close>

definition stage :: "nat \<Rightarrow> Call \<Rightarrow> bool" where
  "stage k c = (k < 4 \<longrightarrow> callState c \<noteq> stateEstablished
     \<and> (1 \<le> k \<longrightarrow> Option.bind (media c) endpointSide \<noteq> None \<or> Option.bind (media c) endpointLeg \<noteq> None)
     \<and> (2 \<le> k \<longrightarrow> Option.bind (media c) pbxSide \<noteq> None)
     \<and> (3 \<le> k \<longrightarrow> pbxLeg c \<noteq> None))"

definition staged :: "nat \<Rightarrow> nat \<Rightarrow> World \<Rightarrow> bool" where
  "staged k r w = (r < length (wCalls w) \<and> (\<forall>c \<in> set (wCalls w). ready c) \<and> stage k (wCalls w ! r))"

definition calmAt :: "nat \<Rightarrow> (Call \<Rightarrow> Call) \<Rightarrow> bool" where
  "calmAt k f = (\<forall>c. (ready c \<longrightarrow> ready (f c)) \<and> (stage k c \<longrightarrow> stage k (f c)))"

lemma staged_updCall:
  assumes "staged k r w" "\<And>c. ready c \<Longrightarrow> (r' = r \<Longrightarrow> stage k c) \<Longrightarrow> ready (f c)"
    "\<And>c. stage k c \<Longrightarrow> stage k' (f c)" "r' \<noteq> r \<Longrightarrow> k' = k"
  shows "staged k' r (updCall r' f w)"
proof (cases "r' < length (wCalls w)")
  case True
  then have "ready (f (wCalls w ! r'))" using assms(1,2) by (auto simp: staged_def)
  then have "ready c" if "c \<in> set ((wCalls w)[r' := f (wCalls w ! r')])" for c
    using that assms(1) set_update_subset_insert [THEN subsetD, OF that] by (auto simp: staged_def)
  then show ?thesis
    using assms(1,3,4) True by (cases "r' = r") (auto simp: staged_def updCall_def)
next
  case False
  then have "r' \<noteq> r" using assms(1) by (auto simp: staged_def)
  with False assms(1,4) show ?thesis by (simp add: staged_def updCall_def list_update_beyond)
qed

lemma closeSession_keeps:
  "endpointSide (fst (closeSession m t)) = endpointSide m" "pbxSide (fst (closeSession m t)) = pbxSide m"
  "endpointLeg (fst (closeSession m t)) = endpointLeg m" "taps (fst (closeSession m t)) = taps m"
  by (simp_all add: closeSession_def Let_def)

lemma calm_closes: "calmAt k (\<lambda>c. c\<lparr>media := map_option (\<lambda>m. fst (closeSession m h)) (media c)\<rparr>)"
  unfolding calmAt_def
proof
  fix c :: Call
  show "(ready c \<longrightarrow> ready (c\<lparr>media := map_option (\<lambda>m. fst (closeSession m h)) (media c)\<rparr>))
      \<and> (stage k c \<longrightarrow> stage k (c\<lparr>media := map_option (\<lambda>m. fst (closeSession m h)) (media c)\<rparr>))"
    by (cases "media c") (auto simp: ready_def complete_def stage_def closeSession_keeps)
qed

interpretation stages: calm_inv "staged k r" "calmAt k"
proof unfold_locales
  show "staged k r (updCall r' f w)" if "staged k r w" "calmAt k f" for w f r'
    using that by (intro staged_updCall [OF that(1)]) (auto simp: calmAt_def)
qed (auto simp: staged_def regRemove_def Let_def addTrace_def calm_closes, auto simp: calmAt_def ready_def complete_def stage_def)

lemma keeps_invite_staged: "keeps (staged k r) (invite E r' role d b body hdrs)"
  unfolding invite_def emit_def
  by (intro keeps_bind stages.keeps_sync keeps_modify_st keeps_return) (simp add: staged_def addTrace_def)

lemma staged_up: "staged k r w \<Longrightarrow> staged 4 r w"
  by (simp add: staged_def stage_def)

section \<open>The set-up, stage by stage\<close>

lemma staged_chain: "keeps (staged k r) (appChain E r apps)"
proof (induction apps)
  case (Cons app apps)
  have leg: "keeps (staged k r) (appLeg E r app uri body tap)" for uri body tap
    unfolding appLeg_def
    by (intro keeps_bind keeps_cases keeps_if keeps_getCall keeps_gets_st keeps_invite_staged stages.keeps_appLegFailed
        stages.keeps_fail keeps_return stages.keeps_wait stages.keeps_appAnswered stages.keeps_respondError)
  have "keeps (staged k r) (appStep E r app)"
    unfolding appStep_def
    by (intro keeps_bind keeps_cases keeps_if keeps_getCall keeps_return stages.keeps_fail stages.keeps_acquireTap
        stages.keeps_emit stages.keeps_releaseTap leg) simp
  with Cons show ?case by (auto intro!: keeps_bind)
qed (simp add: keeps_return)

text \<open>A step of the set-up: what holds before, and what holds after when it goes on.\<close>

definition reaches :: "nat \<Rightarrow> nat \<Rightarrow> 'a option \<Rightarrow> World \<Rightarrow> bool" where
  "reaches k r a w = (staged (if a = None then 4 else k) r w)"

lemma wp_registerMedia_staged:
  assumes "staged k r w" "\<And>c. ready c \<Longrightarrow> stage k c \<Longrightarrow> ready (f c)" "\<And>c. stage k c \<Longrightarrow> stage k' (f c)"
    "\<And>w'. staged k' r w' \<Longrightarrow> Q True w'" "\<And>w'. staged k r w' \<Longrightarrow> Q False w'"
  shows "wp (registerMedia E r f) Q w"
  unfolding registerMedia_def wp_bind
  by (rule wp_mono [OF keepsD [OF stages.keeps_sync assms(1)]])
     (auto simp: wp_simps intro!: assms(4,5) staged_updCall [OF _ assms(2,3)])

lemma staged_fails: "staged k r w \<Longrightarrow> wp (failWith E r s reason) (reaches k' r) w"
  unfolding failWith_def wp_bind
  by (rule wp_mono [OF keepsD [OF stages.keeps_fail]]) (auto simp: wp_return reaches_def intro: staged_up)

lemma wp_keeps_staged: "keeps (staged k r) m \<Longrightarrow> staged k r w \<Longrightarrow> (\<And>a w'. staged k r w' \<Longrightarrow> Q a w') \<Longrightarrow> wp m Q w"
  by (rule wp_mono [OF keepsD])

lemma staged_register:
  assumes "callState c \<noteq> stateEstablished"
  shows "stage 2 (register (newMediaSession (Some a) (Some b) None) fixed c)"
    "stage 1 (register (newMediaSession None None (Some l)) fixed c)"
  using assms by (simp_all add: stage_def register_def newMediaSession_def)

lemma unready: "stage k c \<Longrightarrow> k < 4 \<Longrightarrow> callState (f c) = callState c \<Longrightarrow> ready (f c)"
  by (auto simp: ready_def stage_def)

definition anchored :: "nat \<Rightarrow> MediaAnchor option \<Rightarrow> World \<Rightarrow> bool" where
  "anchored r a w = staged (case a of None \<Rightarrow> 4 | Some (PlainAnchor _ _) \<Rightarrow> 2 | Some (SecuredAnchor _) \<Rightarrow> 1) r w"

lemma anchor_fails: "staged k r w \<Longrightarrow> wp (failWith E r s reason) (anchored r) w"
  unfolding failWith_def wp_bind
  by (rule wp_keeps_staged [OF stages.keeps_fail]) (auto simp: wp_return anchored_def intro: staged_up)

lemma wp_anchorWebRTC_staged: "staged 0 r w \<Longrightarrow> wp (anchorWebRTC E r) (anchored r) w"
  unfolding anchorWebRTC_def wp_bind wp_getCall
proof (rule wp_keeps_staged [OF stages.keeps_sync], assumption, goal_cases)
  case (1 t w)
  have s: "staged 0 r (w\<lparr>wHandles := h\<rparr>)" for h using 1 by simp
  have reg: "wp (registerMedia E r (register (newMediaSession None None (Some l)) []))
      (\<lambda>ok. wp (if ok then State_Monad.return (Some (SecuredAnchor l))
         else do { _ \<leftarrow> releaseUnregistered (newMediaSession None None (Some l)) []; State_Monad.return None }) (anchored r))
      (w\<lparr>wHandles := h\<rparr>)" for l h
    by (rule wp_registerMedia_staged [OF s, where k' = 1])
       (auto simp: wp_simps anchored_def register_def stage_def newMediaSession_def ready_def
          intro!: wp_keeps_staged [OF stages.keeps_releaseUnregistered] intro: staged_up)
  show ?case
    unfolding wp_gets_st wp_modify_st using reg anchor_fails [OF s]
    by (simp add: wp_bind split: option.split)
qed

lemma wp_anchorPlain_staged: "staged 0 r w \<Longrightarrow> wp (anchorPlain E r h p) (anchored r) w"
proof -
  assume s: "staged 0 r w"
  obtain rtp rtcp where u: "udpAddrPair h p = (rtp, rtcp)" by force
  have reg: "wp (registerMedia E r (register (newMediaSession (Some a) (Some b) None) [q1, q2]))
      (\<lambda>ok. wp (if ok then State_Monad.return (Some (PlainAnchor q1 q2))
         else do { _ \<leftarrow> releaseUnregistered (newMediaSession (Some a) (Some b) None) [q1, q2]; State_Monad.return None }) (anchored r)) w"
    if "staged 0 r w" for a b q1 q2 w
    by (rule wp_registerMedia_staged [OF that, where k' = 2])
       (auto simp: wp_simps anchored_def register_def stage_def newMediaSession_def ready_def
          intro!: wp_keeps_staged [OF stages.keeps_releaseUnregistered] intro: staged_up)
  have two: "wp (do { s2 \<leftarrow> bindSide E q2;
       (case s2 of None \<Rightarrow> do { _ \<leftarrow> closeSides [a]; _ \<leftarrow> releasePairs [q1, q2]; failWith E r 500 ''Server Error'' }
        | Some b \<Rightarrow> do { ok \<leftarrow> registerMedia E r (register (newMediaSession (Some (setRemote (Some rtp) (Some rtcp) a)) (Some b) None) [q1, q2]);
            if ok then State_Monad.return (Some (PlainAnchor q1 q2))
            else do { _ \<leftarrow> releaseUnregistered (newMediaSession (Some (setRemote (Some rtp) (Some rtcp) a)) (Some b) None) [q1, q2];
                 State_Monad.return None } }) }) (anchored r) w" if "staged 0 r w" for a q1 q2 w
    unfolding wp_bind
    by (rule wp_keeps_staged [OF stages.keeps_bindSide that])
       (auto simp: wp_bind reg split: option.split
          intro!: wp_keeps_staged [OF stages.keeps_closeSides] wp_keeps_staged [OF stages.keeps_releasePairs] anchor_fails)
  show ?thesis
    unfolding anchorPlain_def u Let_def prod.case
    unfolding wp_bind [of "acquire E"]
  proof (rule wp_keeps_staged [OF stages.keeps_acquire s], goal_cases)
    case (1 q1 w1)
    show ?case
    proof (cases q1)
      case (Some q1)
      show ?thesis
        unfolding Some option.case wp_bind [of "acquire E"]
      proof (rule wp_keeps_staged [OF stages.keeps_acquire 1], goal_cases)
        case (1 q2 w2)
        show ?case
        proof (cases q2)
          case None
          then show ?thesis
            by (auto simp: wp_bind intro!: wp_keeps_staged [OF stages.keeps_releasePairs 1] anchor_fails)
        next
          case (Some q2)
          show ?thesis
            unfolding Some option.case wp_bind [of "bindSide E q1"]
            by (rule wp_keeps_staged [OF stages.keeps_bindSide 1])
               (auto simp: two split: option.split simp: wp_bind [of "releasePairs [q1, q2]"]
                  intro!: wp_keeps_staged [OF stages.keeps_releasePairs] anchor_fails)
        qed
      qed
    qed (simp add: anchor_fails [OF 1])
  qed
qed

lemma wp_anchorMedia_staged: "staged 0 r w \<Longrightarrow> wp (anchorMedia E r) (anchored r) w"
  unfolding anchorMedia_def wp_bind wp_getCall
  by (auto simp: wp_anchorWebRTC_staged wp_anchorPlain_staged anchor_fails split: sum.split)

section \<open>The PBX leg and the answer\<close>

lemma calm_parts: "calmAt 3 (\<lambda>c. c\<lparr>pbxLeg := map_option f (pbxLeg c)\<rparr>)" "calmAt k (setPBXRemote h p)"
proof -
  show "calmAt 3 (\<lambda>c. c\<lparr>pbxLeg := map_option f (pbxLeg c)\<rparr>)"
    by (simp add: calmAt_def ready_def complete_def stage_def)
  show "calmAt k (setPBXRemote h p)"
    unfolding calmAt_def
  proof
    fix c :: Call
    obtain rtp rtcp where u: "udpAddrPair h p = (rtp, rtcp)" by force
    show "(ready c \<longrightarrow> ready (setPBXRemote h p c)) \<and> (stage k c \<longrightarrow> stage k (setPBXRemote h p c))"
      by (cases "media c") (auto simp: setPBXRemote_def u ready_def complete_def stage_def)
  qed
qed

lemma wp_locked_staged:
  assumes "staged k r w" "\<And>c. ready c \<Longrightarrow> stage k c \<Longrightarrow> ready (f c)" "\<And>c. stage k c \<Longrightarrow> stage k' (f c)"
    "\<And>w'. staged k' r w' \<Longrightarrow> Q () w'"
  shows "wp (locked E r f) Q w"
  unfolding locked_def wp_bind
  by (rule wp_keeps_staged [OF stages.keeps_sync assms(1)])
     (auto simp: wp_simps intro!: assms(4) staged_updCall [OF _ assms(2,3)])

lemma keeps_failed: "keeps (staged k r) (do { _ \<leftarrow> emit [EvTerminatingHopFailure]; _ \<leftarrow> respondInboundFromLegError E r a; State_Monad.return None })"
  by (intro keeps_bind stages.keeps_emit stages.keeps_respondError keeps_return) simp

lemma wp_originatePBX_staged:
  assumes "staged 2 r w"
  shows "wp (originatePBX E r offer) (reaches 3 r) w"
proof (cases "ParseUri (lib E) (nhURI (cfgNextHop (cfg E)))")
  case None
  then show ?thesis using staged_fails [OF assms] by (simp add: originatePBX_def Let_def)
next
  case (Some uri)
  have ans: "wp (case a of
         Answered res \<Rightarrow> do {
           _ \<leftarrow> ack E r s;
           _ \<leftarrow> locked E r (\<lambda>c. c\<lparr>pbxLeg := map_option (\<lambda>l. l\<lparr>legAnswer := resBody res\<rparr>) (pbxLeg c)\<rparr>);
           State_Monad.return (Some res) }
       | _ \<Rightarrow> do { _ \<leftarrow> emit [EvTerminatingHopFailure]; _ \<leftarrow> respondInboundFromLegError E r a; State_Monad.return None })
      (reaches 3 r) w" if "staged 3 r w" for a s w
  proof (cases a)
    case (Answered res)
    show ?thesis
      unfolding Answered LegResult.case wp_bind
      by (rule wp_keeps_staged [OF stages.keeps_ack that],
          rule wp_keeps_staged [OF stages.keeps_locked [OF calm_parts(1)]], assumption) (simp add: wp_return reaches_def)
  next
    case (Rejected res)
    show ?thesis
      unfolding Rejected LegResult.case
      by (rule wp_keeps_staged [OF keeps_failed that]) (simp add: reaches_def staged_up)
  next
    case LegError
    show ?thesis
      unfolding LegError LegResult.case
      by (rule wp_keeps_staged [OF keeps_failed that]) (simp add: reaches_def staged_up)
  qed
  show ?thesis
    unfolding originatePBX_def Let_def Some option.case wp_bind wp_getCall wp_gets_st
  proof (rule wp_keeps_staged [OF keeps_invite_staged assms], goal_cases)
    case (1 sess w)
    show ?case
    proof (cases sess)
      case None
      have "staged 2 r (addTrace [EvTerminatingHopFailure] w)" using 1 by (simp add: staged_def addTrace_def)
      from staged_fails [OF this] None show ?thesis by (simp add: hopFailed_def wp_simps)
    next
      case (Some s)
      show ?thesis
        unfolding Some option.case wp_bind
        by (rule wp_locked_staged [OF 1, where k' = 3], simp add: unready, simp add: stage_def)
           (rule wp_keeps_staged [OF stages.keeps_wait], assumption, rule ans)
    qed
  qed
qed

text \<open>Establishing a call that went through all stages keeps every call complete.\<close>

lemma establish_complete: "stage 3 c \<Longrightarrow> ready c \<Longrightarrow> ready (establish c)"
proof -
  have "endpointSide (fold addTap ts m) = endpointSide m" "pbxSide (fold addTap ts m) = pbxSide m"
    "endpointLeg (fold addTap ts m) = endpointLeg m" for ts m
    by (induction ts arbitrary: m) (simp_all add: addTap_def)
  then show "stage 3 c \<Longrightarrow> ready c \<Longrightarrow> ready (establish c)"
    by (cases "media c") (auto simp: stage_def ready_def complete_def establish_def Let_def)
qed

lemma wp_answerEndpoint_staged:
  assumes "staged 3 r w"
  shows "wp (answerEndpoint E r sdp hdrs) (\<lambda>_. staged 4 r) w"
  unfolding answerEndpoint_def wp_bind [of "locked E r establish"]
proof (rule wp_locked_staged [OF assms, where k' = 4], goal_cases)
  case (3 w)
  have "keeps (staged 4 r) (do { ok \<leftarrow> respond E r 200 ''OK'' sdp hdrs;
      if ok then do { _ \<leftarrow> emit [EvSequencingLatency]; State_Monad.return True }
      else do { _ \<leftarrow> modify_st (releasePendingTaps r); _ \<leftarrow> modify_st (teardown r); State_Monad.return False } })"
    by (intro keeps_bind keeps_if stages.keeps_respond stages.keeps_emit stages.keeps_finish keeps_return) simp
  from keepsD [OF this 3] show ?case .
qed (simp_all add: establish_complete stage_def)

lemma wp_failFalse_staged: "staged k r w \<Longrightarrow> wp (failFalse E r s reason) (\<lambda>_. staged 4 r) w"
  by (rule wp_keeps_staged [OF stages.keeps_failFalse]) (auto intro: staged_up)

lemma wp_answered_staged:
  assumes "reaches 3 r a w" and go: "\<And>res w. staged 3 r w \<Longrightarrow> wp (m res) (\<lambda>_. staged 4 r) w"
  shows "wp (case a of None \<Rightarrow> State_Monad.return False
      | Some res \<Rightarrow> (case parseMedia (resBody res) of
            Inl _ \<Rightarrow> do { _ \<leftarrow> emit [EvTerminatingHopFailure]; failFalse E r 488 ''Not Acceptable Here'' }
          | Inr (pbxHost, pbxPort) \<Rightarrow> do { _ \<leftarrow> locked E r (setPBXRemote pbxHost pbxPort); m res }))
      (\<lambda>_. staged 4 r) w"
proof (cases a)
  case (Some res)
  then have s: "staged 3 r w" using assms(1) by (simp add: reaches_def)
  have "wp (locked E r (setPBXRemote h p)) (\<lambda>_. wp (m res) (\<lambda>_. staged 4 r)) w" for h p
    by (rule wp_keeps_staged [OF stages.keeps_locked [OF calm_parts(2)] s]) (rule go)
  moreover have "staged 3 r (addTrace [EvTerminatingHopFailure] w)" using s by (simp add: staged_def addTrace_def)
  ultimately show ?thesis
    using Some by (auto simp: wp_bind wp_emit intro: wp_failFalse_staged split: sum.split)
qed (use assms(1) in \<open>simp add: reaches_def wp_return\<close>)

lemma wp_dialPBX_staged: "staged 2 r w \<Longrightarrow> wp (dialPBX E r epP pbxP) (\<lambda>_. staged 4 r) w"
proof -
  assume s: "staged 2 r w"
  have "wp (case rewriteToAnchor (resBody res) (mediaHost E) (RTP epP) of
                 Inl _ \<Rightarrow> failFalse E r 500 ''Server Error''
               | Inr epAnswer \<Rightarrow> do {
                   _ \<leftarrow> reportCodecAgreement epAnswer (resBody res);
                   answerEndpoint E r epAnswer (relayableResponseHeaders (lib E) res epAnswer) }) (\<lambda>_. staged 4 r) w"
    if "staged 3 r w" for res w
    using that
    by (auto simp: wp_bind wp_failFalse_staged split: sum.split
          intro!: wp_keeps_staged [OF stages.keeps_reportCodecAgreement] wp_answerEndpoint_staged)
  from wp_answered_staged [OF _ this] have after: "reaches 3 r a w' \<Longrightarrow> wp (case a of None \<Rightarrow> State_Monad.return False
      | Some res \<Rightarrow> (case parseMedia (resBody res) of
            Inl _ \<Rightarrow> do { _ \<leftarrow> emit [EvTerminatingHopFailure]; failFalse E r 488 ''Not Acceptable Here'' }
          | Inr (pbxHost, pbxPort) \<Rightarrow> do { _ \<leftarrow> locked E r (setPBXRemote pbxHost pbxPort);
              (case rewriteToAnchor (resBody res) (mediaHost E) (RTP epP) of
                 Inl _ \<Rightarrow> failFalse E r 500 ''Server Error''
               | Inr epAnswer \<Rightarrow> do {
                   _ \<leftarrow> reportCodecAgreement epAnswer (resBody res);
                   answerEndpoint E r epAnswer (relayableResponseHeaders (lib E) res epAnswer) }) }))
      (\<lambda>_. staged 4 r) w'" for a w' by simp
  show ?thesis
    unfolding dialPBX_def wp_bind wp_getCall
    using wp_failFalse_staged [OF s] wp_mono [OF wp_originatePBX_staged [OF s] after]
    by (simp add: wp_bind split: sum.split)
qed

lemma wp_bridgeSecured_staged:
  assumes s: "staged 1 r w"
  shows "wp (bridgeSecuredToPBX E r leg) (\<lambda>_. staged 4 r) w"
proof -
  let ?f = "\<lambda>q b c. c\<lparr>media := map_option (\<lambda>m. m\<lparr>pbxSide := Some b\<rparr>) (media c), releaseMedia := Some [q]\<rparr>"
  have "wp (do { _ \<leftarrow> reportCodecAgreement (answerSDP leg) (resBody res); answerEndpoint E r (answerSDP leg) [] })
      (\<lambda>_. staged 4 r) w" if "staged 3 r w" for res w
    unfolding wp_bind
    by (rule wp_keeps_staged [OF stages.keeps_reportCodecAgreement that]) (rule wp_answerEndpoint_staged)
  from wp_answered_staged [OF _ this] have after: "reaches 3 r a w' \<Longrightarrow> wp (case a of None \<Rightarrow> State_Monad.return False
      | Some res \<Rightarrow> (case parseMedia (resBody res) of
            Inl _ \<Rightarrow> do { _ \<leftarrow> emit [EvTerminatingHopFailure]; failFalse E r 488 ''Not Acceptable Here'' }
          | Inr (pbxHost, pbxPort) \<Rightarrow> do { _ \<leftarrow> locked E r (setPBXRemote pbxHost pbxPort);
              _ \<leftarrow> reportCodecAgreement (answerSDP leg) (resBody res); answerEndpoint E r (answerSDP leg) [] }))
      (\<lambda>_. staged 4 r) w'" for a w' by simp
  have dial: "wp (do { c \<leftarrow> getCall r;
      (case buildPlainOfferFromWebRTC (offerSDP c) (mediaHost E) (RTP q) of
         Inl _ \<Rightarrow> failFalse E r 500 ''Server Error''
       | Inr offer \<Rightarrow> do { ans \<leftarrow> originatePBX E r offer;
           (case ans of None \<Rightarrow> State_Monad.return False
            | Some res \<Rightarrow> (case parseMedia (resBody res) of
                  Inl _ \<Rightarrow> do { _ \<leftarrow> emit [EvTerminatingHopFailure]; failFalse E r 488 ''Not Acceptable Here'' }
                | Inr (pbxHost, pbxPort) \<Rightarrow> do { _ \<leftarrow> locked E r (setPBXRemote pbxHost pbxPort);
                    _ \<leftarrow> reportCodecAgreement (answerSDP leg) (resBody res); answerEndpoint E r (answerSDP leg) [] })) }) })
      (\<lambda>_. staged 4 r) w" if "staged 2 r w" for q w
  proof (cases "buildPlainOfferFromWebRTC (offerSDP (wCalls w ! r)) (mediaHost E) (RTP q)")
    case (Inr offer)
    show ?thesis
      unfolding wp_bind [of "getCall r"] wp_getCall Inr sum.case wp_bind [of "originatePBX E r offer"]
      by (rule wp_mono [OF wp_originatePBX_staged [OF that]]) (rule after)
  qed (simp add: wp_simps wp_failFalse_staged [OF that])
  have given_up: "keeps (staged 1 r) (do { _ \<leftarrow> closeSides [b]; _ \<leftarrow> releasePairs [q]; State_Monad.return False })" for b q
    by (intro keeps_bind stages.keeps_closeSides stages.keeps_releasePairs keeps_return)
  have reg: "ready c \<Longrightarrow> stage 1 c \<Longrightarrow> ready (?f q b c)" "stage 1 c \<Longrightarrow> stage 2 (?f q b c)" for q b c
    by (cases "media c"; simp add: ready_def stage_def)+
  show ?thesis
    unfolding bridgeSecuredToPBX_def wp_bind [of "acquire E"]
  proof (rule wp_keeps_staged [OF stages.keeps_acquire s], goal_cases)
    case (1 a w1)
    show ?case
    proof (cases a)
      case (Some q)
      show ?thesis
        unfolding Some option.case wp_bind [of "bindSide E q"]
      proof (rule wp_keeps_staged [OF stages.keeps_bindSide 1], goal_cases)
        case (1 sd w2)
        show ?case
        proof (cases sd)
          case None
          then show ?thesis
            by (auto simp: wp_bind intro!: wp_keeps_staged [OF stages.keeps_releasePairs 1] wp_failFalse_staged)
        next
          case (Some b)
          show ?thesis
            unfolding Some option.case wp_bind [of "registerMedia E r (?f q b)"]
          proof (rule wp_registerMedia_staged [OF 1 reg], goal_cases)
            case (4 w3)
            then show ?case using dial by simp
          next
            case (5 w3)
            from wp_keeps_staged [OF given_up this] show ?case by (simp add: staged_up)
          qed assumption+
        qed
      qed
    qed (simp add: wp_failFalse_staged [OF 1])
  qed
qed

lemma wp_bridge_staged: "staged 0 r w \<Longrightarrow> wp (bridge E r) (\<lambda>_. staged 4 r) w"
proof -
  assume s: "staged 0 r w"
  have relay: "wp (do { up \<leftarrow> m; _ \<leftarrow> (if up then emit [EvRelay r] else State_Monad.return ()); State_Monad.return up })
      (\<lambda>_. staged 4 r) w" if "wp m (\<lambda>_. staged 4 r) w" for m w
    unfolding wp_bind by (rule wp_mono [OF that]) (auto simp: wp_simps staged_def addTrace_def)
  have 2: "wp (case a of None \<Rightarrow> State_Monad.return False
      | Some (SecuredAnchor leg) \<Rightarrow> do { up \<leftarrow> bridgeSecuredToPBX E r leg;
          _ \<leftarrow> (if up then emit [EvRelay r] else State_Monad.return ()); State_Monad.return up }
      | Some (PlainAnchor epP pbxP) \<Rightarrow> do { up \<leftarrow> dialPBX E r epP pbxP;
          _ \<leftarrow> (if up then emit [EvRelay r] else State_Monad.return ()); State_Monad.return up })
      (\<lambda>_. staged 4 r) w" if "anchored r a w" for a w
    using that relay wp_dialPBX_staged wp_bridgeSecured_staged
    by (auto simp: anchored_def wp_return split: option.split MediaAnchor.split)
  show ?thesis
    unfolding bridge_def runAppChain_def wp_bind [of "appChain E r (cfgSequence (cfg E))"]
  proof (rule wp_keeps_staged [OF staged_chain s], goal_cases)
    case (1 ok w)
    show ?case
    proof (cases ok)
      case True
      with wp_mono [OF wp_anchorMedia_staged [OF 1] 2] show ?thesis by (simp add: wp_bind)
    qed (use 1 in \<open>simp add: wp_return staged_up\<close>)
  qed
qed

end
