(* ===== verification/MidProps.thy ===== *)
theory MidProps
  imports Midcall SdpProps Established
begin

text \<open>
  Properties of the mid-call handlers over every behaviour of the environment: each transaction is
  answered once, a re-INVITE moves both sides of the media or neither, and a transfer either takes
  over the endpoint's side and detaches the referrer or changes nothing.
\<close>

section \<open>What other goroutines leave alone\<close>

text \<open>The statuses a transaction was answered with.\<close>

definition answers :: "nat \<Rightarrow> World \<Rightarrow> int list" where
  "answers tx w = concat (map (\<lambda>e. case e of EvTxRespond tx' s _ _ _ \<Rightarrow> if tx' = tx then [s] else [] | _ \<Rightarrow> []) (wTrace w))"

text \<open>The NOTIFY bodies sent for a call.\<close>

definition notifies :: "nat \<Rightarrow> World \<Rightarrow> string list" where
  "notifies r w = concat (map (\<lambda>e. case e of EvNotify r' _ s \<Rightarrow> if r' = r then [s] else [] | _ \<Rightarrow> []) (wTrace w))"

lemma answers_addTrace: "answers tx (addTrace es w) = answers tx w
    @ concat (map (\<lambda>e. case e of EvTxRespond tx' s _ _ _ \<Rightarrow> if tx' = tx then [s] else [] | _ \<Rightarrow> []) es)"
  by (simp add: answers_def addTrace_def)

lemma notifies_addTrace: "notifies r (addTrace es w) = notifies r w
    @ concat (map (\<lambda>e. case e of EvNotify r' _ s \<Rightarrow> if r' = r then [s] else [] | _ \<Rightarrow> []) es)"
  by (simp add: notifies_def addTrace_def)

text \<open>The part of a call that a teardown leaves as it is.\<close>

record Shape =
  shLegs :: "OutboundLeg list"
  shPBX :: "OutboundLeg option"
  shTarget :: "nat option"
  shDetached :: bool
  shEndpoint :: "AnchorSide option"
  shPBXSide :: "AnchorSide option"
  shSecured :: "SecuredLeg option"

definition shape :: "Call \<Rightarrow> Shape" where
  "shape c = \<lparr>shLegs = appLegs c, shPBX = pbxLeg c, shTarget = transferTarget c, shDetached = inboundDetached c,
     shEndpoint = Option.bind (media c) endpointSide, shPBXSide = Option.bind (media c) pbxSide,
     shSecured = Option.bind (media c) endpointLeg\<rparr>"

lemma shape_updCall: "shape (f (wCalls w ! r)) = shape (wCalls w ! r) \<Longrightarrow> shape (wCalls (updCall r f w) ! r') = shape (wCalls w ! r')"
  by (cases "r' = r"; cases "r < length (wCalls w)") (simp_all add: updCall_def list_update_beyond)

lemma shape_runRelease: "shape (wCalls (runRelease r fixed w) ! r') = shape (wCalls w ! r')"
proof (cases "media (wCalls w ! r)")
  case (Some m)
  obtain m' h where m: "closeSession m (wHandles w) = (m', h)" by force
  have "shape ((wCalls w ! r)\<lparr>media := Some m'\<rparr>) = shape (wCalls w ! r)"
    using closeSession_keeps [of m "wHandles w"] by (simp add: shape_def Some m)
  then show ?thesis
    using shape_updCall [of "\<lambda>c. c\<lparr>media := Some m'\<rparr>" "w\<lparr>wHandles := h, wPorts := fold Release (fixed @ tapPairs m) (wPorts w)\<rparr>" r r']
    by (simp add: runRelease_def Some m)
qed (simp add: runRelease_def)

lemma shape_teardown: "shape (wCalls (teardown r w) ! r') = shape (wCalls w ! r')"
proof -
  have "shape (wCalls (updCall r (\<lambda>c. c\<lparr>callState := stateTearingDown, cancelled := True\<rparr>) w) ! r') = shape (wCalls w ! r')"
    by (rule shape_updCall) (simp add: shape_def)
  then show ?thesis
    by (simp add: teardown_def Let_def regRemove_def shape_runRelease split: option.split)
qed

lemma trace_teardown:
  "answers tx (teardown r w) = answers tx w" "notifies r' (teardown r w) = notifies r' w"
proof -
  have b: "concat (map (\<lambda>e. case e of EvTxRespond tx' s _ _ _ \<Rightarrow> if tx' = tx then [s] else [] | _ \<Rightarrow> []) (byes r c)) = []"
    "concat (map (\<lambda>e. case e of EvNotify r'' _ s \<Rightarrow> if r'' = r' then [s] else [] | _ \<Rightarrow> []) (byes r c)) = []" for c
    by (auto simp: byes_def split: option.split)
  have f: "wTrace (runRelease r fixed w) = wTrace w" "wTrace (updCall r g w) = wTrace w"
    "wTrace (regRemove x y w) = wTrace w" for fixed g x y w
    by (auto simp: runRelease_def Let_def updCall_def regRemove_def split: option.split prod.split)
  have "wTrace (teardown r w) = (if r < length (wCalls w) \<and> canTransition (callState (wCalls w ! r)) stateTearingDown
      then wTrace w @ byes r (wCalls w ! r) else wTrace w)"
    by (simp add: teardown_def Let_def addTrace_def f split: option.split)
  then show "answers tx (teardown r w) = answers tx w" "notifies r' (teardown r w) = notifies r' w"
    using b by (simp_all add: answers_def notifies_def)
qed

lemma callState_teardown:
  "callState (wCalls (teardown r w) ! r') = stateEstablished \<Longrightarrow> callState (wCalls w ! r') = stateEstablished"
proof (cases "r' = r")
  case True
  assume "callState (wCalls (teardown r w) ! r') = stateEstablished"
  then show ?thesis
    using True teardown_self(1) [of r w] by (cases "r < length (wCalls w)") (auto simp: teardown_def Let_def)
next
  case False
  assume "callState (wCalls (teardown r w) ! r') = stateEstablished"
  then show ?thesis using False by (simp add: teardown_frame)
qed

lemma complete_shape: "complete c = (shPBX (shape c) \<noteq> None \<and> shPBXSide (shape c) \<noteq> None
    \<and> (shEndpoint (shape c) \<noteq> None \<or> shSecured (shape c) \<noteq> None))"
  by (simp add: complete_def shape_def)

lemma ready_shape:
  "ready c \<Longrightarrow> shape c' = shape c \<Longrightarrow> (callState c' = stateEstablished \<Longrightarrow> callState c = stateEstablished) \<Longrightarrow> ready c'"
  by (auto simp: ready_def complete_shape)

text \<open>
  A handler at work: \<open>n\<close> calls, all ready and of known shapes \<open>S\<close>, the dialog index within them, what
  was answered to \<open>tx\<close> and notified for each call, and the books balanced.
\<close>

definition mid :: "nat \<Rightarrow> nat \<Rightarrow> PortPair multiset \<Rightarrow> int list \<Rightarrow> (nat \<Rightarrow> string list) \<Rightarrow> (nat \<Rightarrow> Shape) \<Rightarrow> World \<Rightarrow> bool" where
  "mid n tx L as N S w = (length (wCalls w) = n \<and> answers tx w = as \<and> (\<forall>r. notifies r w = N r)
     \<and> (\<forall>r < n. shape (wCalls w ! r) = S r \<and> ready (wCalls w ! r))
     \<and> (\<forall>(d, r) \<in> set (wDialogs w). r < n) \<and> acct {#} L w)"

lemma dialogs_teardown: "set (wDialogs (teardown r w)) \<subseteq> set (wDialogs w)"
proof -
  have "wDialogs (runRelease r fixed w) = wDialogs w" "wDialogs (updCall r f w) = wDialogs w" for fixed f w
    by (auto simp: runRelease_def Let_def updCall_def split: option.split prod.split)
  then show ?thesis
    by (auto simp: teardown_def Let_def regRemove_def mapDelete_def addTrace_def split: option.split)
qed

lemma mid_interf: "mid n tx L as N S w \<Longrightarrow> mid n tx L as N S (applyInterf i w)"
proof -
  assume m: "mid n tx L as N S w"
  then have a: "acct {#} L (applyInterf i w)" by (simp add: mid_def acct_interf)
  show ?thesis
  proof (cases "\<exists>r'. i = ITeardown r'")
    case True
    then obtain r' where i: "i = ITeardown r'" ..
    have "ready (wCalls (teardown r' w) ! r)" if "r < n" for r
      using that m by (intro ready_shape [OF _ shape_teardown callState_teardown]) (auto simp: mid_def)
    then show ?thesis
      using m a i dialogs_teardown [of r' w]
      by (auto simp: mid_def teardown_frame(1) trace_teardown shape_teardown)
  next
    case False
    then have "wCalls (applyInterf i w) = wCalls w \<and> wTrace (applyInterf i w) = wTrace w
        \<and> wDialogs (applyInterf i w) = wDialogs w"
      by (cases i) (auto split: prod.split option.split)
    then show ?thesis using m a by (simp add: mid_def answers_def notifies_def)
  qed
qed

lemma mid_tick [simp]: "mid n tx L as N S (w\<lparr>wTick := t\<rparr>) = mid n tx L as N S w"
  by (simp add: mid_def answers_def notifies_def)

lemma wp_sync_mid:
  assumes "mid n tx L as N S w" "\<And>t w'. mid n tx L as N S w' \<Longrightarrow> Q t w'"
  shows "wp (sync E) Q w"
proof -
  have *: "mid n tx L as N S v \<Longrightarrow> mid n tx L as N S (fold applyInterf js v)" for js v
  proof (induction js arbitrary: v)
    case (Cons j js)
    from Cons.IH [OF mid_interf [OF Cons.prems]] show ?case by simp
  qed simp
  have "mid n tx L as N S (fold applyInterf (interf E (wTick w)) w\<lparr>wTick := Suc (wTick w)\<rparr>)"
    using * [OF assms(1)] by simp
  from assms(2) [OF this] show ?thesis by (simp add: sync_def wp_simps)
qed

lemma mid_addTrace:
  assumes "mid n tx L as N S w"
  shows "mid n tx L (as @ concat (map (\<lambda>e. case e of EvTxRespond tx' s _ _ _ \<Rightarrow> if tx' = tx then [s] else [] | _ \<Rightarrow> []) es))
     (\<lambda>r. N r @ concat (map (\<lambda>e. case e of EvNotify r' _ s \<Rightarrow> if r' = r then [s] else [] | _ \<Rightarrow> []) es)) S (addTrace es w)"
  using assms by (simp add: mid_def answers_addTrace notifies_addTrace) (simp add: addTrace_def)

lemma wp_emit_mid:
  assumes "mid n tx L as N S w" and "\<And>e. e \<in> set es \<Longrightarrow> (case e of EvTxRespond _ _ _ _ _ \<Rightarrow> False | EvNotify _ _ _ \<Rightarrow> False | _ \<Rightarrow> True)"
    "\<And>w'. mid n tx L as N S w' \<Longrightarrow> Q () w'"
  shows "wp (emit es) Q w"
proof -
  have "concat (map (\<lambda>e. case e of EvTxRespond tx' s _ _ _ \<Rightarrow> if tx' = tx then [s] else [] | _ \<Rightarrow> []) es) = []"
    "\<And>r. concat (map (\<lambda>e. case e of EvNotify r' _ s \<Rightarrow> if r' = r then [s] else [] | _ \<Rightarrow> []) es) = []"
    using assms(2) by (auto dest!: assms(2) split: Event.splits)
  with mid_addTrace [OF assms(1), of es] assms(3) show ?thesis by (simp add: wp_emit)
qed

lemma wp_txRespond:
  assumes "mid n tx L as N S w" "\<And>w'. mid n tx L (as @ [status]) N S w' \<Longrightarrow> Q Returns w'"
  shows "wp (txRespond M tx status reason body hdrs) Q w"
  unfolding txRespond_def wp_simps
proof (rule wp_sync_mid [OF assms(1)])
  fix w' assume "mid n tx L as N S w'"
  from mid_addTrace [OF this, of "[EvTxRespond tx status reason body hdrs]"] assms(2)
  show "Q Returns (addTrace [EvTxRespond tx status reason body hdrs] w')" by simp
qed

lemma wp_ack_mid:
  assumes "mid n tx L as N S w" "\<And>w'. mid n tx L as N S w' \<Longrightarrow> Q () w'"
  shows "wp (ack E r' k) Q w"
  unfolding ack_def wp_bind by (rule wp_sync_mid [OF assms(1)], rule wp_emit_mid, assumption) (auto intro: assms(2))

text \<open>An update of a call that holds what it held, and what it does to the shape.\<close>

lemma mid_updCall:
  assumes "mid n tx L as N S w" "r < n" "\<And>c. callHeld (f c) = callHeld c" "\<And>c. ptOk c \<Longrightarrow> ptOk (f c)"
    "\<And>c. ready c \<Longrightarrow> shape c = S r \<Longrightarrow> ready (f c) \<and> shape (f c) = s'"
  shows "mid n tx L as N (S(r := s')) (updCall r f w)"
proof -
  have "acct {#} L (updCall r f w)"
    using assms(1-4) by (intro acct_same) (auto simp: mid_def)
  then show ?thesis
    using assms(1,2) assms(5) [of "wCalls w ! r"]
    by (auto simp: mid_def updCall_def answers_def notifies_def nth_list_update)
qed

lemma wp_locked_mid:
  assumes "mid n tx L as N S w" "r < n" "\<And>c. callHeld (f c) = callHeld c" "\<And>c. ptOk c \<Longrightarrow> ptOk (f c)"
    "\<And>c. ready c \<Longrightarrow> shape c = S r \<Longrightarrow> ready (f c) \<and> shape (f c) = s'"
    "\<And>w'. mid n tx L as N (S(r := s')) w' \<Longrightarrow> Q () w'"
  shows "wp (locked E r f) Q w"
  unfolding locked_def wp_simps
  by (rule wp_sync_mid [OF assms(1)]) (rule assms(6), rule mid_updCall [OF _ assms(2-5)])

section \<open>re-INVITE\<close>

definition sides :: "string \<times> int \<Rightarrow> AnchorSide \<Rightarrow> AnchorSide" where
  "sides a = (let (rtp, rtcp) = udpAddrPair (fst a) (snd a) in setRemote (Some rtp) (Some rtcp))"

text \<open>Both sides follow the new offer and its answer.\<close>

definition moved :: "string \<times> int \<Rightarrow> string \<times> int \<Rightarrow> string \<Rightarrow> Shape \<Rightarrow> Shape" where
  "moved ep pbx answer s = s\<lparr>shEndpoint := map_option (sides ep) (shEndpoint s),
     shPBXSide := map_option (sides pbx) (shPBXSide s),
     shPBX := map_option (\<lambda>leg. leg\<lparr>legAnswer := answer\<rparr>) (shPBX s)\<rparr>"

definition reInvited :: "Request \<Rightarrow> nat \<Rightarrow> nat \<Rightarrow> nat \<Rightarrow> PortPair multiset \<Rightarrow> int list \<Rightarrow> (nat \<Rightarrow> string list) \<Rightarrow> (nat \<Rightarrow> Shape) \<Rightarrow> Outcome \<Rightarrow> World \<Rightarrow> bool" where
  "reInvited req r n tx L as N S out w = (out = Returns \<and>
     ((\<exists>ep pbx answer. parseMedia (reqBody req) = Inr ep \<and> parseMedia answer = Inr pbx \<and> reqBody req \<noteq> []
         \<and> mid n tx L (as @ [200]) N (S(r := moved ep pbx answer (S r))) w)
      \<or> (\<exists>status. (status \<noteq> 200 \<or> reqBody req = []) \<and> mid n tx L (as @ [status]) N S w)))"

lemma reInvited_refused: "\<lbrakk>status \<noteq> 200 \<or> reqBody req = []; mid n tx L (as @ [status]) N S w\<rbrakk>
    \<Longrightarrow> reInvited req r n tx L as N S Returns w"
  by (auto simp: reInvited_def)

lemma pm_loop_audio: "pm_loop ls sh h p a = Inr x \<Longrightarrow> l \<in> set ls \<Longrightarrow> isAudio l \<Longrightarrow> 2 \<le> length (goFields l)"
proof (induction ls sh h p a rule: pm_loop.induct)
  case (2 line ls sessionHost host rtpPort inAudio)
  show ?case
  proof (cases "l = line")
    case True
    with 2 have "hasPrefix line sdpAudioMedia" "hasPrefix line ''m=''"
      using prefix_facts(10) by (auto simp: isAudio_def)
    with 2 True show ?thesis by (auto simp: Let_def split: if_splits)
  next
    case False
    with 2 show ?thesis by (auto simp: Let_def split: if_splits option.splits)
  qed
qed simp

lemma parsed_rewrites:
  assumes "parseMedia sdp = Inr x" "host \<noteq> []" "0 < p"
  shows "\<exists>out. rewriteToAnchor sdp host p = Inr out"
proof (rule rewrite_succeeds [OF assms(2,3)])
  from assms(1) obtain y where "pm_loop (sdp_lines sdp) [] [] 0 False = Inr y"
    by (auto simp: parseMedia_def split: sum.splits)
  then show "\<forall>l \<in> set (sdp_lines sdp). isAudio l \<longrightarrow> 2 \<le> length (goFields l)" using pm_loop_audio by blast
qed

lemma ready_moved:
  assumes "ready c" "shape c = s"
  shows "ready ((setPBXAnswer answer \<circ> reanchorPBX ph pp \<circ> reanchorEndpoint eh ep) c)
     \<and> shape ((setPBXAnswer answer \<circ> reanchorPBX ph pp \<circ> reanchorEndpoint eh ep) c) = moved (eh, ep) (ph, pp) answer s"
  using assms
  by (cases "media c"; cases "pbxLeg c")
     (auto simp: setPBXAnswer_def reanchorPBX_def reanchorEndpoint_def moved_def sides_def shape_def ready_def complete_def Let_def
        split: prod.split)

lemma held_moved:
  "callHeld (reanchorEndpoint eh ep c) = callHeld c" "ptOk (reanchorEndpoint eh ep c) = ptOk c"
  "callHeld (reanchorPBX eh ep c) = callHeld c" "ptOk (reanchorPBX eh ep c) = ptOk c"
  "callHeld (setPBXAnswer a c) = callHeld c" "ptOk (setPBXAnswer a c) = ptOk c"
  by (cases "media c"; simp add: reanchorEndpoint_def reanchorPBX_def setPBXAnswer_def callHeld_def hookPairs_def
        mediaTapPairs_def tapPairs_def ptOk_def Let_def split: prod.split option.split)+

lemma wp_reInviteAccepted:
  assumes "mid n tx L as N S w" "r < n" "mediaHost (callEnv M) \<noteq> []" "0 < epPort"
    "parseMedia (reqBody req) = Inr (eh, ep)" "reqBody req \<noteq> []"
  shows "wp (reInviteAccepted M r tx eh ep epPort res) (reInvited req r n tx L as N S) w"
proof (cases "parseMedia (resBody res)")
  case (Inl e)
  then show ?thesis
    unfolding reInviteAccepted_def Let_def
    by (simp) (rule wp_txRespond [OF assms(1)], rule reInvited_refused, simp_all)
next
  case (Inr a)
  obtain ph pp where a: "a = (ph, pp)" by force
  obtain out where out: "rewriteToAnchor (resBody res) (mediaHost (callEnv M)) epPort = Inr out"
    using parsed_rewrites [OF Inr assms(3,4)] by blast
  show ?thesis
    unfolding reInviteAccepted_def Let_def Inr a
  proof (simp add: wp_bind out, rule wp_locked_mid [OF assms(1,2) _ _ ready_moved])
    fix w' assume "mid n tx L as N (S(r := moved (eh, ep) (ph, pp) (resBody res) (S r))) w'"
    then show "wp (txRespond M tx 200 ''OK'' out (relayableResponseHeaders (lib (callEnv M)) res out))
        (reInvited req r n tx L as N S) w'"
      by (rule wp_txRespond) (use Inr a assms(5,6) in \<open>auto simp: reInvited_def\<close>)
  qed (simp_all add: held_moved)
qed

lemma wp_reInvitePBX:
  assumes "mid n tx L as N S w" "r < n" "mediaHost (callEnv M) \<noteq> []" "0 < epPort"
    "parseMedia (reqBody req) = Inr (eh, ep)" "reqBody req \<noteq> []"
  shows "wp (reInvitePBX M r tx sess offer eh ep epPort) (reInvited req r n tx L as N S) w"
proof (cases "sessionContact M sess")
  case None
  then show ?thesis
    unfolding reInvitePBX_def Let_def
    by simp (rule wp_txRespond [OF assms(1)], rule reInvited_refused, simp_all)
next
  case (Some uri)
  show ?thesis
    unfolding reInvitePBX_def Let_def Some
  proof (simp add: wp_bind, rule wp_sync_mid [OF assms(1)], rule wp_emit_mid, assumption, simp,
      rule wp_sync_mid, assumption, goal_cases)
    case (1 t _ _ _ v)
    then have v: "mid n tx L as N S v" by simp
    show ?case
    proof (cases "doResult M t")
      case None
      then show ?thesis by simp (rule wp_txRespond [OF v], rule reInvited_refused, simp_all)
    next
      case (Some res)
      have "wp (txRespond M tx (resStatus res) (resReason res) (resBody res)
              (relayableResponseHeaders (lib (callEnv M)) res (resBody res))) (reInvited req r n tx L as N S) v"
        if "300 \<le> resStatus res"
        by (rule wp_txRespond [OF v], rule reInvited_refused) (use that in simp_all)
      moreover have "wp (ack (callEnv M) r sess) (\<lambda>_. wp (reInviteAccepted M r tx eh ep epPort res) (reInvited req r n tx L as N S)) v"
        by (rule wp_ack_mid [OF v]) (rule wp_reInviteAccepted [OF _ assms(2-6)])
      ultimately show ?thesis using Some by (simp add: mapFailureStatus_def wp_bind)
    qed
  qed
qed

text \<open>What the handlers rely on: an address to anchor on, and sides bound to a port.\<close>

definition portsBound :: "Shape \<Rightarrow> bool" where
  "portsBound s = ((\<forall>a. shEndpoint s = Some a \<longrightarrow> 0 < localRTPPort a) \<and> (\<forall>a. shPBXSide s = Some a \<longrightarrow> 0 < localRTPPort a))"

lemma wp_handleReInvite:
  assumes "mid n tx L as N S w" "r < n" "mediaHost (callEnv M) \<noteq> []" "portsBound (S r)"
  shows "wp (handleReInvite M r tx req) (reInvited req r n tx L as N S) w"
  unfolding handleReInvite_def wp_simps
proof (rule wp_sync_mid [OF assms(1)], goal_cases)
  case (1 t v)
  define c where "c = wCalls v ! r"
  have c: "ready c" "shape c = S r" using 1 assms(2) by (auto simp: mid_def c_def)
  have refuse: "wp (txRespond M tx status reason body hdrs) (reInvited req r n tx L as N S) v"
    if "status \<noteq> 200 \<or> reqBody req = []" for status reason body hdrs
    by (rule wp_txRespond [OF 1], rule reInvited_refused [OF that])
  show ?case
  proof (cases "callState c = stateEstablished \<and> Option.bind (media c) endpointSide \<noteq> None")
    case True
    then obtain ep leg ps where e: "Option.bind (media c) endpointSide = Some ep" "pbxLeg c = Some leg"
      "Option.bind (media c) pbxSide = Some ps" using c(1) by (auto simp: ready_def complete_def)
    have "0 < localRTPPort ep" using assms(4) e(1) unfolding c(2) [symmetric] portsBound_def by (simp add: shape_def)
    then show ?thesis
      using True e refuse wp_reInvitePBX [OF 1 assms(2,3)]
      by (auto simp: c_def Let_def split: sum.split prod.split)
  qed (auto simp: c_def intro: refuse)
qed

section \<open>REFER\<close>

text \<open>The endpoint's media goes to the target, whose leg is now the call's, and the referrer is detached.\<close>

definition transferred :: "string \<times> int \<Rightarrow> nat \<Rightarrow> Shape \<Rightarrow> Shape" where
  "transferred a sess s = s\<lparr>shEndpoint := map_option (sides a) (shEndpoint s), shTarget := Some sess, shDetached := True\<rparr>"

text \<open>What has been notified after one more NOTIFY, where the referrer has a contact to send it to.\<close>

definition notified :: "MidEnv \<Rightarrow> nat \<Rightarrow> string \<Rightarrow> (nat \<Rightarrow> string list) \<Rightarrow> nat \<Rightarrow> string list" where
  "notified M r frag N = (if inboundContact M r = None then N else N(r := N r @ [frag]))"

definition referred :: "MidEnv \<Rightarrow> nat \<Rightarrow> nat \<Rightarrow> nat \<Rightarrow> PortPair multiset \<Rightarrow> int list \<Rightarrow> (nat \<Rightarrow> string list) \<Rightarrow> (nat \<Rightarrow> Shape) \<Rightarrow> Outcome \<Rightarrow> World \<Rightarrow> bool" where
  "referred M r n tx L as N S out w = (out = Returns \<and>
     ((\<exists>a sess. mid n tx L as (notified M r ''SIP/2.0 200 OK'' N) (S(r := transferred a sess (S r))) w)
      \<or> (\<exists>frag. frag \<noteq> ''SIP/2.0 200 OK'' \<and> mid n tx L as (notified M r frag N) S w)))"

lemma wp_sendReferNotify:
  assumes "mid n tx L as N S w" "\<And>w'. mid n tx L as (notified M r frag N) S w' \<Longrightarrow> Q Returns w'"
  shows "wp (sendReferNotify M r frag) Q w"
proof (cases "inboundContact M r")
  case None
  with assms show ?thesis by (simp add: sendReferNotify_def wp_return notified_def)
next
  case (Some uri)
  show ?thesis
    unfolding sendReferNotify_def Some
  proof (simp add: wp_bind, rule wp_sync_mid [OF assms(1)], goal_cases)
    case (1 t v)
    have "(\<lambda>r'. N r' @ concat (map (\<lambda>e. case e of EvNotify r'' _ s \<Rightarrow> if r'' = r' then [s] else [] | _ \<Rightarrow> []) [EvNotify r uri frag]))
        = notified M r frag N"
      by (auto simp: notified_def Some)
    with mid_addTrace [OF 1, of "[EvNotify r uri frag]"]
    have "mid n tx L as (notified M r frag N) S (addTrace [EvNotify r uri frag] v)" by simp
    then show ?case
      unfolding wp_emit by (rule wp_sync_mid) (use assms(2) in \<open>simp add: wp_return\<close>)
  qed
qed

lemma refer_refused:
  assumes "mid n tx L as N S w" "frag \<noteq> ''SIP/2.0 200 OK''"
  shows "wp (sendReferNotify M r frag) (referred M r n tx L as N S) w"
  using assms by (intro wp_sendReferNotify [OF assms(1)]) (auto simp: referred_def)

lemma wp_byeTarget:
  assumes "mid n tx L as N S w" "\<And>w'. mid n tx L as N S w' \<Longrightarrow> Q () w'"
  shows "wp (byeTarget M r sess) Q w"
  unfolding byeTarget_def wp_bind by (rule wp_sync_mid [OF assms(1)], rule wp_emit_mid, assumption) (auto intro: assms(2))

definition retargeted :: "string \<times> int \<Rightarrow> nat \<Rightarrow> Shape \<Rightarrow> Shape" where
  "retargeted a sess s = s\<lparr>shEndpoint := map_option (sides a) (shEndpoint s), shTarget := Some sess\<rparr>"

lemma ready_retargeted:
  assumes "ready c" "shape c = s"
  shows "ready ((reanchorEndpoint h p c)\<lparr>transferTarget := Some sess\<rparr>)
     \<and> shape ((reanchorEndpoint h p c)\<lparr>transferTarget := Some sess\<rparr>) = retargeted (h, p) sess s"
  using assms
  by (cases "media c") (auto simp: reanchorEndpoint_def retargeted_def sides_def shape_def ready_def complete_def Let_def split: prod.split)

lemma held_fields:
  "callHeld (c\<lparr>transferTarget := x\<rparr>) = callHeld c" "ptOk (c\<lparr>transferTarget := x\<rparr>) = ptOk c"
  "callHeld (c\<lparr>inboundDetached := d\<rparr>) = callHeld c" "ptOk (c\<lparr>inboundDetached := d\<rparr>) = ptOk c"
  by (simp_all add: callHeld_def hookPairs_def ptOk_def split: option.split)

lemma detached:
  "shape (c\<lparr>inboundDetached := True\<rparr>) = (shape c)\<lparr>shDetached := True\<rparr>"
  "ready (c\<lparr>inboundDetached := True\<rparr>) = ready c"
  "(retargeted a sess s)\<lparr>shDetached := True\<rparr> = transferred a sess s"
  by (simp_all add: shape_def ready_def complete_def retargeted_def transferred_def)

lemma wp_referAnswered:
  assumes "mid n tx L as N S w" "r < n"
  shows "wp (referAnswered M r sess res) (referred M r n tx L as N S) w"
  unfolding referAnswered_def wp_simps
proof (rule wp_ack_mid [OF assms(1)], goal_cases)
  case (1 w)
  show ?case
  proof (cases "parseMedia (resBody res)")
    case (Inl e)
    then show ?thesis
      by (simp add: wp_bind) (rule wp_byeTarget [OF 1], rule refer_refused, assumption, simp)
  next
    case (Inr a)
    obtain h p where a: "a = (h, p)" by force
    let ?N = "notified M r ''SIP/2.0 200 OK'' N"
    show ?thesis
    proof (simp add: Inr a wp_bind, rule wp_locked_mid [where s' = "retargeted (h, p) sess (S r)", OF 1 assms(2)], goal_cases)
      case (4 v)
      show ?case
      proof (rule wp_sendReferNotify [OF 4], rule wp_sync_mid, assumption, goal_cases)
        case (1 _ _ v)
        have "mid n tx L as ?N ((S(r := retargeted (h, p) sess (S r)))(r := transferred (h, p) sess (S r))) (detachInbound r v)"
          unfolding detachInbound_def
          by (rule mid_updCall [OF 1(2) assms(2)])
             (simp_all add: held_fields detached)
        then have m: "mid n tx L as ?N (S(r := transferred (h, p) sess (S r))) (detachInbound r v)" by simp
        show ?case
          unfolding wp_modify_st
          by (rule wp_sync_mid [OF m], rule wp_emit_mid, assumption) (auto simp: wp_return referred_def)
      qed
    qed (simp_all add: held_moved held_fields ready_retargeted)
  qed
qed

lemma wp_referInvite:
  assumes "mid n tx L as N S w" "r < n"
  shows "wp (referInvite M r target offer) (referred M r n tx L as N S) w"
  unfolding referInvite_def wp_bind wp_getCall
proof (rule wp_sync_mid [OF assms(1)], rule wp_emit_mid, assumption, simp, goal_cases)
  case (1 t _ v)
  then have v: "mid n tx L as N S v" by simp
  have "wp (case snd (waitResult (callEnv M) t') of
          Answered res \<Rightarrow> referAnswered M r t res
        | _ \<Rightarrow> State_Monad.bind (byeTarget M r t) (\<lambda>_. sendReferNotify M r ''SIP/2.0 503 Service Unavailable''))
      (referred M r n tx L as N S) v'" if "mid n tx L as N S v'" for t' v'
  proof -
    have "wp (State_Monad.bind (byeTarget M r t) (\<lambda>_. sendReferNotify M r ''SIP/2.0 503 Service Unavailable''))
      (referred M r n tx L as N S) v'"
      unfolding wp_bind by (rule wp_byeTarget [OF that], rule refer_refused, assumption, simp)
    with wp_referAnswered [OF that assms(2)] show ?thesis by (simp split: LegResult.split)
  qed
  then have "wp (State_Monad.bind (sync (callEnv M)) (\<lambda>t'. State_Monad.bind (emit [EvWait r t (legTimeout (callEnv M))])
       (\<lambda>_. State_Monad.bind (sync (callEnv M)) (\<lambda>_. case snd (waitResult (callEnv M) t') of
          Answered res \<Rightarrow> referAnswered M r t res
        | _ \<Rightarrow> State_Monad.bind (byeTarget M r t) (\<lambda>_. sendReferNotify M r ''SIP/2.0 503 Service Unavailable'')))))
      (referred M r n tx L as N S) v"
    unfolding wp_bind
    by (intro wp_sync_mid [OF v], elim wp_emit_mid wp_sync_mid) auto
  moreover have "wp (sendReferNotify M r ''SIP/2.0 503 Service Unavailable'') (referred M r n tx L as N S) v"
    by (rule refer_refused [OF v]) simp
  ultimately show ?case by simp
qed

definition referDone :: "MidEnv \<Rightarrow> nat \<Rightarrow> nat \<Rightarrow> PortPair multiset \<Rightarrow> int list \<Rightarrow> (nat \<Rightarrow> string list) \<Rightarrow> (nat \<Rightarrow> Shape) \<Rightarrow> Outcome \<Rightarrow> World \<Rightarrow> bool" where
  "referDone M n tx L as N S out w = ((out = Returns \<and> (\<exists>status. status \<in> {481, 403, 488} \<and> mid n tx L (as @ [status]) N S w))
     \<or> (\<exists>r < n. referred M r n tx L (as @ [202]) N S out w))"

lemma mid_dialog: "mid n tx L as N S w \<Longrightarrow> getByDialog d w = Some r \<Longrightarrow> r < n"
  by (auto simp: mid_def getByDialog_def dest!: map_of_SomeD)

lemma wp_handleRefer:
  assumes "mid n tx L as N S w"
  shows "wp (handleRefer M tx req) (referDone M n tx L as N S) w"
  unfolding handleRefer_def wp_bind
proof (rule wp_sync_mid [OF assms], goal_cases)
  case (1 t v)
  have no: "wp (txRespond M tx status reason body hdrs) (referDone M n tx L as N S) v"
    if "mid n tx L as N S v" "status \<in> {481, 403, 488}" for status reason body hdrs v
    by (rule wp_txRespond [OF that(1)]) (use that(2) in \<open>auto simp: referDone_def\<close>)
  show ?case
  proof (cases "Option.bind (matchDialog M t req) (\<lambda>d. getByDialog d v)")
    case None
    then show ?thesis using no [OF 1] by (auto simp: wp_simps Option.bind_eq_None_conv split: option.split)
  next
    case (Some r)
    then obtain d where d: "matchDialog M t req = Some d" "getByDialog d v = Some r" by (auto simp: bind_eq_Some_conv)
    have r: "r < n" using mid_dialog [OF 1 d(2)] .
    show ?thesis
    proof (simp add: d wp_bind wp_gets_st wp_getCall, rule wp_sync_mid [OF 1], goal_cases)
      case (1 t v)
      let ?c = "wCalls v ! r"
      show ?case
      proof (cases "callState ?c = stateEstablished \<and> Option.bind (media ?c) endpointSide \<noteq> None")
        case False
        then show ?thesis using no [OF 1] by (auto simp: wp_getCall)
      next
        case True
        have "ready ?c" using 1 r by (simp add: mid_def)
        with True obtain ep leg where e: "Option.bind (media ?c) endpointSide = Some ep" "pbxLeg ?c = Some leg"
          by (auto simp: ready_def complete_def)
        have step: "wp (txRespond M tx 202 ''Accepted'' [] []) (\<lambda>_. wp m (referDone M n tx L as N S)) v"
          if "\<And>w'. mid n tx L (as @ [202]) N S w' \<Longrightarrow> wp m (referred M r n tx L (as @ [202]) N S) w'" for m
          by (rule wp_txRespond [OF 1], rule wp_mono [OF that], assumption) (use r in \<open>auto simp: referDone_def\<close>)
        show ?thesis
        proof (simp add: True [THEN conjunct1] e wp_bind wp_getCall, rule step, goal_cases)
          case (1 w')
          have refuse: "frag \<noteq> ''SIP/2.0 200 OK'' \<Longrightarrow> wp (sendReferNotify M r frag) (referred M r n tx L (as @ [202]) N S) w'" for frag
            by (rule refer_refused [OF 1])
          have go: "wp (referInvite M r target offer) (referred M r n tx L (as @ [202]) N S) w'" for target offer
            by (rule wp_referInvite [OF 1 r])
          show ?case by (simp add: refuse go split: option.split sum.split)
        qed
      qed
    qed
  qed
qed

end
