(* ===== verification/LegOrder.thy ===== *)
theory LegOrder
  imports WorldInv
begin

text \<open>
  The order of a call's legs: the INVITEs of a set-up are those to the matching applications in their
  configured order, then the one to the next hop, with each leg's dialer, deadlines and headers.
\<close>

section \<open>The invitations of a call\<close>

text \<open>What an INVITE says apart from its body and its leg id.\<close>

definition inviteKey :: "nat \<Rightarrow> Event \<Rightarrow> (LegRole \<times> Dialer \<times> Uri \<times> int list \<times> Header list) list" where
  "inviteKey r e = (case e of
       EvInvite r' role d uri body hdrs bounds \<Rightarrow> if r' = r then [(role, d, uri, bounds, butlast hdrs)] else []
     | _ \<Rightarrow> [])"

definition invites :: "nat \<Rightarrow> World \<Rightarrow> (LegRole \<times> Dialer \<times> Uri \<times> int list \<times> Header list) list" where
  "invites r w = concat (map (inviteKey r) (wTrace w))"

text \<open>The fields of a call that are set when it is created.\<close>

definition identity :: "Call \<Rightarrow> string \<times> string \<times> Header list \<times> RoutingInput" where
  "identity c = (callId c, offerSDP c, inHeaders c, routing c)"

definition seen :: "nat \<Rightarrow> (LegRole \<times> Dialer \<times> Uri \<times> int list \<times> Header list) list
    \<Rightarrow> string \<times> string \<times> Header list \<times> RoutingInput \<Rightarrow> World \<Rightarrow> bool" where
  "seen r xs i w = (r < length (wCalls w) \<and> invites r w = xs \<and> identity (wCalls w ! r) = i)"

lemma seen_simps [simp]:
  "seen r xs i (w\<lparr>wPorts := x1\<rparr>) = seen r xs i w" "seen r xs i (w\<lparr>wHandles := x2\<rparr>) = seen r xs i w"
  "seen r xs i (w\<lparr>wTick := x3\<rparr>) = seen r xs i w" "seen r xs i (w\<lparr>wOthers := x4\<rparr>) = seen r xs i w"
  "seen r xs i (w\<lparr>wReg := x5\<rparr>) = seen r xs i w" "seen r xs i (w\<lparr>wDialogs := x6\<rparr>) = seen r xs i w"
  by (simp_all add: seen_def invites_def)

lemma invites_addTrace: "invites r (addTrace es w) = invites r w @ concat (map (inviteKey r) es)"
  by (simp add: invites_def addTrace_def)

lemma seen_addTrace: "concat (map (inviteKey r) es) = [] \<Longrightarrow> seen r xs i w \<Longrightarrow> seen r xs i (addTrace es w)"
  by (simp add: seen_def invites_addTrace)

lemma seen_updCall:
  assumes "seen r xs i w" "\<And>c. identity (f c) = identity c"
  shows "seen r xs i (updCall r' f w)"
proof (cases "r' = r")
  case False
  with assms show ?thesis by (simp add: seen_def invites_def)
qed (use assms in \<open>simp add: seen_def invites_def\<close>)

lemma identity_simps [simp]:
  "identity (establish c) = identity c" "identity (register m fixed c) = identity c"
  "identity (c\<lparr>callState := x1\<rparr>) = identity c" "identity (c\<lparr>cancelled := x2\<rparr>) = identity c"
  "identity (c\<lparr>media := x3\<rparr>) = identity c" "identity (c\<lparr>pendingTaps := x4\<rparr>) = identity c"
  "identity (c\<lparr>appLegs := x5\<rparr>) = identity c"
  by (simp_all add: identity_def establish_def register_def Let_def)

interpretation order: calm_inv "seen r xs i" "\<lambda>f. \<forall>c. identity (f c) = identity c"
proof unfold_locales
  show "seen r xs i (addTrace es w)" if "seen r xs i w" "\<forall>e \<in> set es. \<not> isInvite e" for w es
  proof -
    have "inviteKey r e = []" if "\<not> isInvite e" for e
      using that by (cases e) (simp_all add: inviteKey_def)
    with that show ?thesis by (intro seen_addTrace) simp_all
  qed
  show "seen r xs i (updCall r' f w)" if "seen r xs i w" "\<forall>c. identity (f c) = identity c" for w f r'
    using that by (intro seen_updCall) simp_all
  show "seen r xs i (regRemove x y w)" if "seen r xs i w" for w x y
    using that by (simp add: regRemove_def Let_def)
qed simp_all

section \<open>Order of the legs\<close>

type_synonym invite_key = "LegRole \<times> Dialer \<times> Uri \<times> int list \<times> Header list"

text \<open>The INVITE an application or the next hop gets, given the call's identity: the dialer and
  URI of its transport, its deadlines, and the caller's headers with the call id.\<close>

definition ownHeaders :: "Env \<Rightarrow> string \<times> string \<times> Header list \<times> RoutingInput \<Rightarrow> Header list" where
  "ownHeaders E i = (case i of (cid, _, hdrs, _) \<Rightarrow>
     map (HeaderClone (lib E)) hdrs @ [NewHeader (lib E) ''X-Sequencer-Call-Id'' cid])"

definition appKey :: "Env \<Rightarrow> string \<times> string \<times> Header list \<times> RoutingInput \<Rightarrow> Application \<Rightarrow> invite_key" where
  "appKey E i app = (case ParseUri (lib E) (appURI app) of
       None \<Rightarrow> (roleApplication, PlainDialer, [], [], [])
     | Some uri \<Rightarrow> (let d = dialerFor (lib E) uri (appTransport app) (appTLSProfile app) (appResolved app) ''tcp''
         in (roleApplication, fst d, fst (snd d), effectiveTimeout app (legTimeout E) # snd (snd d), ownHeaders E i)))"

definition hopKey :: "Env \<Rightarrow> string \<times> string \<times> Header list \<times> RoutingInput \<Rightarrow> invite_key" where
  "hopKey E i = (let hop = cfgNextHop (cfg E) in case ParseUri (lib E) (nhURI hop) of
       None \<Rightarrow> (rolePBX, PlainDialer, [], [], [])
     | Some uri \<Rightarrow> (let d = dialerFor (lib E) uri (nhTransport hop) (nhTLSProfile hop) (nhResolved hop)
            (if nhTransport hop = TransportTCP then ''tcp'' else [])
         in (rolePBX, fst d, fst (snd d), snd (snd d), ownHeaders E i)))"

lemma butlast_legHeaders: "butlast (legHeaders L c lid) = map (HeaderClone L) (inHeaders c) @ [NewHeader L ''X-Sequencer-Call-Id'' (callId c)]"
  by (simp add: legHeaders_def forwardHeaders_def butlast_append)

lemma wp_invite_seen:
  assumes "seen r xs i w" "\<And>s w'. seen r (xs @ [(role, fst d, fst (snd d), b @ snd (snd d), butlast hdrs)]) i w' \<Longrightarrow> Q s w'"
  shows "wp (invite E r role d b body hdrs) Q w"
  unfolding invite_def wp_bind
  by (rule wp_mono [OF keepsD [OF order.keeps_sync assms(1)]])
     (auto simp: wp_simps seen_def invites_addTrace inviteKey_def intro!: assms(2))

lemma wp_appLeg_seen:
  assumes s: "seen r xs i w" and u: "ParseUri (lib E) (appURI app) = Some uri"
  shows "wp (appLeg E r app uri body tap) (\<lambda>_ w'. seen r (xs @ [appKey E i app]) i w') w"
proof -
  let ?d = "dialerFor (lib E) uri (appTransport app) (appTLSProfile app) (appResolved app) ''tcp''"
  let ?h = "legHeaders (lib E) (wCalls w ! r) (newLegID E (wTick w))"
  have key: "(roleApplication, fst ?d, fst (snd ?d), [effectiveTimeout app (legTimeout E)] @ snd (snd ?d), butlast ?h)
      = appKey E i app"
    using s by (auto simp: appKey_def u Let_def seen_def identity_def ownHeaders_def butlast_legHeaders)
  have rest: "keeps (seen r ys i) (case sess of
        None \<Rightarrow> do { abort \<leftarrow> appLegFailed app tap;
          if abort then do { _ \<leftarrow> fail E r 503 ''Service Unavailable''; State_Monad.return False }
          else State_Monad.return True }
      | Some s \<Rightarrow> do { a \<leftarrow> waitAnswer E r s (effectiveTimeout app (legTimeout E));
          (case a of
             Answered res \<Rightarrow> do { _ \<leftarrow> appAnswered E r app tap lid s res; State_Monad.return True }
           | _ \<Rightarrow> do { abort \<leftarrow> appLegFailed app tap;
               if abort then do { _ \<leftarrow> respondInboundFromLegError E r a; State_Monad.return False }
               else State_Monad.return True }) })" for sess ys lid
    by (intro keeps_cases keeps_bind keeps_if order.keeps_appLegFailed order.keeps_fail keeps_return order.keeps_wait
        order.keeps_appAnswered order.keeps_respondError)
  show ?thesis
    unfolding appLeg_def wp_bind [of "getCall r"] wp_getCall wp_bind [of "gets_st wTick"] wp_gets_st
      wp_bind [of "invite E r roleApplication ?d [effectiveTimeout app (legTimeout E)] body ?h"]
    by (rule wp_invite_seen [OF s]) (rule keepsD [OF rest], simp only: key)
qed

definition mayInvite :: "Env \<Rightarrow> nat \<Rightarrow> invite_key list \<Rightarrow> string \<times> string \<times> Header list \<times> RoutingInput
    \<Rightarrow> Application list \<Rightarrow> World \<Rightarrow> bool" where
  "mayInvite E r xs i apps w = (\<exists>ys. subseq ys apps \<and> seen r (xs @ map (appKey E i) ys) i w)"

lemma mayInvite_none: "seen r xs i w \<Longrightarrow> mayInvite E r xs i apps w"
  unfolding mayInvite_def by (intro exI [of _ "[]"]) simp

lemma mayInvite_one: "seen r (xs @ [appKey E i app]) i w \<Longrightarrow> mayInvite E r xs i [app] w"
  unfolding mayInvite_def by (intro exI [of _ "[app]"]) simp

lemma wp_keeps_none: "keeps (seen r xs i) m \<Longrightarrow> seen r xs i w \<Longrightarrow> wp m (\<lambda>_. mayInvite E r xs i apps) w"
  by (rule wp_mono [OF keepsD [where I = "seen r xs i"]]) (auto intro: mayInvite_none)

lemma wp_appStep_seen:
  assumes s: "seen r xs i w"
  shows "wp (appStep E r app) (\<lambda>_. mayInvite E r xs i (filter (\<lambda>app. Matches (appRoutingRe app) (snd (snd (snd i)))) [app])) w"
proof -
  have rt: "routing (wCalls w ! r) = snd (snd (snd i))" using s by (auto simp: seen_def identity_def)
  show ?thesis
  proof (cases "Matches (appRoutingRe app) (routing (wCalls w ! r))")
    case False
    with rt show ?thesis
      by (simp add: appStep_def wp_bind wp_getCall wp_return mayInvite_none [OF s])
  next
    case m: True
    show ?thesis
    proof (cases "ParseUri (lib E) (appURI app)")
      case None
      have "keeps (seen r xs i) (do { _ \<leftarrow> fail E r 500 ''Server Error''; State_Monad.return False })"
        by (intro keeps_bind order.keeps_fail keeps_return)
      from wp_keeps_none [OF this s] show ?thesis
        using m None by (simp only: appStep_def wp_bind wp_getCall not_True_eq_False if_False option.case)
    next
      case (Some uri)
      have leg: "wp (appLeg E r app uri body tap) (\<lambda>_. mayInvite E r xs i [app]) w'" if "seen r xs i w'" for body tap w'
        by (rule wp_mono [OF wp_appLeg_seen [OF that Some]]) (rule mayInvite_one)
      have f: "wp (do { _ \<leftarrow> m; State_Monad.return b }) (\<lambda>_. mayInvite E r xs i [app]) w'"
        if "keeps (seen r xs i) m" "seen r xs i w'" for m :: "unit op" and b w'
        by (rule wp_keeps_none [OF _ that(2)]) (intro keeps_bind that(1) keeps_return)
      have inact: "wp (case buildInactiveOffer sdp h of Inl _ \<Rightarrow> do { _ \<leftarrow> fail E r 500 ''Server Error''; State_Monad.return False }
          | Inr body \<Rightarrow> appLeg E r app uri body None) (\<lambda>_. mayInvite E r xs i [app]) w" for sdp h
        using leg [OF s] f [OF order.keeps_fail s] by (auto split: sum.split)
      have tap: "wp (case t of
             Inl e \<Rightarrow> do { _ \<leftarrow> emit [EvAppFailure (appName app)];
               if failureAction (appOnFailure app) = actionAbort then do {
                 _ \<leftarrow> (if e = errTapExhausted then fail E r 503 ''Service Unavailable'' else fail E r 500 ''Server Error'');
                 State_Monad.return False } else State_Monad.return True }
           | Inr tap \<Rightarrow> (case buildTapOffer sdp h (RTP (trCallerPair tap)) (RTP (trCalleePair tap)) of
                Inl _ \<Rightarrow> do { _ \<leftarrow> releaseTap tap; _ \<leftarrow> fail E r 500 ''Server Error''; State_Monad.return False }
              | Inr body \<Rightarrow> appLeg E r app uri body (Some tap))) (\<lambda>_. mayInvite E r xs i [app]) w'"
        if s': "seen r xs i w'" for t w' sdp h
      proof (cases t)
        case (Inl e)
        show ?thesis unfolding Inl sum.case
          by (rule wp_keeps_none [OF _ s'])
             (intro keeps_bind order.keeps_emit keeps_if order.keeps_fail keeps_return, simp add: inviteKey_def)
      next
        case (Inr tap)
        have "keeps (seen r xs i) (do { _ \<leftarrow> releaseTap tap; _ \<leftarrow> fail E r 500 ''Server Error''; State_Monad.return False })"
          by (intro keeps_bind order.keeps_releaseTap order.keeps_fail keeps_return)
        from wp_keeps_none [OF this s'] leg [OF s'] show ?thesis
          unfolding Inr sum.case by (auto split: sum.split)
      qed
      have "wp (acquireTap E) (\<lambda>_. seen r xs i) w" using keepsD [OF order.keeps_acquireTap s] .
      from wp_mono [OF this tap] inact show ?thesis
        using m Some rt by (simp add: appStep_def wp_bind wp_getCall)
    qed
  qed
qed

lemma mayInvite_trans:
  assumes "mayInvite E r xs i as w" "\<And>ys. seen r ys i w \<Longrightarrow> wp m (\<lambda>_. mayInvite E r ys i bs) w"
  shows "wp m (\<lambda>_. mayInvite E r xs i (as @ bs)) w"
proof -
  from assms(1) obtain ys where y: "subseq ys as" "seen r (xs @ map (appKey E i) ys) i w" by (auto simp: mayInvite_def)
  show ?thesis
  proof (rule wp_mono [OF assms(2) [OF y(2)]])
    fix w'
    assume "mayInvite E r (xs @ map (appKey E i) ys) i bs w'"
    then obtain zs where "subseq zs bs" "seen r (xs @ map (appKey E i) (ys @ zs)) i w'" by (auto simp: mayInvite_def)
    then show "mayInvite E r xs i (as @ bs) w'"
      unfolding mayInvite_def using y(1) by (intro exI [of _ "ys @ zs"] conjI list_emb_append_mono)
  qed
qed

lemma wp_appChain_seen:
  "seen r xs i w \<Longrightarrow> wp (appChain E r apps)
     (\<lambda>_. mayInvite E r xs i (filter (\<lambda>app. Matches (appRoutingRe app) (snd (snd (snd i)))) apps)) w"
proof (induction apps arbitrary: xs w)
  case Nil
  then show ?case by (simp add: wp_return mayInvite_none)
next
  case (Cons app apps)
  let ?M = "\<lambda>app. Matches (appRoutingRe app) (snd (snd (snd i)))"
  have split: "filter ?M (app # apps) = filter ?M [app] @ filter ?M apps" by simp
  have stop: "wp (State_Monad.return False) (\<lambda>_. mayInvite E r ys i (filter ?M apps)) w'" if "seen r ys i w'" for ys w'
    using that by (simp add: wp_return mayInvite_none)
  show ?case
    unfolding split appChain.simps wp_bind
    apply (rule wp_mono [OF wp_appStep_seen [OF Cons.prems]])
    apply (erule mayInvite_trans)
    subgoal for b w' ys
      using Cons.IH [of ys w'] stop [of ys w'] by simp
    done
qed

text \<open>The PBX leg.\<close>

definition mayHop :: "Env \<Rightarrow> nat \<Rightarrow> invite_key list \<Rightarrow> string \<times> string \<times> Header list \<times> RoutingInput \<Rightarrow> bool \<Rightarrow> World \<Rightarrow> bool" where
  "mayHop E r xs i dialled w = (seen r (xs @ [hopKey E i]) i w \<or> \<not> dialled \<and> seen r xs i w)"

lemma wp_originatePBX_seen:
  assumes s: "seen r xs i w"
  shows "wp (originatePBX E r offer) (\<lambda>a. mayHop E r xs i (a \<noteq> None)) w"
proof (cases "ParseUri (lib E) (nhURI (cfgNextHop (cfg E)))")
  case None
  show ?thesis
    unfolding originatePBX_def Let_def None option.case failWith_def wp_bind wp_return
    by (rule wp_mono [OF keepsD [OF order.keeps_fail s]]) (simp add: mayHop_def)
next
  case (Some uri)
  let ?hop = "cfgNextHop (cfg E)"
  let ?d = "dialerFor (lib E) uri (nhTransport ?hop) (nhTLSProfile ?hop) (nhResolved ?hop)
    (if nhTransport ?hop = TransportTCP then ''tcp'' else [])"
  let ?h = "legHeaders (lib E) (wCalls w ! r) (newLegID E (wTick w))"
  have key: "(rolePBX, fst ?d, fst (snd ?d), [] @ snd (snd ?d), butlast ?h) = hopKey E i"
    using s by (auto simp: hopKey_def Some Let_def seen_def identity_def ownHeaders_def butlast_legHeaders)
  have rest: "keeps (seen r ys i) (case sess of
             None \<Rightarrow> hopFailed E r 503 ''Service Unavailable''
           | Some s \<Rightarrow> do {
               _ \<leftarrow> locked E r (\<lambda>c. c\<lparr>pbxLeg := Some \<lparr>legRole = rolePBX, legTarget = nhURI ?hop,
                      legID = newLegID E t, legSession = s, legAnswer = []\<rparr>\<rparr>);
               a \<leftarrow> waitAnswer E r s (legTimeout E);
               (case a of
                  Answered res \<Rightarrow> do {
                    _ \<leftarrow> ack E r s;
                    _ \<leftarrow> locked E r (\<lambda>c. c\<lparr>pbxLeg := map_option (\<lambda>l. l\<lparr>legAnswer := resBody res\<rparr>) (pbxLeg c)\<rparr>);
                    State_Monad.return (Some res) }
                | _ \<Rightarrow> do {
                    _ \<leftarrow> emit [EvTerminatingHopFailure];
                    _ \<leftarrow> respondInboundFromLegError E r a;
                    State_Monad.return None }) })" for sess ys t
    unfolding hopFailed_def
    by (intro keeps_cases keeps_bind order.keeps_locked order.keeps_wait order.keeps_ack order.keeps_emit order.keeps_respondError order.keeps_failWith
        keeps_return) (simp_all add: identity_def inviteKey_def)
  show ?thesis
    unfolding originatePBX_def Let_def Some option.case wp_bind [of "getCall r"] wp_getCall
      wp_bind [of "gets_st wTick"] wp_gets_st wp_bind [of "invite E r rolePBX ?d [] offer ?h"]
    unfolding key [symmetric] mayHop_def
    by (rule wp_invite_seen [OF s], rule wp_mono [OF keepsD [OF rest]], assumption) blast
qed

lemma wp_after_hop:
  assumes "mayHop E r xs i b w" "\<And>ys. keeps (seen r ys i) m" "b \<or> \<not> d"
  shows "wp m (\<lambda>_. mayHop E r xs i d) w"
  using assms(1)
proof (unfold mayHop_def, elim disjE conjE)
  assume "seen r (xs @ [hopKey E i]) i w"
  from keepsD [OF assms(2) this] show "wp m (\<lambda>_ w. seen r (xs @ [hopKey E i]) i w \<or> \<not> d \<and> seen r xs i w) w"
    by (rule wp_mono) simp
next
  assume n: "\<not> b" and s: "seen r xs i w"
  from keepsD [OF assms(2) s] show "wp m (\<lambda>_ w. seen r (xs @ [hopKey E i]) i w \<or> \<not> d \<and> seen r xs i w) w"
    by (rule wp_mono) (use n assms(3) in simp)
qed

lemma identity_setPBXRemote: "identity (setPBXRemote h p c) = identity c"
  by (simp add: identity_def setPBXRemote_def Let_def split: prod.split)

lemma mayHop_mono: "mayHop E r xs i b w \<Longrightarrow> (d \<Longrightarrow> b) \<Longrightarrow> mayHop E r xs i d w"
  by (auto simp: mayHop_def)

lemma mayHop_none: "seen r xs i w \<Longrightarrow> mayHop E r xs i False w"
  by (simp add: mayHop_def)

text \<open>After the PBX leg nothing is dialled any more; the call is up only if it was.\<close>

lemma wp_afterHop:
  assumes "mayHop E r xs i True w" "\<And>ys. keeps (seen r ys i) m"
  shows "wp m (\<lambda>b. mayHop E r xs i b) w"
  by (rule wp_mono [OF wp_after_hop [OF assms, where d = True]]) (auto simp: mayHop_def)

lemma wp_keeps_hop: "keeps (seen r xs i) m \<Longrightarrow> seen r xs i w \<Longrightarrow> wp (do { _ \<leftarrow> m; State_Monad.return False }) (\<lambda>b. mayHop E r xs i b) w"
  unfolding wp_bind by (rule wp_mono [OF keepsD [where I = "seen r xs i"]]) (auto simp: wp_return mayHop_none)

lemma wp_dialPBX_seen:
  assumes s: "seen r xs i w"
  shows "wp (dialPBX E r epP pbxP) (\<lambda>b. mayHop E r xs i b) w"
proof -
  have fl: "wp (failFalse E r st reason) (\<lambda>b. mayHop E r xs i b) w" for st reason
    using wp_keeps_hop [OF order.keeps_fail s] by (simp add: failFalse_def)
  have after: "wp (case a of None \<Rightarrow> State_Monad.return False
      | Some res \<Rightarrow> (case parseMedia (resBody res) of
            Inl _ \<Rightarrow> do { _ \<leftarrow> emit [EvTerminatingHopFailure]; failFalse E r 488 ''Not Acceptable Here'' }
          | Inr (pbxHost, pbxPort) \<Rightarrow> do {
              _ \<leftarrow> locked E r (setPBXRemote pbxHost pbxPort);
              (case rewriteToAnchor (resBody res) (mediaHost E) (RTP epP) of
                 Inl _ \<Rightarrow> failFalse E r 500 ''Server Error''
               | Inr epAnswer \<Rightarrow> do {
                   _ \<leftarrow> reportCodecAgreement epAnswer (resBody res);
                   answerEndpoint E r epAnswer (relayableResponseHeaders (lib E) res epAnswer) }) }))
      (\<lambda>b. mayHop E r xs i b) w'" if a: "mayHop E r xs i (a \<noteq> None) w'" for a w'
  proof (cases a)
    case None
    with a show ?thesis by (simp add: wp_return)
  next
    case (Some res)
    have h: "mayHop E r xs i True w'" using a Some by simp
    show ?thesis
      unfolding Some option.case
      by (rule wp_afterHop [OF h])
         (intro keeps_cases keeps_bind order.keeps_emit order.keeps_failFalse order.keeps_locked order.keeps_reportCodecAgreement
            order.keeps_answerEndpoint, simp_all add: inviteKey_def identity_setPBXRemote)
  qed
  show ?thesis
    unfolding dialPBX_def wp_bind [of "getCall r"] wp_getCall
    using fl wp_mono [OF wp_originatePBX_seen [OF s] after] by (simp add: wp_bind split: sum.split)
qed

lemma wp_bridgeSecured_seen:
  assumes s: "seen r xs i w"
  shows "wp (bridgeSecuredToPBX E r leg) (\<lambda>b. mayHop E r xs i b) w"
proof -
  have fl: "wp (failFalse E r st reason) (\<lambda>b. mayHop E r xs i b) w'" if "seen r xs i w'" for st reason w'
    using wp_keeps_hop [OF order.keeps_fail that] by (simp add: failFalse_def)
  have after: "wp (case a of None \<Rightarrow> State_Monad.return False
      | Some res \<Rightarrow> (case parseMedia (resBody res) of
            Inl _ \<Rightarrow> do { _ \<leftarrow> emit [EvTerminatingHopFailure]; failFalse E r 488 ''Not Acceptable Here'' }
          | Inr (pbxHost, pbxPort) \<Rightarrow> do {
              _ \<leftarrow> locked E r (setPBXRemote pbxHost pbxPort);
              _ \<leftarrow> reportCodecAgreement (answerSDP leg) (resBody res);
              answerEndpoint E r (answerSDP leg) [] }))
      (\<lambda>b. mayHop E r xs i b) w'" if a: "mayHop E r xs i (a \<noteq> None) w'" for a w'
  proof (cases a)
    case None
    with a show ?thesis by (simp add: wp_return)
  next
    case (Some res)
    have h: "mayHop E r xs i True w'" using a Some by simp
    show ?thesis
      unfolding Some option.case
      by (rule wp_afterHop [OF h])
         (intro keeps_cases keeps_bind order.keeps_emit order.keeps_failFalse order.keeps_locked order.keeps_reportCodecAgreement
            order.keeps_answerEndpoint, simp_all add: inviteKey_def identity_setPBXRemote)
  qed
  have dial: "wp (do { c \<leftarrow> getCall r;
      (case buildPlainOfferFromWebRTC (offerSDP c) (mediaHost E) (RTP q) of
         Inl _ \<Rightarrow> failFalse E r 500 ''Server Error''
       | Inr offer \<Rightarrow> do {
           ans \<leftarrow> originatePBX E r offer;
           (case ans of None \<Rightarrow> State_Monad.return False
            | Some res \<Rightarrow> (case parseMedia (resBody res) of
                  Inl _ \<Rightarrow> do { _ \<leftarrow> emit [EvTerminatingHopFailure]; failFalse E r 488 ''Not Acceptable Here'' }
                | Inr (pbxHost, pbxPort) \<Rightarrow> do {
                    _ \<leftarrow> locked E r (setPBXRemote pbxHost pbxPort);
                    _ \<leftarrow> reportCodecAgreement (answerSDP leg) (resBody res);
                    answerEndpoint E r (answerSDP leg) [] })) }) }) (\<lambda>b. mayHop E r xs i b) w'"
    if s': "seen r xs i w'" for q w'
    unfolding wp_bind [of "getCall r"] wp_getCall
  proof (cases "buildPlainOfferFromWebRTC (offerSDP (wCalls w' ! r)) (mediaHost E) (RTP q)")
    case (Inr offer)
    show "wp (case buildPlainOfferFromWebRTC (offerSDP (wCalls w' ! r)) (mediaHost E) (RTP q) of
         Inl _ \<Rightarrow> failFalse E r 500 ''Server Error''
       | Inr offer \<Rightarrow> do {
           ans \<leftarrow> originatePBX E r offer;
           (case ans of None \<Rightarrow> State_Monad.return False
            | Some res \<Rightarrow> (case parseMedia (resBody res) of
                  Inl _ \<Rightarrow> do { _ \<leftarrow> emit [EvTerminatingHopFailure]; failFalse E r 488 ''Not Acceptable Here'' }
                | Inr (pbxHost, pbxPort) \<Rightarrow> do {
                    _ \<leftarrow> locked E r (setPBXRemote pbxHost pbxPort);
                    _ \<leftarrow> reportCodecAgreement (answerSDP leg) (resBody res);
                    answerEndpoint E r (answerSDP leg) [] })) }) (\<lambda>b. mayHop E r xs i b) w'"
      unfolding Inr sum.case wp_bind [of "originatePBX E r offer"]
      by (rule wp_mono [OF wp_originatePBX_seen [OF s']]) (rule after)
  qed (simp add: fl [OF s'])
  have early: "wp (do { _ \<leftarrow> m; failFalse E r st reason }) (\<lambda>b. mayHop E r xs i b) w'"
    if "keeps (seen r xs i) m" "seen r xs i w'" for m :: "unit op" and st reason w'
    unfolding wp_bind by (rule wp_mono [OF keepsD [OF that]]) (rule fl)
  show ?thesis
    unfolding bridgeSecuredToPBX_def wp_bind [of "acquire E"]
    apply (rule wp_mono [OF keepsD [OF order.keeps_acquire s]])
    subgoal for q w1
    proof (cases q)
      case None
      assume "seen r xs i w1"
      then show ?thesis unfolding None option.case by (rule fl)
    next
      case (Some q)
      assume s1: "seen r xs i w1"
      show ?thesis
        unfolding Some option.case wp_bind [of "bindSide E q"]
        apply (rule wp_mono [OF keepsD [OF order.keeps_bindSide s1]])
        subgoal for sd w2
        proof (cases sd)
          case None
          assume "seen r xs i w2"
          then show ?thesis unfolding None option.case by (rule early [OF order.keeps_releasePairs])
        next
          case (Some sd)
          let ?f = "\<lambda>c. c\<lparr>media := map_option (\<lambda>m. m\<lparr>pbxSide := Some sd\<rparr>) (media c), releaseMedia := Some [q]\<rparr>"
          assume s2: "seen r xs i w2"
          have "keeps (seen r xs i) (registerMedia E r ?f)" by (rule order.keeps_registerMedia) (simp add: identity_def)
          from keepsD [OF this s2] show ?thesis
            unfolding Some option.case wp_bind [of "registerMedia E r ?f"]
          proof (rule wp_mono)
            fix ok w3
            assume s3: "seen r xs i w3"
            have "keeps (seen r xs i) (do { _ \<leftarrow> closeSides [sd]; releasePairs [q] })"
              by (intro keeps_bind order.keeps_closeSides order.keeps_releasePairs)
            from wp_keeps_hop [OF this s3] dial [OF s3]
            show "wp (if \<not> ok then do { _ \<leftarrow> closeSides [sd]; _ \<leftarrow> releasePairs [q]; State_Monad.return False }
                else do { c \<leftarrow> getCall r;
      (case buildPlainOfferFromWebRTC (offerSDP c) (mediaHost E) (RTP q) of
         Inl _ \<Rightarrow> failFalse E r 500 ''Server Error''
       | Inr offer \<Rightarrow> do {
           ans \<leftarrow> originatePBX E r offer;
           (case ans of None \<Rightarrow> State_Monad.return False
            | Some res \<Rightarrow> (case parseMedia (resBody res) of
                  Inl _ \<Rightarrow> do { _ \<leftarrow> emit [EvTerminatingHopFailure]; failFalse E r 488 ''Not Acceptable Here'' }
                | Inr (pbxHost, pbxPort) \<Rightarrow> do {
                    _ \<leftarrow> locked E r (setPBXRemote pbxHost pbxPort);
                    _ \<leftarrow> reportCodecAgreement (answerSDP leg) (resBody res);
                    answerEndpoint E r (answerSDP leg) [] })) }) }) (\<lambda>b. mayHop E r xs i b) w3"
              by (cases ok) (simp_all add: wp_bind)
          qed
        qed
        done
    qed
    done
qed

definition legsInOrder :: "Env \<Rightarrow> nat \<Rightarrow> invite_key list \<Rightarrow> string \<times> string \<times> Header list \<times> RoutingInput \<Rightarrow> bool \<Rightarrow> World \<Rightarrow> bool" where
  "legsInOrder E r xs i dialled w = (\<exists>ys. subseq ys (filter (\<lambda>app. Matches (appRoutingRe app) (snd (snd (snd i)))) (cfgSequence (cfg E)))
     \<and> mayHop E r (xs @ map (appKey E i) ys) i dialled w)"

lemma wp_bridge_seen:
  assumes s: "seen r xs i w"
  shows "wp (bridge E r) (\<lambda>b. legsInOrder E r xs i b) w"
proof -
  let ?apps = "filter (\<lambda>app. Matches (appRoutingRe app) (snd (snd (snd i)))) (cfgSequence (cfg E))"
  have relay: "wp (do { up \<leftarrow> m; _ \<leftarrow> (if up then emit [EvRelay r] else State_Monad.return ()); State_Monad.return up })
      (\<lambda>b. mayHop E r ys i b) w'" if "wp m (\<lambda>b. mayHop E r ys i b) w'" for m ys w'
    unfolding wp_bind
    by (rule wp_mono [OF that]) (auto simp: wp_simps mayHop_def inviteKey_def intro: seen_addTrace)
  have 1: "wp (do { a \<leftarrow> anchorMedia E r; (case a of None \<Rightarrow> State_Monad.return False
      | Some (SecuredAnchor leg) \<Rightarrow> do { up \<leftarrow> bridgeSecuredToPBX E r leg;
          _ \<leftarrow> (if up then emit [EvRelay r] else State_Monad.return ()); State_Monad.return up }
      | Some (PlainAnchor epP pbxP) \<Rightarrow> do { up \<leftarrow> dialPBX E r epP pbxP;
          _ \<leftarrow> (if up then emit [EvRelay r] else State_Monad.return ()); State_Monad.return up }) })
      (\<lambda>b. mayHop E r ys i b) w'" if s': "seen r ys i w'" for ys w'
    unfolding wp_bind [of "anchorMedia E r"]
    by (rule wp_mono [OF keepsD [OF order.keeps_anchorMedia s']])
       (auto simp: wp_return mayHop_none intro: relay wp_dialPBX_seen wp_bridgeSecured_seen split: option.split MediaAnchor.split)
  show ?thesis
    unfolding bridge_def runAppChain_def wp_bind [of "appChain E r (cfgSequence (cfg E))"]
  proof (rule wp_mono [OF wp_appChain_seen [OF s]])
    fix b w'
    assume "mayInvite E r xs i ?apps w'"
    then obtain ys where ys: "subseq ys ?apps" "seen r (xs @ map (appKey E i) ys) i w'" by (auto simp: mayInvite_def)
    have "wp (if \<not> b then State_Monad.return False else do { a \<leftarrow> anchorMedia E r; (case a of None \<Rightarrow> State_Monad.return False
      | Some (SecuredAnchor leg) \<Rightarrow> do { up \<leftarrow> bridgeSecuredToPBX E r leg;
          _ \<leftarrow> (if up then emit [EvRelay r] else State_Monad.return ()); State_Monad.return up }
      | Some (PlainAnchor epP pbxP) \<Rightarrow> do { up \<leftarrow> dialPBX E r epP pbxP;
          _ \<leftarrow> (if up then emit [EvRelay r] else State_Monad.return ()); State_Monad.return up }) })
      (\<lambda>b. mayHop E r (xs @ map (appKey E i) ys) i b) w'"
      using 1 [OF ys(2)] ys(2) by (cases b) (simp_all add: wp_return mayHop_none)
    then show "wp (if \<not> b then State_Monad.return False else do { a \<leftarrow> anchorMedia E r; (case a of None \<Rightarrow> State_Monad.return False
      | Some (SecuredAnchor leg) \<Rightarrow> do { up \<leftarrow> bridgeSecuredToPBX E r leg;
          _ \<leftarrow> (if up then emit [EvRelay r] else State_Monad.return ()); State_Monad.return up }
      | Some (PlainAnchor epP pbxP) \<Rightarrow> do { up \<leftarrow> dialPBX E r epP pbxP;
          _ \<leftarrow> (if up then emit [EvRelay r] else State_Monad.return ()); State_Monad.return up }) })
      (\<lambda>b. legsInOrder E r xs i b) w'"
      by (rule wp_mono) (use ys(1) in \<open>auto simp: legsInOrder_def\<close>)
  qed
qed

section \<open>Skipping\<close>

text \<open>An application whose failure is skipped never ends the chain by its own failing.\<close>

definition skippable :: "Env \<Rightarrow> Application \<Rightarrow> bool" where
  "skippable E app = (appOnFailure app \<noteq> FailureAbort \<and> ParseUri (lib E) (appURI app) \<noteq> None)"

lemma wp_any: "(\<And>r w'. Q r w') \<Longrightarrow> wp m Q w"
  by (simp add: wp_run)

lemma wp_appStep_skips:
  assumes s: "seen r xs i w" and k: "skippable E app" and offer: "extractAudioCodecs (fst (snd i)) = Inr x"
  shows "wp (appStep E r app) (\<lambda>b w'. b \<and> (\<exists>ys. seen r ys i w')) w"
proof -
  have sdp: "offerSDP (wCalls w ! r) = fst (snd i)" using s by (auto simp: seen_def identity_def)
  obtain uri where u: "ParseUri (lib E) (appURI app) = Some uri" using k by (auto simp: skippable_def)
  have no: "failureAction (appOnFailure app) \<noteq> actionAbort" using k by (simp add: skippable_def failureAction_def)
  obtain f rm fm where x: "x = (f, rm, fm)" by (cases x)
  have "\<exists>body. buildTapOffer (offerSDP (wCalls w ! r)) h p1 p2 = Inr body" for h p1 p2
    by (simp add: sdp offer x buildTapOffer_def)
  then obtain B where B: "\<And>h p1 p2. buildTapOffer (offerSDP (wCalls w ! r)) h p1 p2 = Inr (B h p1 p2)" by metis
  have "\<exists>body. buildInactiveOffer (offerSDP (wCalls w ! r)) h = Inr body" for h
    by (simp add: sdp offer x buildInactiveOffer_def)
  then obtain D where D: "\<And>h. buildInactiveOffer (offerSDP (wCalls w ! r)) h = Inr (D h)" by metis
  have true: "wp m (\<lambda>b w'. b \<and> (\<exists>ys. seen r ys i w')) w'"
    if "wp m (\<lambda>b _. b) w'" "wp m (\<lambda>_ w'. \<exists>ys. seen r ys i w') w'" for m :: "bool op" and w'
    using wp_conj [OF that] .
  have legTrue: "wp (appLeg E r app uri body tap) (\<lambda>b _. b) w'" for body tap w'
  proof -
    have f: "wp (do { abort \<leftarrow> appLegFailed app tap; if abort then m else State_Monad.return True }) (\<lambda>b _. b) w'" for m w'
      using no by (auto simp: appLegFailed_def wp_simps intro: wp_any split: option.split)
    have ans: "wp (case a of
             Answered res \<Rightarrow> do { _ \<leftarrow> appAnswered E r app tap lid s res; State_Monad.return True }
           | _ \<Rightarrow> do { abort \<leftarrow> appLegFailed app tap;
               if abort then do { _ \<leftarrow> respondInboundFromLegError E r a; State_Monad.return False }
               else State_Monad.return True }) (\<lambda>b _. b) w'" for a lid s w'
      using f by (cases a) (simp_all add: wp_bind wp_return wp_any)
    have sess: "wp (case s of
        None \<Rightarrow> do { abort \<leftarrow> appLegFailed app tap;
          if abort then do { _ \<leftarrow> fail E r 503 ''Service Unavailable''; State_Monad.return False }
          else State_Monad.return True }
      | Some s \<Rightarrow> do { a \<leftarrow> waitAnswer E r s (effectiveTimeout app (legTimeout E));
          (case a of
             Answered res \<Rightarrow> do { _ \<leftarrow> appAnswered E r app tap lid s res; State_Monad.return True }
           | _ \<Rightarrow> do { abort \<leftarrow> appLegFailed app tap;
               if abort then do { _ \<leftarrow> respondInboundFromLegError E r a; State_Monad.return False }
               else State_Monad.return True }) }) (\<lambda>b _. b) w'" for s lid w'
    proof (cases s)
      case (Some t)
      show ?thesis unfolding Some option.case wp_bind [of "waitAnswer _ _ _ _"] by (rule wp_any) (rule ans)
    qed (use f in simp)
    show ?thesis
      unfolding appLeg_def wp_bind [of "getCall r"] wp_getCall wp_bind [of "gets_st wTick"] wp_gets_st
        wp_bind [of "invite _ _ _ _ _ _ _"]
      by (rule wp_any) (rule sess)
  qed
  show ?thesis
  proof (rule true)
    show "wp (appStep E r app) (\<lambda>_ w'. \<exists>ys. seen r ys i w') w"
      by (rule wp_mono [OF wp_appStep_seen [OF s]]) (auto simp: mayInvite_def)
    show "wp (appStep E r app) (\<lambda>b _. b) w"
    proof (cases "Matches (appRoutingRe app) (routing (wCalls w ! r)) \<and> appMedia app = MediaTap")
      case True
      have m: "Matches (appRoutingRe app) (routing (wCalls w ! r))" "appMedia app = MediaTap" using True by simp_all
      have "wp (case t of
             Inl e \<Rightarrow> do { _ \<leftarrow> emit [EvAppFailure (appName app)];
               if failureAction (appOnFailure app) = actionAbort then do {
                 _ \<leftarrow> (if e = errTapExhausted then fail E r 503 ''Service Unavailable'' else fail E r 500 ''Server Error'');
                 State_Monad.return False } else State_Monad.return True }
           | Inr tap \<Rightarrow> appLeg E r app uri (B (mediaHost E) (RTP (trCallerPair tap)) (RTP (trCalleePair tap))) (Some tap))
           (\<lambda>b _. b) w'" for t w'
        using no legTrue by (cases t) (simp_all add: wp_simps)
      from wp_any [of "\<lambda>t w'. wp (case t of
             Inl e \<Rightarrow> do { _ \<leftarrow> emit [EvAppFailure (appName app)];
               if failureAction (appOnFailure app) = actionAbort then do {
                 _ \<leftarrow> (if e = errTapExhausted then fail E r 503 ''Service Unavailable'' else fail E r 500 ''Server Error'');
                 State_Monad.return False } else State_Monad.return True }
           | Inr tap \<Rightarrow> appLeg E r app uri (B (mediaHost E) (RTP (trCallerPair tap)) (RTP (trCalleePair tap))) (Some tap))
           (\<lambda>b _. b) w'", OF this]
      show ?thesis using m by (simp add: appStep_def wp_bind wp_getCall u B)
    next
      case False
      then show ?thesis
        unfolding appStep_def wp_bind [of "getCall r"] wp_getCall
        using legTrue by (auto simp: u D wp_return)
    qed
  qed
qed

end
