(* ===== verification/SampleCall.thy ===== *)
theory SampleCall
  imports LegOrder
begin

text \<open>
  A concrete call with its SIP library, applications, configuration and environment, and runs of its
  set-up, on which the properties are applied.
\<close>

section \<open>A sample call\<close>

definition sampleLib :: SipLib where
  "sampleLib = \<lparr>HeaderClone = (\<lambda>h. h), NewHeader = (\<lambda>n v. \<lparr>hdrName = n, hdrValue = v\<rparr>),
     GetHeader = (\<lambda>hs n. List.find (\<lambda>h. equalFold (hdrName h) n) hs), ParseUri = Some,
     AddTransport = (\<lambda>u t. u @ '';transport='' @ t), IsProvisional = (\<lambda>s. s < 200)\<rparr>"

definition tapApp1 :: Application where
  "tapApp1 = \<lparr>appName = ''rec'', appURI = ''sip:rec@10.0.0.9'', appOnFailure = ''skip'', appMedia = ''tap'',
     appTransport = ''udp'', appTLSProfile = [], appTimeout = [], appRouting = None,
     appTimeoutDur = 0, appResolved = None, appRoutingRe = None\<rparr>"

definition sampleConfig :: Config where
  "sampleConfig = \<lparr>cfgSIPListen = ''0.0.0.0:5060'', cfgTLS = \<lparr>lsListen = [], lsProfile = [], lsResolved = None\<rparr>,
     cfgWSListen = [], cfgWSS = \<lparr>lsListen = [], lsProfile = [], lsResolved = None\<rparr>,
     cfgNextHop = \<lparr>nhURI = ''sip:pbx@10.0.0.2'', nhTransport = ''udp'', nhTLSProfile = [], nhResolved = None\<rparr>,
     cfgRTP = \<lparr>rtpPortRange = ''20000-20100'', rtpIdleTimeout = [], rtpIdleTimeoutDur = 0\<rparr>,
     cfgPublicAddress = [], cfgSequence = [tapApp1], cfgTLSProfiles = [], cfgLogLevel = ''info'',
     cfgObsListen = [], cfgLegTimeout = [], cfgLegTimeoutDur = 32\<rparr>"

definition sampleAnswerSDP :: string where
  "sampleAnswerSDP = crlf_lines
     [''v=0'', ''c=IN IP4 10.0.0.9'', ''m=audio 4000 RTP/AVP 0'', ''m=audio 4002 RTP/AVP 0'']"

definition sampleCallerSDP :: string where
  "sampleCallerSDP = crlf_lines [''v=0'', ''c=IN IP4 192.0.2.7'', ''m=audio 40000 RTP/AVP 0'']"

definition sampleAnswer :: Response where
  "sampleAnswer = \<lparr>resStatus = 200, resReason = ''OK'', resHeaders = [], resBody = sampleAnswerSDP\<rparr>"

definition sampleMediaHost :: string where "sampleMediaHost = ''10.0.0.5''"

definition sampleEnv :: "(nat \<Rightarrow> Interf list) \<Rightarrow> LegResult \<Rightarrow> Env" where
  "sampleEnv f res = \<lparr>lib = sampleLib, cfg = sampleConfig, mediaHost = sampleMediaHost, mediaPublicAddr = [],
     legTimeout = 32, interf = f, osBind = (\<lambda>_ _. Bound), inviteOk = (\<lambda>_. True),
     waitResult = (\<lambda>t. ([], if t < 10 then Answered sampleAnswer else res)), respondOk = (\<lambda>_. True),
     webrtc = (\<lambda>_ _ _. NoEndpoint), newLegID = (\<lambda>_. ''leg'')\<rparr>"

definition sampleCall :: Call where
  "sampleCall = \<lparr>callId = ''c1'', callState = stateSetup, inboundID = ''d1'',
     offerSDP = sampleCallerSDP,
     inHeaders = [], routing = \<lparr>riMethod = ''INVITE'', riFrom = [], riTo = []\<rparr>, appLegs = [], pbxLeg = None,
     transferTarget = None, cancelled = False, media = None, releaseMedia = None, pendingTaps = [],
     inboundDetached = False\<rparr>"

definition sampleWorld :: World where
  "sampleWorld = \<lparr>wPorts = newPortAllocator 20000 20100, wHandles = \<lparr>openH = [], nextH = 0\<rparr>,
     wCalls = [sampleCall], wReg = [(''c1'', 0)], wDialogs = [(''d1'', 0)], wOthers = [], wTrace = [], wTick = 0\<rparr>"


definition the_sdp :: "sdp_error + string \<Rightarrow> string" where
  "the_sdp r = (case r of Inr x \<Rightarrow> x | Inl _ \<Rightarrow> [])"

lemma the_sdp_eq: "isl r = False \<Longrightarrow> r = Inr (the_sdp r)"
  by (cases r) (auto simp: the_sdp_def)

definition sampleTapOffer where "sampleTapOffer = the_sdp (buildTapOffer sampleCallerSDP sampleMediaHost 20000 20002)"
definition samplePBXOffer where "samplePBXOffer = the_sdp (rewriteToAnchor sampleCallerSDP sampleMediaHost 20006)"
definition sampleFinalAnswer where "sampleFinalAnswer = the_sdp (rewriteToAnchor sampleAnswerSDP sampleMediaHost 20004)"

lemma sample_sdp:
  "buildTapOffer sampleCallerSDP sampleMediaHost 20000 20002 = Inr sampleTapOffer"
  "rewriteToAnchor sampleCallerSDP sampleMediaHost 20006 = Inr samplePBXOffer"
  "rewriteToAnchor sampleAnswerSDP sampleMediaHost 20004 = Inr sampleFinalAnswer"
  unfolding sampleTapOffer_def samplePBXOffer_def sampleFinalAnswer_def
  by (rule the_sdp_eq, code_simp)+

lemma call_parses:
  "parseTapAnswer sampleAnswerSDP = Inr (''10.0.0.9'', 4000, ''10.0.0.9'', 4002)"
  "parseMedia sampleCallerSDP = Inr (''192.0.2.7'', 40000)"
  "parseMedia sampleAnswerSDP = Inr (''10.0.0.9'', 4002)"
  "offerIsWebRTC sampleCallerSDP = False"
  "sampleFinalAnswer = [] \<longleftrightarrow> False"
  "selectedAudioCodec sampleFinalAnswer = selectedAudioCodec sampleAnswerSDP"
  "isl (selectedAudioCodec sampleAnswerSDP) = False"
  by code_simp+

lemma codecsMatch_refl [simp]: "codecsMatch c c"
  by (simp add: codecsMatch_def)

lemma sample_codecs: "reportCodecAgreement sampleFinalAnswer sampleAnswerSDP = State_Monad.return ()"
  using call_parses(7) by (auto simp: reportCodecAgreement_def call_parses(6) split: sum.split)

lemma run_bind: "run_state (State_Monad.bind m f) s = (case run_state m s of (r, s') \<Rightarrow> run_state (f r) s')"
  by (simp split: prod.split)

lemmas runs = bridge_def runAppChain_def appStep_def acquireTap_def acquire_def sync_def getCall_def emit_def
  bindSide_def appLeg_def invite_def waitAnswer_def appAnswered_def ack_def locked_def anchorMedia_def anchorPlain_def
  registerMedia_def dialPBX_def originatePBX_def answerEndpoint_def respond_def

lemmas sample_defs = sampleEnv_def sampleLib_def sampleConfig_def sampleWorld_def sampleCall_def sampleAnswer_def tapApp1_def

lemmas sample_run = runs sample_defs sample_sdp call_parses sample_codecs newAnchorSide_def openHandle_def
  Acquire_def newPortAllocator_def Let_def updCall_def addTrace_def register_def stashedTap_def tapRemote_def
  legHeaders_def forwardHeaders_def dialerFor_def effectiveTimeout_def Matches_def establish_def canTransition_def
  setPBXRemote_def newMediaSession_def udpAddrPair_def relayableResponseHeaders_def

lemma sample_interfered:
  "case run_state (bridge (sampleEnv (\<lambda>t. if t = 14 then [ITeardown 0] else []) (Answered sampleAnswer)) 0) sampleWorld of
     (ok, w') \<Rightarrow> \<not> ok \<and> finals 0 w' = 0 \<and> length (pendingTaps (wCalls w' ! 0)) = 1
       \<and> callState (wCalls w' ! 0) = stateTearingDown"
  by (simp add: sample_run teardown_def regRemove_def mapDelete_def byes_def releaseUnregistered_def releasePairs_def
     finals_def finalOf_def isFinal_def)

lemma sample_late:
  "case run_state (bridge (sampleEnv (\<lambda>t. if t = 22 then [ITeardown 0] else []) (Answered sampleAnswer)) 0) sampleWorld of
     (ok, w') \<Rightarrow> ok \<and> finals 0 w' = 1 \<and> EvByeInbound 0 \<notin> set (wTrace w') \<and> callState (wCalls w' ! 0) = stateTearingDown
       \<and> (\<exists>m. media (wCalls w' ! 0) = Some m \<and> length (taps m) = 1)"
  by (simp add: sample_run teardown_def regRemove_def mapDelete_def byes_def runRelease_def closeSession_def tapPairs_def
     finals_def finalOf_def isFinal_def addTap_def)

end
