(* ===== verification/CallProps.thy ===== *)
theory CallProps
  imports SampleCall
begin

text \<open>
  The properties of a call's set-up, its teardown and the idle sweep, over every behaviour of the
  environment, drawn from the invariants of the theories before, each applied to a concrete call.
\<close>

section \<open>Ports of a set-up call\<close>

text \<open>A world whose books balance, with a call that has just been created.\<close>

definition startable :: "nat \<Rightarrow> World \<Rightarrow> bool" where
  "startable r w = (r < length (wCalls w) \<and> callState (wCalls w ! r) = stateSetup
     \<and> releaseMedia (wCalls w ! r) = None \<and> finals r w = 0 \<and> acct {#} {#} w)"

text \<open>What the SIP library guarantees: rejections carry a status of 300 or more, and responses it
  calls provisional are below 200.\<close>

definition sipBehaves :: "Env \<Rightarrow> bool" where
  "sipBehaves E = (rejectionsFinal E \<and> provisionalsBelow E)"

lemma startable_prep: "startable r w \<Longrightarrow> prep E r fresh False {#} {#} w"
  by (auto simp: startable_def prep_def books_def)

lemma bridge_post:
  assumes "startable r w" "sipBehaves E" "run_state (bridge E r) w = (ok, w')"
  shows "upPost E r {#} ok w'"
  using wp_bridge [OF startable_prep [OF assms(1), of E]] assms(2,3) by (simp add: sipBehaves_def wp_def)

lemma outstanding_exclusive:
  assumes "ports_inv p" "q \<in># outstanding p"
  shows "q \<notin> set (freePairs p)"
proof
  assume "q \<in> set (freePairs p)"
  then have "0 < count (mset (freePairs p)) q" by simp
  moreover have "count (mset (minted p)) q \<le> 1" using distinct_minted [of p] by (simp add: distinct_count_atmost_1)
  ultimately have "count (outstanding p) q = 0" unfolding outstanding_def count_diff by linarith
  with assms(2) show False by (simp add: not_in_iff [symmetric])
qed

lemma books_exclusive:
  assumes "books E r F L w" "q \<in># held w"
  shows "count (held w) q = 1 \<and> q \<notin> set (freePairs (wPorts w))"
proof -
  obtain L' where L': "acct F L' w" using assms(1) by (auto simp: books_def)
  then have "count (held w) q \<le> count (outstanding (wPorts w)) q" by (simp add: acct_def)
  also have "\<dots> \<le> 1" using outstanding_distinct [of "wPorts w"] L' by (simp add: acct_def del: count_union)
  finally have "count (held w) q = 1" using assms(2) by (metis count_greater_eq_one_iff le_antisym)
  moreover have "q \<in># outstanding (wPorts w)" using L' assms(2) by (simp add: acct_def)
  ultimately show ?thesis using L' outstanding_exclusive by (auto simp: acct_def)
qed

lemma upPost_books: "upPost E r L ok w \<Longrightarrow> books E r {#} L w"
  by (auto simp: upPost_def up_def over_def split: if_splits)

section \<open>Teardown, registry, sweep\<close>

text \<open>The index of a registry, as the handlers use it.\<close>

locale call_index =
  fixes put :: "'k \<Rightarrow> 'c \<Rightarrow> 'm \<Rightarrow> 'm"
    and del :: "'k \<Rightarrow> 'm \<Rightarrow> 'm"
    and look :: "'m \<Rightarrow> 'k \<Rightarrow> 'c option"
  assumes look_put: "look (put k c m) k' = (if k' = k then Some c else look m k')"
    and look_del: "look (del k m) k' = (if k' = k then None else look m k')"
begin

lemma put_then_del: "look (del k (put k c m)) k' = (if k' = k then None else look m k')"
  by (simp add: look_put look_del)

lemma del_stays: "k \<notin> set ks \<Longrightarrow> look (fold (\<lambda>k. put k c) ks (del k m)) k = None"
  by (induction ks rule: rev_induct) (auto simp: look_put look_del)

lemma other_key: "k' \<noteq> k \<Longrightarrow> look (del k m) k' = look m k'"
  by (simp add: look_del)

end

lemma map_of_filter_key: "map_of (filter (\<lambda>(k', _). k' \<noteq> k) m) k' = (if k' = k then None else map_of m k')"
  by (induction m) auto

interpretation registry: call_index mapPut mapDelete map_of
  by unfold_locales (auto simp: mapPut_def mapDelete_def map_of_filter_key)

lemma regGet_teardown_frame:
  "wReg (runRelease r fixed w) = wReg w" "wDialogs (runRelease r fixed w) = wDialogs w"
  "wReg (updCall r f w) = wReg w" "wDialogs (updCall r f w) = wDialogs w"
  "wReg (addTrace es w) = wReg w" "wDialogs (addTrace es w) = wDialogs w"
  by (auto simp: runRelease_def Let_def updCall_def addTrace_def split: option.split prod.split)

lemma teardown_live:
  assumes "r < length (wCalls w)" "callState (wCalls w ! r) \<noteq> stateTearingDown"
  shows "wTrace (teardown r w) = wTrace w @ byes r (wCalls w ! r)"
    and "wReg (teardown r w) = mapDelete (callId (wCalls w ! r)) (wReg w)"
    and "wDialogs (teardown r w) = (if inboundID (wCalls w ! r) = [] then wDialogs w
           else mapDelete (inboundID (wCalls w ! r)) (wDialogs w))"
proof -
  have c: "canTransition (callState (wCalls w ! r)) stateTearingDown"
    using assms(2) by (cases "callState (wCalls w ! r)") (auto simp: canTransition_def)
  show "wTrace (teardown r w) = wTrace w @ byes r (wCalls w ! r)"
    using assms(1) c by (simp add: teardown_def Let_def regRemove_def addTrace_def runRelease_frame split: option.split)
  show "wReg (teardown r w) = mapDelete (callId (wCalls w ! r)) (wReg w)"
    using assms(1) c by (simp add: teardown_def Let_def regRemove_def regGet_teardown_frame split: option.split)
  show "wDialogs (teardown r w) = (if inboundID (wCalls w ! r) = [] then wDialogs w
           else mapDelete (inboundID (wCalls w ! r)) (wDialogs w))"
    using assms(1) c by (simp add: teardown_def Let_def regRemove_def regGet_teardown_frame split: option.split)
qed

lemma teardown_dead: "callState (wCalls w ! r) = stateTearingDown \<Longrightarrow> teardown r w = w"
  by (simp add: teardown_def Let_def canTransition_def)

lemma sweep_fold:
  assumes "r < length (wCalls w)"
  shows "let w' = fold (\<lambda>(_, r) w. if idleExpired now timeout (wCalls w ! r) then teardown r w else w) rs w in
     if (\<exists>k. (k, r) \<in> set rs) \<and> idleExpired now timeout (wCalls w ! r)
     then callState (wCalls w' ! r) = stateTearingDown
     else callState (wCalls w ! r) \<noteq> stateTearingDown \<longrightarrow> wCalls w' ! r = wCalls w ! r"
  using assms
proof (induction rs arbitrary: w)
  case (Cons kr rs)
  obtain k s where kr: "kr = (k, s)" by force
  let ?f = "\<lambda>(_, r) w. if idleExpired now timeout (wCalls w ! r) then teardown r w else w"
  have dead: "callState (wCalls (fold ?f rs w) ! r) = stateTearingDown"
    if "callState (wCalls w ! r) = stateTearingDown" "r < length (wCalls w)" for w
    using that
  proof (induction rs arbitrary: w)
    case (Cons kr rs)
    obtain k s where "kr = (k, s)" by force
    with Cons show ?case
      using teardown_frame(1,2) [where r = s and w = w] teardown_self(1) [of r w] by (cases "s = r") auto
  qed simp
  show ?case
  proof (cases "idleExpired now timeout (wCalls w ! s)")
    case True
    show ?thesis
    proof (cases "s = r")
      case True
      then show ?thesis
        using \<open>idleExpired now timeout (wCalls w ! s)\<close> Cons.prems dead [of "teardown r w"] teardown_self(1) [of r w]
        by (auto simp: kr teardown_frame Let_def)
    next
      case False
      then show ?thesis
        using True Cons.IH [of "teardown s w"] Cons.prems by (simp add: kr teardown_frame Let_def)
    qed
  next
    case False
    then show ?thesis using Cons.IH [of w] Cons.prems by (cases "s = r") (simp_all add: kr Let_def)
  qed
qed simp

section \<open>The sample call\<close>

lemma sample_startable: "startable 0 sampleWorld"
  by (simp add: startable_def sampleWorld_def sampleCall_def finals_def acct_def held_def callHeld_def
      ptPairs_def hookPairs_def ptOk_def ports_inv_new)

lemma sample_behaves: "sipBehaves (sampleEnv f (Answered sampleAnswer))"
  by (simp add: sipBehaves_def rejectionsFinal_def provisionalsBelow_def sampleEnv_def sampleLib_def)

abbreviation calmEnv :: Env where
  "calmEnv \<equiv> sampleEnv (\<lambda>_. []) (Answered sampleAnswer)"

lemma sample_quiet: "quiet calmEnv 0"
  by (simp add: quiet_def sampleEnv_def)

lemma sample_calm:
  "case run_state (bridge calmEnv 0) sampleWorld of
     (ok, w') \<Rightarrow> ok \<and> callHeld (wCalls w' ! 0) \<noteq> {#} \<and> length (invites 0 w') = 2"
  by (simp add: sample_run invites_def inviteKey_def callHeld_def hookPairs_def)

lemma sample_up: "\<exists>w'. run_state (bridge calmEnv 0) sampleWorld = (True, w') \<and> callHeld (wCalls w' ! 0) \<noteq> {#}
    \<and> length (invites 0 w') = 2"
  using sample_calm by (cases "run_state (bridge calmEnv 0) sampleWorld") simp

text \<open>The sample call once established, with the given time of the last media packet.\<close>

definition sampleEstablished :: "int \<Rightarrow> World" where
  "sampleEstablished n = sampleWorld\<lparr>wCalls := [sampleCall\<lparr>callState := stateEstablished,
     media := Some (markActivity n (newMediaSession None None None))\<rparr>]\<rparr>"

section \<open>Properties\<close>

text \<open>Media ports are never shared: whatever applications, the PBX, the sockets and the other
  calls do while a call is set up, and even if it is torn down meanwhile, every port pair that
  a call or another goroutine holds afterwards is held once and is not free.\<close>

theorem setup_never_shares_ports:
  assumes "startable r w" "sipBehaves E" "run_state (bridge E r) w = (ok, w')"
  shows "ports_inv (wPorts w') \<and> (\<forall>q \<in># held w'. count (held w') q = 1 \<and> q \<notin> set (freePairs (wPorts w')))"
proof -
  have b: "books E r {#} {#} w'" by (rule upPost_books [OF bridge_post [OF assms]])
  moreover from b have "ports_inv (wPorts w')" by (auto simp: books_def acct_def)
  ultimately show ?thesis using books_exclusive [OF b] by blast
qed

theorem setup_never_shares_ports_witness:
  "\<exists>w' q. run_state (bridge calmEnv 0) sampleWorld = (True, w') \<and> q \<in># callHeld (wCalls w' ! 0)
     \<and> ports_inv (wPorts w') \<and> q \<notin> set (freePairs (wPorts w'))"
proof -
  obtain w' q where r: "run_state (bridge calmEnv 0) sampleWorld = (True, w')" and q: "q \<in># callHeld (wCalls w' ! 0)"
    using sample_up by blast
  have "0 < length (wCalls w')" using bridge_post [OF sample_startable sample_behaves r] by (simp add: upPost_def up_def)
  then have "q \<in># held w'" using q by (cases "wCalls w'") (auto simp: held_def)
  with r q setup_never_shares_ports [OF sample_startable sample_behaves r] show ?thesis by blast
qed

text \<open>C4: An undisturbed set-up leaks no port: when nobody tears the call down meanwhile, a
  failed set-up has given back every pair the call took, and a successful one holds exactly the
  pairs that its teardown then gives back.\<close>

theorem undisturbed_setup_leaks_nothing:
  assumes "startable r w" "sipBehaves E" "quiet E r" "run_state (bridge E r) w = (ok, w')"
  shows "outstanding (wPorts w') = held w'
       \<and> callHeld (wCalls (if ok then teardown r w' else w') ! r) = {#}
       \<and> outstanding (wPorts (teardown r w')) = held (teardown r w')"
proof -
  have p: "upPost E r {#} ok w'" by (rule bridge_post [OF assms(1,2,4)])
  have a: "acct {#} {#} w'" using upPost_books [OF p] assms(3) by (auto simp: books_def)
  have "callHeld (wCalls (if ok then teardown r w' else w') ! r) = {#}"
    using p assms(3) teardown_self(1,2) [of r w']
    by (auto simp: upPost_def up_def over_def callHeld_def ptPairs_def split: if_splits)
  then show ?thesis using a acct_teardown [OF a, of r] by (simp add: acct_def)
qed

theorem undisturbed_setup_leaks_nothing_witness:
  "\<exists>w'. run_state (bridge calmEnv 0) sampleWorld = (True, w') \<and> callHeld (wCalls w' ! 0) \<noteq> {#}
     \<and> outstanding (wPorts w') = held w' \<and> callHeld (wCalls (teardown 0 w') ! 0) = {#}"
  using sample_up undisturbed_setup_leaks_nothing [OF sample_startable sample_behaves sample_quiet] by fastforce

text \<open>C5: The caller gets one final response: never two; exactly one when the call comes up;
  and exactly one in any case when nobody tears the call down during the set-up.\<close>

theorem caller_gets_one_final_response:
  assumes "startable r w" "sipBehaves E" "run_state (bridge E r) w = (ok, w')"
  shows "finals r w' \<le> 1 \<and> (ok \<or> quiet E r \<longrightarrow> finals r w' = 1)
       \<and> (quiet E r \<longrightarrow> callState (wCalls w' ! r) = (if ok then stateEstablished else stateTearingDown))"
  using bridge_post [OF assms] by (auto simp: upPost_def up_def over_def split: if_splits)

theorem caller_gets_one_final_response_witness:
  "\<exists>w'. run_state (bridge calmEnv 0) sampleWorld = (True, w') \<and> finals 0 w' = 1
     \<and> callState (wCalls w' ! 0) = stateEstablished"
  using sample_up caller_gets_one_final_response [OF sample_startable sample_behaves] sample_quiet by fastforce



text \<open>A failing application with the skip policy never ends the chain: when every application
  may be skipped, its URI parses and the caller's offer names its codecs, the chain runs to its
  end whatever ports, sockets and peers do.\<close>

theorem skipped_failures_continue:
  assumes "r < length (wCalls w)" "\<forall>app \<in> set (cfgSequence (cfg E)). skippable E app"
    "extractAudioCodecs (offerSDP (wCalls w ! r)) = Inr x"
  shows "fst (run_state (runAppChain E r) w)"
proof -
  let ?i = "identity (wCalls w ! r)"
  have chain: "wp (appChain E r apps) (\<lambda>b _. b) w'"
    if "seen r xs ?i w'" "\<forall>app \<in> set apps. skippable E app" for apps xs w'
    using that
  proof (induction apps arbitrary: xs w')
    case (Cons app apps)
    have x: "extractAudioCodecs (fst (snd ?i)) = Inr x" using assms(3) by (simp add: identity_def)
    show ?case
      unfolding appChain.simps wp_bind
      by (rule wp_mono [OF wp_appStep_skips [OF Cons.prems(1) _ x]]) (use Cons in auto)
  qed (simp add: wp_return)
  have "seen r (invites r w) ?i w" using assms(1) by (simp add: seen_def)
  from chain [OF this assms(2)] show ?thesis by (simp add: runAppChain_def wp_run)
qed

theorem skipped_failures_continue_witness:
  "fst (run_state (runAppChain (sampleEnv (\<lambda>_. []) LegError) 0) sampleWorld)"
proof -
  have 0: "0 < length (wCalls sampleWorld)" by (simp add: sampleWorld_def)
  have 1: "\<forall>app \<in> set (cfgSequence (cfg (sampleEnv (\<lambda>_. []) LegError))). skippable (sampleEnv (\<lambda>_. []) LegError) app"
    by (simp add: sample_defs skippable_def)
  have "\<not> isl (extractAudioCodecs sampleCallerSDP)" by code_simp
  then obtain x where "extractAudioCodecs sampleCallerSDP = Inr x" by (cases "extractAudioCodecs sampleCallerSDP") auto
  then have 2: "extractAudioCodecs (offerSDP (wCalls sampleWorld ! 0)) = Inr x"
    by (simp add: sampleWorld_def sampleCall_def)
  show ?thesis by (rule skipped_failures_continue [OF 0 1 2])
qed



text \<open>The idle sweep tears down exactly the idle calls: a call of the registry that is
  established and whose media has been silent for longer than the timeout is torn down, and
  every other live call is left as it is.\<close>

theorem sweep_tears_down_idle_calls:
  assumes "r < length (wCalls w)" "callState (wCalls w ! r) \<noteq> stateTearingDown" "0 \<le> timeout" "iterates it"
  shows "if (\<exists>k. (k, r) \<in> set (wReg w)) \<and> callState (wCalls w ! r) = stateEstablished
            \<and> (\<exists>m. media (wCalls w ! r) = Some m \<and> lastActivity m \<noteq> 0 \<and> timeout < now - lastActivity m)
         then callState (wCalls (sweep it now timeout w) ! r) = stateTearingDown
         else wCalls (sweep it now timeout w) ! r = wCalls w ! r"
proof -
  have "idleExpired now timeout (wCalls w ! r) \<longleftrightarrow> callState (wCalls w ! r) = stateEstablished
      \<and> (\<exists>m. media (wCalls w ! r) = Some m \<and> lastActivity m \<noteq> 0 \<and> timeout < now - lastActivity m)"
    using assms(3) by (auto simp: idleExpired_def idleFor_def split: option.splits)
  with sweep_fold [OF assms(1), of now timeout "it (wReg w)"] assms(2,4) show ?thesis
    by (auto simp: sweep_def each_def iterates_def Let_def)
qed

theorem sweep_tears_down_idle_calls_witness:
  "callState (wCalls (sweep rev 900 300 (sampleEstablished 500)) ! 0) = stateTearingDown
   \<and> wCalls (sweep rev 900 300 (sampleEstablished 700)) ! 0 = wCalls (sampleEstablished 700) ! 0"
  using sweep_tears_down_idle_calls [of 0 "sampleEstablished 500" 300 rev 900]
    sweep_tears_down_idle_calls [of 0 "sampleEstablished 700" 300 rev 900]
  by (simp add: iterates_def sampleEstablished_def sampleWorld_def sampleCall_def markActivity_def newMediaSession_def)

text \<open>Headers cross the bridge unchanged, in order and completely, apart from those the
  sequencer owns on that side and the X-Sequencer- headers a peer might forge.\<close>

theorem headers_cross_verbatim:
  assumes "sipDocumented L"
  shows "relayableHeaders L hdrs owned = filter (\<lambda>h. toLower (hdrName h) \<notin> set owned
           \<and> \<not> hasPrefix (toLower (hdrName h)) sequencerHeaderPrefix) hdrs"
  using relayableHeaders_filter [OF assms] by (simp add: crosses_def [abs_def])

theorem headers_cross_verbatim_witness:
  "relayableHeaders sampleLib [\<lparr>hdrName = ''X-Foo'', hdrValue = ''1''\<rparr>, \<lparr>hdrName = ''VIA'', hdrValue = ''2''\<rparr>,
     \<lparr>hdrName = ''x-sequencer-leg'', hdrValue = ''3''\<rparr>] [''via''] = [\<lparr>hdrName = ''X-Foo'', hdrValue = ''1''\<rparr>]"
proof -
  have "sipDocumented sampleLib" by (simp add: sipDocumented_def sampleLib_def)
  from headers_cross_verbatim [OF this] show ?thesis by (simp only:) code_simp
qed

text \<open>A teardown while the media is being registered leaks: there is a run of the set-up, with
  everything else going well, in which the call is torn down at that moment; the bridge then
  returns without any final response to the caller, and the port pairs of the tap stay taken
  although no hook will release them.\<close>

theorem teardown_during_anchoring_leaks:
  "\<exists>E w. startable 0 w \<and> sipBehaves E \<and> (case run_state (bridge E 0) w of (ok, w') \<Rightarrow>
     \<not> ok \<and> finals 0 w' = 0 \<and> callState (wCalls w' ! 0) = stateTearingDown
     \<and> callHeld (wCalls w' ! 0) \<noteq> {#} \<and> teardown 0 w' = w')"
proof -
  let ?E = "sampleEnv (\<lambda>t. if t = 14 then [ITeardown 0] else []) (Answered sampleAnswer)"
  obtain ok w' where r: "run_state (bridge ?E 0) sampleWorld = (ok, w')" by force
  have "\<not> ok \<and> finals 0 w' = 0 \<and> length (pendingTaps (wCalls w' ! 0)) = 1
      \<and> callState (wCalls w' ! 0) = stateTearingDown"
    using sample_interfered by (simp add: r)
  moreover from this have "callHeld (wCalls w' ! 0) \<noteq> {#}"
    by (cases "pendingTaps (wCalls w' ! 0)") (auto simp: callHeld_def ptPairs_def)
  ultimately show ?thesis
    using sample_startable sample_behaves r teardown_dead [of w' 0] by (intro exI [of _ ?E] exI [of _ sampleWorld]) simp
qed

text \<open>A teardown between the PBX answer and the establishing of the call is not noticed: there
  is a run in which the caller is then still sent the 200, is never sent a BYE, and the tap that
  is added to the closed session keeps its port pairs.\<close>

theorem late_teardown_answers_dead_call:
  "\<exists>E w. startable 0 w \<and> sipBehaves E \<and> (case run_state (bridge E 0) w of (ok, w') \<Rightarrow>
     ok \<and> finals 0 w' = 1 \<and> EvByeInbound 0 \<notin> set (wTrace w') \<and> callState (wCalls w' ! 0) = stateTearingDown
     \<and> teardown 0 w' = w' \<and> (\<exists>m. media (wCalls w' ! 0) = Some m \<and> length (taps m) = 1))"
proof -
  let ?E = "sampleEnv (\<lambda>t. if t = 22 then [ITeardown 0] else []) (Answered sampleAnswer)"
  obtain ok w' where r: "run_state (bridge ?E 0) sampleWorld = (ok, w')" by force
  show ?thesis
    using sample_startable sample_behaves r sample_late teardown_dead [of w' 0] by (intro exI [of _ ?E] exI [of _ sampleWorld]) simp
qed

end
