(* ===== verification/Reach.thy ===== *)
theory Reach
  imports HandlerInv MidProps CallProps
begin

text \<open>
  The sequencer as a transition system: what it does with each request it receives, with the end
  of a dialog or leg, at a sweep and at shutdown. The trace of a world is what its last step sent.
  Other goroutines interfere with each step as the environment of the step says.
\<close>

section \<open>Steps and reachable worlds\<close>

definition emptyWorld :: "int \<Rightarrow> int \<Rightarrow> World" where
  "emptyWorld mn mx = \<lparr>wPorts = newPortAllocator mn mx, wHandles = \<lparr>openH = [], nextH = 0\<rparr>, wCalls = [],
     wReg = [], wDialogs = [], wOthers = [], wTrace = [], wTick = 0\<rparr>"

definition after :: "'a op \<Rightarrow> World \<Rightarrow> World" where
  "after m w = snd (run_state m (w\<lparr>wTrace := []\<rparr>))"

text \<open>A packet crosses the relay of a call. A request that is not for a call, proxied or refused, only
  shows in the trace, with an answer or as proxied.\<close>

definition packetRelayed :: "nat \<Rightarrow> int \<Rightarrow> World \<Rightarrow> World" where
  "packetRelayed r now = updCall r (\<lambda>c. c\<lparr>media := map_option (markActivity now) (media c)\<rparr>)"

fun aside :: "Event \<Rightarrow> bool" where
  "aside (EvTxRespond _ _ _ _ _) = True"
| "aside (EvProxied _) = True"
| "aside _ = False"

inductive step :: "World \<Rightarrow> World \<Rightarrow> bool" where
  invited: "sipBehaves (callEnv M) \<Longrightarrow> step w (after (handleInvite M tx req) w)"
| referred: "step w (after (handleRefer M tx req) w)"
| informed: "step w (after (handleInfo M tx req) w)"
| relayed: "step w (after (modify_st (packetRelayed r now)) w)"
| inboundEnded: "step w (after (modify_st (inboundDialogEnded r)) w)"
| legEnded: "step w (after (modify_st (teardown r)) w)"
| swept: "step w (after (modify_st (sweep it now timeout)) w)"
| shutDown: "step w (after (modify_st (Shutdown it)) w)"
| elsewhere: "list_all aside es \<Longrightarrow> step w (after (emit es) w)"

inductive reachable :: "int \<Rightarrow> int \<Rightarrow> World \<Rightarrow> bool" for mn mx where
  start: "reachable mn mx (emptyWorld mn mx)"
| next_step: "reachable mn mx w \<Longrightarrow> step w w' \<Longrightarrow> reachable mn mx w'"

section \<open>Invariants\<close>

definition balanced :: "World \<Rightarrow> bool" where
  "balanced w = (\<exists>L. acct {#} L w)"

definition allReady :: "World \<Rightarrow> bool" where
  "allReady w = (\<forall>c \<in> set (wCalls w). ready c)"

text \<open>The indexes hold live calls, under their own keys.\<close>

definition live :: "World \<Rightarrow> nat \<Rightarrow> bool" where
  "live w r = (r < length (wCalls w) \<and> callState (wCalls w ! r) \<noteq> stateTearingDown)"

definition registered :: "World \<Rightarrow> bool" where
  "registered w = ((\<forall>(k, r) \<in> set (wReg w). live w r \<and> callId (wCalls w ! r) = k)
     \<and> (\<forall>(d, r) \<in> set (wDialogs w). live w r \<and> inboundID (wCalls w ! r) = d \<and> d \<noteq> [])
     \<and> distinct (map fst (wReg w)) \<and> distinct (map fst (wDialogs w)))"

lemma distinct_index:
  "distinct (map fst m) \<Longrightarrow> distinct (map fst (mapPut k v m))" "distinct (map fst m) \<Longrightarrow> distinct (map fst (mapDelete k m))"
  by (induction m) (auto simp: mapPut_def mapDelete_def)

definition sound :: "World \<Rightarrow> bool" where
  "sound w = (balanced w \<and> allReady w \<and> registered w)"

definition sameKeys :: "(Call \<Rightarrow> Call) \<Rightarrow> bool" where
  "sameKeys f = (\<forall>c. callId (f c) = callId c \<and> inboundID (f c) = inboundID c
     \<and> (callState (f c) = stateTearingDown \<longrightarrow> callState c = stateTearingDown))"

lemma registered_simps [simp]:
  "registered (w\<lparr>wPorts := x1\<rparr>) = registered w" "registered (w\<lparr>wHandles := x2\<rparr>) = registered w"
  "registered (w\<lparr>wTick := x3\<rparr>) = registered w" "registered (w\<lparr>wOthers := x4\<rparr>) = registered w"
  "registered (w\<lparr>wTrace := x5\<rparr>) = registered w" "registered (addTrace es w) = registered w"
  by (simp_all add: registered_def live_def addTrace_def)

lemma live_updCall: "sameKeys f \<Longrightarrow> live w r' \<Longrightarrow> live (updCall r f w) r'"
  by (cases "r' = r") (auto simp: live_def sameKeys_def)

lemma keys_updCall:
  assumes "sameKeys f" "r' < length (wCalls w)"
  shows "callId (wCalls (updCall r f w) ! r') = callId (wCalls w ! r')"
    "inboundID (wCalls (updCall r f w) ! r') = inboundID (wCalls w ! r')"
  using assms by (cases "r' = r"; simp add: sameKeys_def)+

lemma registered_updCall: "registered w \<Longrightarrow> sameKeys f \<Longrightarrow> registered (updCall r f w)"
  using live_updCall [of f w] keys_updCall [of f _ w r]
  by (fastforce simp: registered_def regGet_teardown_frame live_def)

lemma keys_teardown:
  assumes "r < length (wCalls w)"
  shows "callId (wCalls (teardown r w) ! r') = callId (wCalls w ! r')"
    "inboundID (wCalls (teardown r w) ! r') = inboundID (wCalls w ! r')"
proof -
  have u: "callId (f (wCalls w ! r)) = callId (wCalls w ! r) \<Longrightarrow> callId (wCalls (updCall r f w) ! r') = callId (wCalls w ! r')"
    "inboundID (f (wCalls w ! r)) = inboundID (wCalls w ! r) \<Longrightarrow> inboundID (wCalls (updCall r f w) ! r') = inboundID (wCalls w ! r')" for f w
    by (cases "r' = r"; cases "r < length (wCalls w)"; simp add: updCall_def list_update_beyond)+
  have "callId (wCalls (runRelease r fixed w) ! r') = callId (wCalls w ! r')
      \<and> inboundID (wCalls (runRelease r fixed w) ! r') = inboundID (wCalls w ! r')" for fixed w
    by (cases "media (wCalls w ! r)") (simp_all add: runRelease_upd u)
  then show "callId (wCalls (teardown r w) ! r') = callId (wCalls w ! r')"
    "inboundID (wCalls (teardown r w) ! r') = inboundID (wCalls w ! r')"
    by (simp_all add: teardown_def Let_def regRemove_def u split: option.split)
qed

lemma registered_teardown: "registered w \<Longrightarrow> registered (teardown r w)"
proof (cases "live w r")
  case True
  assume w: "registered w"
  then have r: "r < length (wCalls w)" "callState (wCalls w ! r) \<noteq> stateTearingDown" using True by (auto simp: live_def)
  have keep: "live (teardown r w) r'" if "live w r'" "r' \<noteq> r" for r'
    using that by (simp add: live_def teardown_frame)
  have reg: "live (teardown r w) r' \<and> callId (wCalls (teardown r w) ! r') = k" if "(k, r') \<in> set (wReg (teardown r w))" for k r'
  proof -
    have "(k, r') \<in> set (wReg w)" "k \<noteq> callId (wCalls w ! r)"
      using that by (auto simp: teardown_live(2) [OF r] mapDelete_def)
    with w keep [of r'] show ?thesis by (auto simp: registered_def keys_teardown [OF r(1)])
  qed
  have dia: "live (teardown r w) r' \<and> inboundID (wCalls (teardown r w) ! r') = d \<and> d \<noteq> []"
    if "(d, r') \<in> set (wDialogs (teardown r w))" for d r'
  proof -
    have d: "(d, r') \<in> set (wDialogs w)" "d \<noteq> inboundID (wCalls w ! r) \<or> inboundID (wCalls w ! r) = []"
      using that by (auto simp: teardown_live(3) [OF r] mapDelete_def split: if_splits)
    with w have "live w r'" "inboundID (wCalls w ! r') = d" "d \<noteq> []" by (auto simp: registered_def)
    with d(2) keep [of r'] show ?thesis by (cases "r' = r") (auto simp: keys_teardown [OF r(1)])
  qed
  have "distinct (map fst (wReg (teardown r w)))" "distinct (map fst (wDialogs (teardown r w)))"
    using w by (simp_all add: teardown_live(2,3) [OF r] registered_def distinct_index)
  with reg dia show ?thesis unfolding registered_def by blast
next
  case False
  then have "teardown r w = w" by (auto simp: teardown_def Let_def live_def canTransition_def)
  then show "registered w \<Longrightarrow> ?thesis" by simp
qed

lemma sameKeys_updates:
  "sameKeys (\<lambda>c. c\<lparr>pendingTaps := f c\<rparr>)" "sameKeys (\<lambda>c. c\<lparr>appLegs := g c\<rparr>)" "sameKeys (register m fixed)"
  "sameKeys (\<lambda>c. c\<lparr>media := h c, releaseMedia := i c\<rparr>)" "sameKeys (\<lambda>c. c\<lparr>pbxLeg := j c\<rparr>)"
  "sameKeys (setPBXRemote host port)" "sameKeys establish" "sameKeys (reanchorEndpoint host port)"
  "sameKeys (\<lambda>c. c\<lparr>inboundDetached := True\<rparr>)"
  "sameKeys (\<lambda>c. (reanchorEndpoint host port c)\<lparr>transferTarget := Some s\<rparr>)"
  "sameKeys (setPBXAnswer a \<circ> reanchorPBX host port \<circ> reanchorEndpoint host' port')"
  by (simp_all add: sameKeys_def register_def setPBXRemote_def establish_def Let_def reanchorEndpoint_def
       setPBXAnswer_def reanchorPBX_def split: prod.split)

interpretation keyed: setup_inv registered sameKeys
  by unfold_locales (auto simp: registered_updCall registered_teardown sameKeys_updates)

interpretation keyed_call: handler_inv registered sameKeys
  by unfold_locales (auto simp: registered_updCall keyed.inv_interf sameKeys_updates)

definition sameHeld :: "(Call \<Rightarrow> Call) \<Rightarrow> bool" where
  "sameHeld f = (\<forall>c. callHeld (f c) = callHeld c \<and> (ptOk c \<longrightarrow> ptOk (f c)))"

interpretation books_call: handler_inv balanced sameHeld
proof unfold_locales
  fix w j assume "balanced w"
  then show "balanced (applyInterf j w)" by (auto simp: balanced_def intro: acct_interf)
next
  fix w f r assume w: "balanced w" and f: "sameHeld f"
  then obtain L where L: "acct {#} L w" by (auto simp: balanced_def)
  show "balanced (updCall r f w)"
  proof (cases "r < length (wCalls w)")
    case True
    with acct_same [OF L True] f show ?thesis by (auto simp: balanced_def sameHeld_def)
  next
    case False
    with w show ?thesis by (simp add: updCall_def list_update_beyond)
  qed
next
  show "sameHeld (setPBXAnswer a \<circ> reanchorPBX h p \<circ> reanchorEndpoint h' p')" for a h p h' p'
    by (simp add: sameHeld_def held_moved)
qed (auto simp: balanced_def sameHeld_def held_moved held_fields)

definition sameReady :: "(Call \<Rightarrow> Call) \<Rightarrow> bool" where
  "sameReady f = (\<forall>c. ready c \<longrightarrow> ready (f c))"

lemma allReady_updCall: "allReady w \<Longrightarrow> sameReady f \<Longrightarrow> allReady (updCall r f w)"
  by (cases "r < length (wCalls w)")
     (auto simp: allReady_def updCall_def sameReady_def list_update_beyond dest!: set_update_subset_insert [THEN subsetD])

lemma allReady_simps [simp]:
  "allReady (w\<lparr>wTick := x1\<rparr>) = allReady w" "allReady (w\<lparr>wTrace := x2\<rparr>) = allReady w"
  "allReady (addTrace es w) = allReady w"
  by (simp_all add: allReady_def addTrace_def)

lemma allReady_teardown: "allReady w \<Longrightarrow> allReady (teardown r w)"
proof -
  assume w: "allReady w"
  have "ready (wCalls (teardown r w) ! r')" if "r' < length (wCalls w)" for r'
    using w that by (intro ready_shape [OF _ shape_teardown callState_teardown]) (auto simp: allReady_def)
  then show ?thesis by (auto simp: allReady_def in_set_conv_nth teardown_frame)
qed

lemma sameReady_updates:
  "sameReady (\<lambda>c. c\<lparr>inboundDetached := True\<rparr>)"
  "sameReady (\<lambda>c. (reanchorEndpoint host port c)\<lparr>transferTarget := Some s\<rparr>)"
  "sameReady (setPBXAnswer a \<circ> reanchorPBX host port \<circ> reanchorEndpoint host' port')"
  unfolding sameReady_def using ready_moved ready_retargeted by (auto simp: detached)

interpretation ready_call: handler_inv allReady sameReady
proof unfold_locales
  fix w j assume w: "allReady w"
  show "allReady (applyInterf j w)"
  proof (cases "\<exists>r. j = ITeardown r")
    case True
    with w show ?thesis by (auto simp: allReady_teardown)
  next
    case False
    then have "wCalls (applyInterf j w) = wCalls w" by (cases j) (auto split: prod.split option.split)
    with w show ?thesis by (simp add: allReady_def)
  qed
qed (auto simp: allReady_updCall sameReady_updates)

section \<open>Every step keeps the world sound\<close>

lemma keeps_sound: "keeps balanced m \<Longrightarrow> keeps allReady m \<Longrightarrow> keeps registered m \<Longrightarrow> keeps sound m"
  by (auto simp: keeps_def sound_def)

lemma sound_teardown: "sound w \<Longrightarrow> sound (teardown r w)"
  by (auto simp: sound_def balanced_def allReady_teardown registered_teardown intro: acct_teardown)

lemma sound_fold: "(\<And>x w. sound w \<Longrightarrow> sound (f x w)) \<Longrightarrow> sound w \<Longrightarrow> sound (fold f xs w)"
  by (induction xs arbitrary: w) auto

lemma sound_sweep: "sound w \<Longrightarrow> sound (sweep it now timeout w)"
  unfolding sweep_def each_def by (rule sound_fold) (auto simp: sound_teardown)

lemma sound_Shutdown: "sound w \<Longrightarrow> sound (Shutdown it w)"
  unfolding Shutdown_def each_def by (rule sound_fold) (auto simp: sound_teardown)

lemmas sound_handlers =
  keeps_sound [OF books_call.keep_handleReInvite ready_call.keep_handleReInvite keyed_call.keep_handleReInvite]
  keeps_sound [OF books_call.keep_handleRefer ready_call.keep_handleRefer keyed_call.keep_handleRefer]
  keeps_sound [OF books_call.keep_handleInfo ready_call.keep_handleInfo keyed_call.keep_handleInfo]
  keeps_sound [OF books_call.keep_sync ready_call.keep_sync keyed_call.keep_sync]
  keeps_sound [OF books_call.keep_txRespond ready_call.keep_txRespond keyed_call.keep_txRespond]
  keeps_sound [OF books_call.keep_any ready_call.keep_any keyed_call.keep_any]

text \<open>A new call is in set-up, holds nothing, and is indexed under its own keys.\<close>

lemma sound_addCall:
  assumes "sound w" "callState c = stateSetup" "releaseMedia c = None" "pendingTaps c = []"
  shows "sound (addCall c w)"
proof -
  let ?r = "length (wCalls w)"
  have "callHeld c = {#}" "ptOk c" using assms by (auto simp: callHeld_def hookPairs_def ptPairs_def ptOk_def)
  then have b: "balanced (addCall c w)"
    using assms(1) by (auto simp: sound_def balanced_def acct_def held_def addCall_def addDialog_def regAdd_def Let_def)
  have calls: "wCalls (addCall c w) = wCalls w @ [c]" by (simp add: addCall_def addDialog_def regAdd_def Let_def)
  then have a: "allReady (addCall c w)" using assms(1,2) by (auto simp: sound_def allReady_def ready_def)
  have l: "live w r \<Longrightarrow> live (addCall c w) r" "live (addCall c w) ?r" for r
    using assms(2) by (auto simp: live_def calls nth_append)
  have k: "live w r \<Longrightarrow> wCalls (addCall c w) ! r = wCalls w ! r" "wCalls (addCall c w) ! ?r = c" for r
    by (auto simp: live_def calls nth_append)
  have w: "registered w" using assms(1) by (simp add: sound_def)
  have "live (addCall c w) r \<and> callId (wCalls (addCall c w) ! r) = cid" if "(cid, r) \<in> set (wReg (addCall c w))" for cid r
  proof -
    have "(cid, r) = (callId c, ?r) \<or> (cid, r) \<in> set (wReg w)"
      using that by (auto simp: addCall_def addDialog_def regAdd_def Let_def mapPut_def split: if_splits)
    then show ?thesis using w l k by (auto simp: registered_def)
  qed
  moreover have "live (addCall c w) r \<and> inboundID (wCalls (addCall c w) ! r) = d \<and> d \<noteq> []"
    if "(d, r) \<in> set (wDialogs (addCall c w))" for d r
  proof -
    have "(d, r) = (inboundID c, ?r) \<and> d \<noteq> [] \<or> (d, r) \<in> set (wDialogs w)"
      using that by (auto simp: addCall_def addDialog_def regAdd_def Let_def mapPut_def split: if_splits)
    then show ?thesis using w l k by (auto simp: registered_def)
  qed
  moreover have "distinct (map fst (wReg (addCall c w)))" "distinct (map fst (wDialogs (addCall c w)))"
    using w by (simp_all add: addCall_def addDialog_def regAdd_def Let_def registered_def distinct_index)
  ultimately have "registered (addCall c w)" unfolding registered_def by blast
  with a b show ?thesis by (simp add: sound_def)
qed

lemma finals_none: "wTrace w = [] \<Longrightarrow> finals r w = 0"
  by (simp add: finals_def)

lemma wp_bridge_sound:
  assumes "sound w" "r < length (wCalls w)" "callState (wCalls w ! r) = stateSetup" "releaseMedia (wCalls w ! r) = None"
    "finals r w = 0" "sipBehaves E"
  shows "wp (bridge E r) (\<lambda>_. sound) w"
proof -
  obtain L where "acct {#} L w" using assms(1) by (auto simp: sound_def balanced_def)
  with assms have "prep E r fresh False {#} L w" by (auto simp: prep_def books_def)
  then have "wp (bridge E r) (upPost E r L) w" using assms(6) by (intro wp_bridge) (auto simp: sipBehaves_def)
  then have "wp (bridge E r) (\<lambda>_. balanced) w"
    by (rule wp_mono) (auto dest!: upPost_books simp: books_def balanced_def)
  moreover have "staged 0 r w" using assms by (auto simp: staged_def stage_def sound_def allReady_def)
  from wp_mono [OF wp_bridge_staged [OF this]] have "wp (bridge E r) (\<lambda>_. allReady) w" by (simp add: staged_def allReady_def)
  moreover have "wp (bridge E r) (\<lambda>_. registered) w" using keepsD [OF keyed.any.keeps_bridge] assms(1) by (simp add: sound_def)
  ultimately show ?thesis by (simp add: wp_def sound_def split: prod.splits)
qed

definition silent :: "World \<Rightarrow> bool" where
  "silent w = (sound w \<and> (\<forall>r. finals r w = 0))"

lemma silent_sync: "keeps silent (sync E)"
proof -
  have "silent (applyInterf j w)" if "silent w" for j w
    using that interf_frame(2) [of _ j w] books_call.interf [of w j] ready_call.interf [of w j] keyed.inv_interf [of w j]
    by (simp add: silent_def sound_def)
  then have "silent w \<Longrightarrow> silent (fold applyInterf js w)" for js w
    by (induction js arbitrary: w) auto
  moreover have "silent (w\<lparr>wTick := t\<rparr>) = silent w" for w t
    by (simp add: silent_def sound_def balanced_def finals_def)
  ultimately show ?thesis unfolding sync_def by (intro keeps_bind keeps_gets_st keeps_modify_st keeps_return) simp
qed

lemma wp_handleInvite_sound:
  assumes "silent w" "sipBehaves (callEnv M)"
  shows "wp (handleInvite M tx req) (\<lambda>_. sound) w"
  unfolding handleInvite_def wp_bind
proof (rule wp_mono [OF keepsD [OF silent_sync assms(1)]], goal_cases)
  case (1 t w)
  then have s: "sound w" by (simp add: silent_def)
  have proxied: "wp (proxied M tx) (\<lambda>_. sound) w"
    using keepsD [OF sound_handlers(6) s] by (simp add: proxied_def wp_simps)
  have refused: "wp (txRespond M tx status reason body hdrs) (\<lambda>_. sound) w" for status reason body hdrs
    by (rule keepsD [OF sound_handlers(5) s])
  have again: "wp (handleReInvite M r tx req) (\<lambda>_. sound) w" for r
    by (rule keepsD [OF sound_handlers(1) s])
  have new: "wp (bridge (callEnv M) (length (wCalls w))) (\<lambda>_. sound)
      (addCall (newCall M t did req) (addTrace [EvRespond (length (wCalls w)) 100 ''Trying'' [] [] True] w))" for did
  proof (rule wp_bridge_sound [OF _ _ _ _ _ assms(2)])
    let ?w = "addTrace [EvRespond (length (wCalls w)) 100 ''Trying'' [] [] True] w"
    have "sound ?w" using keepsD [OF sound_handlers(6) s] by (simp add: wp_simps)
    then show "sound (addCall (newCall M t did req) ?w)" by (rule sound_addCall) (simp_all add: newCall_def)
    have "wCalls (addCall (newCall M t did req) ?w) = wCalls w @ [newCall M t did req]"
      by (simp add: addCall_def addDialog_def regAdd_def Let_def)
    then show "length (wCalls w) < length (wCalls (addCall (newCall M t did req) ?w))"
      "callState (wCalls (addCall (newCall M t did req) ?w) ! length (wCalls w)) = stateSetup"
      "releaseMedia (wCalls (addCall (newCall M t did req) ?w) ! length (wCalls w)) = None"
      by (simp_all add: newCall_def)
    have "wTrace (addCall (newCall M t did req) ?w) = wTrace ?w"
      by (simp add: addCall_def addDialog_def regAdd_def Let_def)
    then have "finals r (addCall (newCall M t did req) ?w) = finals r ?w" for r by (simp add: finals_def)
    then show "finals (length (wCalls w)) (addCall (newCall M t did req) ?w) = 0"
      using 1 by (simp add: silent_def finals_addTrace finalOf_def isFinal_def)
  qed
  show ?case
    using proxied refused again new by (simp add: wp_simps split: option.split)
qed

lemma sound_packetRelayed: "sound w \<Longrightarrow> sound (packetRelayed r now w)"
proof -
  let ?f = "\<lambda>c. c\<lparr>media := map_option (markActivity now) (media c)\<rparr>"
  have "callHeld (?f c) = callHeld c \<and> ptOk (?f c) = ptOk c \<and> (ready c \<longrightarrow> ready (?f c))" for c
    by (cases "media c")
       (auto simp: callHeld_def hookPairs_def mediaTapPairs_def tapPairs_def ptOk_def ready_def complete_def markActivity_def
          split: option.split)
  then have "sameHeld ?f" "sameReady ?f" "sameKeys ?f" by (auto simp: sameHeld_def sameReady_def sameKeys_def)
  then show "sound w \<Longrightarrow> sound (packetRelayed r now w)"
    unfolding packetRelayed_def sound_def by (auto intro: books_call.upd ready_call.upd keyed.inv_updCall)
qed

lemma step_sound:
  assumes "sound w" "step w w'"
  shows "sound w'"
proof -
  have s: "sound (w\<lparr>wTrace := []\<rparr>)" using assms(1) by (simp add: sound_def balanced_def)
  from assms(2) show ?thesis
  proof (cases rule: step.cases)
    case (invited M tx req)
    have "silent (w\<lparr>wTrace := []\<rparr>)" using s by (simp add: silent_def finals_none)
    from wp_handleInvite_sound [OF this invited(2)] show ?thesis using invited(1) by (simp add: after_def wp_run)
  next
    case (referred M tx req)
    with keepsD [OF sound_handlers(2) s] show ?thesis by (simp add: after_def wp_run)
  next
    case (informed M tx req)
    with keepsD [OF sound_handlers(3) s] show ?thesis by (simp add: after_def wp_run)
  next
    case (inboundEnded r)
    with s sound_teardown [OF s] show ?thesis by (simp add: after_def inboundDialogEnded_def)
  next
    case (elsewhere es)
    with s show ?thesis by (simp add: after_def emit_def addTrace_def sound_def balanced_def)
  qed (use s sound_packetRelayed [OF s] sound_teardown [OF s] sound_sweep [OF s] sound_Shutdown [OF s] in \<open>simp_all add: after_def\<close>)
qed

lemma reachable_sound: "reachable mn mx w \<Longrightarrow> sound w"
proof (induction rule: reachable.induct)
  case start
  show ?case
    by (simp add: sound_def balanced_def allReady_def registered_def emptyWorld_def acct_def held_def ports_inv_new)
qed (rule step_sound)

section \<open>The reaper over time\<close>

text \<open>The reaper's goroutine: a sweep at each tick after \<open>start\<close>.\<close>

definition reaperRun :: "(nat \<Rightarrow> iteration) \<Rightarrow> int \<Rightarrow> int \<Rightarrow> nat \<Rightarrow> World \<Rightarrow> World" where
  "reaperRun its timeout start n w =
     fold (\<lambda>k. sweep (its k) (start + int k * reaperInterval timeout) timeout) [1..<Suc n] w"

text \<open>A call that stays registered and is idle at a tick is torn down there; one that is not idle at
  any tick is left alone.\<close>

lemma sweep_step:
  assumes "registered w" "(k, r) \<in> set (wReg w)" "iterates it"
  shows "if idleExpired now timeout (wCalls w ! r) then callState (wCalls (sweep it now timeout w) ! r) = stateTearingDown
     else wCalls (sweep it now timeout w) ! r = wCalls w ! r \<and> (k, r) \<in> set (wReg (sweep it now timeout w))"
proof -
  have l: "r < length (wCalls w)" "callState (wCalls w ! r) \<noteq> stateTearingDown" "callId (wCalls w ! r) = k"
    using assms by (auto simp: registered_def live_def)
  have reg: "(k, r) \<in> set (wReg (fold (\<lambda>(_, r) w. if idleExpired now timeout (wCalls w ! r) then teardown r w else w) xs v))"
    if "registered v" "(k, r) \<in> set (wReg v)" "\<not> idleExpired now timeout (wCalls v ! r)" "set xs \<subseteq> set (wReg w)"
      "\<And>s. callId (wCalls v ! s) = callId (wCalls w ! s)" for xs v
    using that
  proof (induction xs arbitrary: v)
    case (Cons x xs)
    obtain k' s where x: "x = (k', s)" by force
    show ?case
    proof (cases "idleExpired now timeout (wCalls v ! s)")
      case True
      then have "s \<noteq> r" using Cons.prems(3) by auto
      have ks: "(k', s) \<in> set (wReg w)" using Cons.prems(4) x by simp
      then have "callId (wCalls w ! s) = k'" "distinct (map fst (wReg w))" using assms(1) by (auto simp: registered_def)
      then have k: "callId (wCalls v ! s) \<noteq> k" using ks assms(2) \<open>s \<noteq> r\<close> Cons.prems(5) eq_key_imp_eq_value by metis
      have "(k, r) \<in> set (wReg (teardown s v))"
      proof (cases "s < length (wCalls v) \<and> callState (wCalls v ! s) \<noteq> stateTearingDown")
        case True
        then show ?thesis using Cons.prems(2) k by (simp add: teardown_live(2) mapDelete_def)
      next
        case False
        then have "teardown s v = v" by (auto simp: teardown_def Let_def canTransition_def)
        then show ?thesis using Cons.prems(2) by simp
      qed
      moreover have "callId (wCalls (teardown s v) ! s') = callId (wCalls w ! s')" for s'
      proof (cases "s < length (wCalls v)")
        case True
        then show ?thesis using Cons.prems(5) by (simp add: keys_teardown)
      next
        case False
        then show ?thesis using Cons.prems(5) by (simp add: teardown_def Let_def)
      qed
      moreover have "\<not> idleExpired now timeout (wCalls (teardown s v) ! r)" using Cons.prems(3) \<open>s \<noteq> r\<close> by (simp add: teardown_frame)
      ultimately show ?thesis
        using Cons.IH [OF registered_teardown [OF Cons.prems(1)], of s] Cons.prems(4) True by (simp add: x)
    next
      case False
      then show ?thesis using Cons by (simp add: x)
    qed
  qed simp
  have ex: "\<exists>k. (k, r) \<in> set (wReg w)" using assms(2) by blast
  show ?thesis
    using sweep_fold [OF l(1), of now timeout "it (wReg w)"] l(2) ex reg [OF assms(1,2), of "it (wReg w)"] assms(3)
    by (auto simp: sweep_def each_def iterates_def Let_def)
qed

lemma registered_sweep: "registered w \<Longrightarrow> registered (sweep it now timeout w)"
  unfolding sweep_def each_def
proof -
  have "registered v \<Longrightarrow> registered (fold (\<lambda>(_, r) w. if idleExpired now timeout (wCalls w ! r) then teardown r w else w) xs v)" for xs v
    by (induction xs arbitrary: v) (auto simp: registered_teardown)
  then show "registered w \<Longrightarrow> registered (fold (\<lambda>(_, r) w. if idleExpired now timeout (wCalls w ! r) then teardown r w else w) (it (wReg w)) w)" .
qed

lemma sweep_dead:
  assumes "r < length (wCalls w)" "callState (wCalls w ! r) = stateTearingDown"
  shows "callState (wCalls (sweep it now timeout w) ! r) = stateTearingDown \<and> length (wCalls (sweep it now timeout w)) = length (wCalls w)"
proof -
  have "r < length (wCalls v) \<and> callState (wCalls v ! r) = stateTearingDown \<Longrightarrow>
    (let v' = fold (\<lambda>(_, r) w. if idleExpired now timeout (wCalls w ! r) then teardown r w else w) xs v in
       length (wCalls v') = length (wCalls v) \<and> callState (wCalls v' ! r) = stateTearingDown)" for xs v
  proof (induction xs arbitrary: v)
    case (Cons x xs)
    obtain k s where x: "x = (k, s)" by force
    have "callState (wCalls (teardown s v) ! r) = stateTearingDown"
      using Cons.prems teardown_self(1) [of r v] by (cases "s = r") (simp_all add: teardown_frame)
    with Cons show ?case by (simp add: x teardown_frame Let_def)
  qed simp
  from this [of w "it (wReg w)"] assms show ?thesis by (simp add: sweep_def each_def Let_def)
qed

lemma reaperRun_Suc: "reaperRun its timeout start (Suc n) w
    = sweep (its (Suc n)) (start + int (Suc n) * reaperInterval timeout) timeout (reaperRun its timeout start n w)"
  by (simp add: reaperRun_def)

lemma reaper_spares:
  assumes "registered w" "(k, r) \<in> set (wReg w)" "\<And>i. iterates (its i)"
    "\<And>i. 1 \<le> i \<Longrightarrow> i \<le> n \<Longrightarrow> \<not> idleExpired (start + int i * reaperInterval timeout) timeout (wCalls w ! r)"
  shows "wCalls (reaperRun its timeout start n w) ! r = wCalls w ! r \<and> (k, r) \<in> set (wReg (reaperRun its timeout start n w))
     \<and> registered (reaperRun its timeout start n w)"
  using assms(4)
proof (induction n)
  case 0
  then show ?case using assms(1,2) by (simp add: reaperRun_def)
next
  case (Suc n)
  then have ih: "wCalls (reaperRun its timeout start n w) ! r = wCalls w ! r" "(k, r) \<in> set (wReg (reaperRun its timeout start n w))"
    "registered (reaperRun its timeout start n w)" by auto
  from sweep_step [OF ih(3,2) assms(3), of "start + int (Suc n) * reaperInterval timeout" timeout] Suc.prems [of "Suc n"]
    registered_sweep [OF ih(3)] ih(1) show ?case
    by (simp add: reaperRun_Suc)
qed

end
