(* ===== verification/ProxyProps.thy ===== *)
theory ProxyProps
  imports Proxy
begin

text \<open>
  Properties of the proxied requests: what is sent where, how responses travel back, and how a
  registration's token later routes a request.
\<close>

section \<open>Header operations as documented\<close>

lemma removeFirst_filter [simp]: "\<not> p h \<Longrightarrow> removeFirst p (xs @ [h]) = removeFirst p xs @ [h]"
  by (induction xs) auto

lemma filter_removeFirst_same: "filter p (removeFirst p hs) = tl (filter p hs)"
  by (induction hs) auto

lemma filter_removeFirst_other: "(\<And>x. q x \<Longrightarrow> \<not> p x) \<Longrightarrow> filter q (removeFirst p hs) = filter q hs"
  by (induction hs) auto

lemma length_removeFirst: "\<exists>h \<in> set hs. p h \<Longrightarrow> length (removeFirst p hs) < length hs"
  by (induction hs) auto

lemma filter_not_removeFirst: "filter (\<lambda>h. \<not> p h) (removeFirst p hs) = filter (\<lambda>h. \<not> p h) hs"
  by (rule filter_removeFirst_other) simp

lemma removeFirst_absent: "\<forall>h \<in> set hs. \<not> p h \<Longrightarrow> removeFirst p hs = hs"
  by (induction hs) auto

lemma docD:
  assumes "msgDocumented M"
  shows "CloneRequest M q = q" "GetHeaders M hs n = filter (named n) hs" "AppendHeader M hs h = hs @ [h]"
    "PrependHeader M hs h = h # hs" "snd (RemoveHeader M hs n) = removeFirst (named n) hs"
    "fst (RemoveHeader M hs n) \<longleftrightarrow> (\<exists>h \<in> set hs. named n h)"
  using assms by (auto simp: msgDocumented_def removeFirst_absent)

lemma foldl_append_docs: "msgDocumented M \<Longrightarrow> foldl (AppendHeader M) hs vs = hs @ vs"
  by (induction vs arbitrary: hs) (auto simp: docD)

lemma removeAll_named_eq:
  assumes "msgDocumented M"
  shows "removeAll_named M n hs = Some (filter (\<lambda>h. \<not> named n h) hs)"
proof (induction hs rule: length_induct)
  case (1 hs)
  show ?case
  proof (cases "\<exists>h \<in> set hs. named n h")
    case True
    then have "removeAll_named M n (removeFirst (named n) hs) = Some (filter (\<lambda>h. \<not> named n h) hs)"
      using 1 length_removeFirst [OF True] by (simp add: filter_not_removeFirst)
    then show ?thesis using True by (subst removeAll_named.simps) (simp add: docD [OF assms])
  next
    case False
    then show ?thesis
      by (subst removeAll_named.simps) (auto simp: docD [OF assms] removeFirst_absent intro!: filter_True [symmetric])
  qed
qed

lemma MaxForwards_append:
  assumes "msgDocumented M" "filter (named ''Max-Forwards'') hs = []"
  shows "MaxForwards M (hs @ [MaxForwardsHeader M v] @ hs') = Some v"
proof -
  have n: "named ''Max-Forwards'' (MaxForwardsHeader M v)" using assms(1) by (simp add: msgDocumented_def equalFold_def)
  have "MaxForwards M (hs @ [MaxForwardsHeader M v] @ hs') =
      MaxForwards M (take 1 (filter (named ''Max-Forwards'') (hs @ [MaxForwardsHeader M v] @ hs')))"
    using assms(1) by (simp only: msgDocumented_def)
  also have "\<dots> = MaxForwards M [MaxForwardsHeader M v]" using assms(2) n by simp
  finally show ?thesis using assms(1) by (simp add: msgDocumented_def)
qed

lemma filter_tl_id: "filter p (tl (filter p xs)) = tl (filter p xs)"
  by (induction xs) auto

section \<open>What is sent\<close>

text \<open>The requests a handler sent and the final responses the originator got.\<close>

definition sentOf :: "ProxyOut list \<Rightarrow> Request list" where
  "sentOf outs = concat (map (\<lambda>x. case x of Sent q \<Rightarrow> [q] | _ \<Rightarrow> []) outs)"

definition finalStatus :: "ProxyOut \<Rightarrow> bool" where
  "finalStatus x = (case x of Sent _ \<Rightarrow> False | Replied s _ \<Rightarrow> s \<ge> 200 | Relayed res \<Rightarrow> resStatus res \<ge> 200)"

lemma sentOf_simps [simp]:
  "sentOf [] = []" "sentOf (Sent q # xs) = q # sentOf xs" "sentOf (Replied s t # xs) = sentOf xs"
  "sentOf (Relayed res # xs) = sentOf xs"
  by (simp_all add: sentOf_def)

lemma relayLoop_sends_nothing: "sentOf (fst (relayLoop M f evs)) = []"
  by (induction M f evs rule: relayLoop.induct) (auto simp: Let_def split: option.split prod.splits)

lemma forwardAndRelay_sends:
  "sentOf (fst (forwardAndRelay P req d t f1 f2 prep sendOk evs)) =
     (if MaxForwards (pMsg P) (reqHeaders req) \<noteq> Some 0 \<and> sendOk
      then (case buildForward P req d t prep of None \<Rightarrow> [] | Some q \<Rightarrow> [q]) else [])"
  using relayLoop_sends_nothing [of "pMsg P" f2 evs]
  by (auto simp: forwardAndRelay_def split: option.split prod.splits)

lemma in_if_case: "q \<in> set (if C then (case x of None \<Rightarrow> [] | Some q \<Rightarrow> [q]) else []) \<Longrightarrow> x = Some q"
  by (cases C; cases x) auto

lemma forwardAndRelay_sent:
  assumes "q \<in> set (sentOf (fst (forwardAndRelay P req d t f1 f2 prep sendOk evs)))"
  shows "buildForward P req d t prep = Some q"
  using assms unfolding forwardAndRelay_sends by (rule in_if_case)

lemma forwardStateless_sends:
  "sentOf (fst (forwardStateless P req d t prep sendOk)) =
     (if sendOk then (case buildForward P req d t prep of None \<Rightarrow> [] | Some q \<Rightarrow> [q]) else [])"
  by (auto simp: forwardStateless_def split: option.split)

lemma buildForward_target:
  "buildForward P req d t prep = Some q \<Longrightarrow> reqDestination q = d \<and> (t \<noteq> [] \<longrightarrow> reqTransport q = toUpper t)"
  by (auto simp: buildForward_def Let_def split: option.splits if_splits)


lemma parse_transport:
  "parseFlowToken t = Inr flow \<Longrightarrow> flowTransport flow \<in> set codeToTransport"
  by (auto simp: parseFlowToken_def Let_def split: option.splits if_splits)

lemma codes_lower: "tr \<in> set codeToTransport \<Longrightarrow> toLower tr = tr \<and> tr \<noteq> []"
  by (auto simp: codeToTransport_def ascii_lower lowerChar_def)

text \<open>A request that goes along a flow, and the flow.\<close>

definition flowOf :: "ProxyEnv \<Rightarrow> Request \<Rightarrow> (RouteAddr \<times> Flow) option" where
  "flowOf P req = (case GetHeader (pSip P) (reqHeaders req) ''Route'' of
       None \<Rightarrow> None
     | Some rt \<Rightarrow> (case RouteAddress (pMsg P) rt of
         None \<Rightarrow> None
       | Some ra \<Rightarrow> if raHost ra = pathHost P \<and> raPort ra = pathPort P
                   then (case parseFlowToken (raUser ra) of Inl _ \<Rightarrow> None | Inr flow \<Rightarrow> Some (ra, flow)) else None))"

definition flowTarget :: "ProxyEnv \<Rightarrow> Request \<Rightarrow> Flow \<Rightarrow> string \<times> string" where
  "flowTarget P req flow = (if reqSource req = flowAddr flow then (HostPort (pMsg P) (reqRecipient req), [])
     else (flowAddr flow, flowTransport flow))"

definition flowHooks :: "ProxyEnv \<Rightarrow> Request \<Rightarrow> RouteAddr \<Rightarrow> Flow \<Rightarrow> hook list" where
  "flowHooks P req ra flow = [popRoute (pMsg P)]
     @ (if reqSource req \<noteq> flowAddr flow \<and> reqMethod req = ''INVITE''
        then [\<lambda>hs. Some (PrependHeader (pMsg P) hs (RecordRouteHeader (pMsg P) ra))] else [])"

lemma routeToFlow_cases:
  "routeToFlow P req sendOk evs = (case flowOf P req of
       None \<Rightarrow> None
     | Some (ra, flow) \<Rightarrow> Some (if reqMethod req = ''ACK''
         then forwardStateless P req (fst (flowTarget P req flow)) (snd (flowTarget P req flow)) (flowHooks P req ra flow) sendOk
         else forwardAndRelay P req (fst (flowTarget P req flow)) (snd (flowTarget P req flow)) (480, ''Temporarily Unavailable'')
                (480, ''Temporarily Unavailable'') (flowHooks P req ra flow) sendOk evs))"
  using parse_transport codes_lower
  by (auto simp: routeToFlow_def flowOf_def flowTarget_def flowHooks_def Let_def split: option.split sum.split)

lemma routeToFlow_sends:
  assumes "routeToFlow P req sendOk evs = Some (outs, e)" "q \<in> set (sentOf outs)"
  obtains ra flow where "flowOf P req = Some (ra, flow)" "sentOf outs = [q]"
    "buildForward P req (fst (flowTarget P req flow)) (snd (flowTarget P req flow)) (flowHooks P req ra flow) = Some q"
proof -
  obtain ra flow where f: "flowOf P req = Some (ra, flow)"
    using assms(1) by (auto simp: routeToFlow_cases split: option.splits prod.splits)
  have "sentOf outs = [] \<or> (\<exists>q'. sentOf outs = [q']
      \<and> buildForward P req (fst (flowTarget P req flow)) (snd (flowTarget P req flow)) (flowHooks P req ra flow) = Some q')"
    using assms(1) f by (auto simp: routeToFlow_cases forwardAndRelay_sends forwardStateless_sends
        dest!: arg_cong [where f = "\<lambda>r. sentOf (fst r)"] split: if_splits option.splits) metis+
  with assms(2) f that show ?thesis by auto
qed

lemma buildForward_headers:
  assumes "msgDocumented (pMsg P)" "buildForward P req d t prep = Some q"
  shows "runHooks prep (removeFirst (named ''Max-Forwards'') (reqHeaders req) @ [MaxForwardsHeader (pMsg P)
           (case MaxForwards (pMsg P) (reqHeaders req) of None \<Rightarrow> 70 | Some v \<Rightarrow> v - 1)]) = Some (reqHeaders q)"
    and "reqMethod q = reqMethod req" "reqBody q = reqBody req"
    and "reqRecipient q = (if t \<noteq> [] then AddTransport (pSip P) (reqRecipient req) t else reqRecipient req)"
  using assms(2) by (auto simp: buildForward_def Let_def docD [OF assms(1)] split: option.splits)

lemma one_forwards_left:
  assumes "length (filter (named ''Max-Forwards'') hs) \<le> 1"
  shows "filter (named ''Max-Forwards'') (removeFirst (named ''Max-Forwards'') hs) = []"
  using assms by (cases "filter (named ''Max-Forwards'') hs") (auto simp: filter_removeFirst_same)

lemma popRoute_eq:
  assumes "msgDocumented M" "popRoute M hs = Some hs'"
  shows "hs' = removeFirst (named ''Route'') hs @ tl (filter (named ''Route'') hs)"
  using assms by (auto simp: popRoute_def Let_def docD [OF assms(1)] foldl_append_docs split: if_splits)

lemma route_folded: "folded ''Route'' \<noteq> folded ''Max-Forwards''" "folded ''Max-Forwards'' \<noteq> folded ''Route''"
  by code_simp+

lemma named_apart:
  "named ''Route'' h \<Longrightarrow> \<not> named ''Max-Forwards'' h" "named ''Max-Forwards'' h \<Longrightarrow> \<not> named ''Route'' h"
  by (auto simp: equalFold_def route_folded)

lemma route_not_maxfwd: "\<not> equalFold ''Max-Forwards'' ''Route''" "\<not> equalFold ''Record-Route'' ''Route''"
  "\<not> equalFold ''Record-Route'' ''Max-Forwards''"
  by code_simp+

lemma flow_builds:
  assumes "msgDocumented (pMsg P)" "filter (named ''Route'') (reqHeaders req) \<noteq> []"
  shows "\<exists>q. buildForward P req d t (flowHooks P req ra flow) = Some q"
proof -
  have "filter (named ''Route'') (removeFirst (named ''Max-Forwards'') (reqHeaders req)) \<noteq> []"
    using assms(2) named_apart(1) by (simp add: filter_removeFirst_other)
  then show ?thesis
    by (auto simp: buildForward_def flowHooks_def popRoute_def Let_def docD [OF assms(1)] split: option.split)
qed

text \<open>The Route and Max-Forwards headers of a request sent along a flow.\<close>

lemma flow_headers:
  assumes M: "msgDocumented (pMsg P)" and q: "buildForward P req d t (flowHooks P req ra flow) = Some q"
  shows "filter (named ''Route'') (reqHeaders q)
           = tl (filter (named ''Route'') (reqHeaders req)) @ tl (filter (named ''Route'') (reqHeaders req))"
    and "length (filter (named ''Max-Forwards'') (reqHeaders req)) \<le> 1 \<Longrightarrow>
      MaxForwards (pMsg P) (reqHeaders q)
        = Some (case MaxForwards (pMsg P) (reqHeaders req) of None \<Rightarrow> 70 | Some v \<Rightarrow> v - 1)"
proof -
  let ?M = "pMsg P" and ?R = "named ''Route''" and ?F = "named ''Max-Forwards''"
  let ?mf = "MaxForwardsHeader ?M (case MaxForwards ?M (reqHeaders req) of None \<Rightarrow> 70 | Some v \<Rightarrow> v - 1)"
  let ?hs = "removeFirst ?F (reqHeaders req) @ [?mf]"
  have mf: "hdrName (MaxForwardsHeader ?M v) = ''Max-Forwards''" for v using M by (simp add: msgDocumented_def)
  have rr: "hdrName (RecordRouteHeader ?M ra) = ''Record-Route''" using M by (simp add: msgDocumented_def)
  have R: "filter ?R ?hs = filter ?R (reqHeaders req)"
    using named_apart(1) by (simp add: filter_removeFirst_other mf route_not_maxfwd)
  obtain pre where q': "reqHeaders q = pre @ removeFirst ?R ?hs @ tl (filter ?R (reqHeaders req))"
    and pre: "pre = [] \<or> pre = [RecordRouteHeader ?M ra]"
  proof (cases "popRoute ?M ?hs")
    case None
    then show ?thesis using buildForward_headers(1) [OF M q] by (simp add: flowHooks_def)
  next
    case (Some hs')
    then have "hs' = removeFirst ?R ?hs @ tl (filter ?R (reqHeaders req))"
      using popRoute_eq [OF M Some] by (simp only: R)
    then show ?thesis
      using that [of "[]"] that [of "[RecordRouteHeader ?M ra]"] buildForward_headers(1) [OF M q] Some
      by (auto simp: flowHooks_def docD [OF M] split: if_splits)
  qed
  have tlR: "filter ?R (removeFirst ?R ?hs) = tl (filter ?R (reqHeaders req))" by (simp only: filter_removeFirst_same R)
  have "filter ?R pre = []" using pre by (auto simp: rr route_not_maxfwd)
  then show "filter ?R (reqHeaders q) = tl (filter ?R (reqHeaders req)) @ tl (filter ?R (reqHeaders req))"
    using tlR by (simp only: q' filter_append) (simp add: filter_tl_id)
  assume one: "length (filter ?F (reqHeaders req)) \<le> 1"
  have "removeFirst ?R ?hs = removeFirst ?R (removeFirst ?F (reqHeaders req)) @ [?mf]"
    by (rule removeFirst_filter) (simp add: mf route_not_maxfwd)
  moreover have "filter ?F (pre @ removeFirst ?R (removeFirst ?F (reqHeaders req))) = []"
    using one_forwards_left [OF one] pre named_apart(2) by (auto simp: filter_removeFirst_other rr route_not_maxfwd)
  ultimately show "MaxForwards ?M (reqHeaders q) = Some (case MaxForwards ?M (reqHeaders req) of None \<Rightarrow> 70 | Some v \<Rightarrow> v - 1)"
    using MaxForwards_append [OF M, of "pre @ removeFirst ?R (removeFirst ?F (reqHeaders req))"] unfolding q' by simp
qed


section \<open>What comes back\<close>

text \<open>The responses a relay passes on, up to the first final one, and each without the Via the
  sequencer added.\<close>

fun responsesOf :: "ClientEvent list \<Rightarrow> Response list" where
  "responsesOf (GotResponse res # evs) = res # (if resStatus res \<ge> 200 then [] else responsesOf evs)"
| "responsesOf _ = []"

definition withoutOwnVia :: "Response \<Rightarrow> Response" where
  "withoutOwnVia res = res\<lparr>resHeaders := filter (\<lambda>h. \<not> named ''Via'' h) (resHeaders res)
     @ tl (filter (named ''Via'') (resHeaders res))\<rparr>"

definition relayedOf :: "ProxyOut list \<Rightarrow> Response list" where
  "relayedOf outs = concat (map (\<lambda>x. case x of Relayed res \<Rightarrow> [res] | _ \<Rightarrow> []) outs)"

lemma relayedOf_simps [simp]:
  "relayedOf [] = []" "relayedOf (Sent q # xs) = relayedOf xs" "relayedOf (Replied s t # xs) = relayedOf xs"
  "relayedOf (Relayed res # xs) = res # relayedOf xs"
  by (simp_all add: relayedOf_def)

lemma relayLoop_response:
  assumes "msgDocumented M" "filter (named ''Via'') (resHeaders res) \<noteq> []"
  shows "relayLoop M f (GotResponse res # evs) = (if resStatus res \<ge> 200 then ([Relayed (withoutOwnVia res)], Finished)
     else (Relayed (withoutOwnVia res) # fst (relayLoop M f evs), snd (relayLoop M f evs)))"
  using assms(2)
  by (auto simp: docD [OF assms(1)] removeAll_named_eq [OF assms(1)] foldl_append_docs [OF assms(1)]
      withoutOwnVia_def Let_def split: prod.split)

definition viaPresent :: "ClientEvent list \<Rightarrow> bool" where
  "viaPresent evs = (\<forall>res. GotResponse res \<in> set evs \<longrightarrow> filter (named ''Via'') (resHeaders res) \<noteq> [])"

lemma relayLoop_relays:
  assumes "msgDocumented M" "viaPresent evs"
  shows "relayedOf (fst (relayLoop M f evs)) = map withoutOwnVia (responsesOf evs)"
    and "snd (relayLoop M f evs) = Finished \<or> snd (relayLoop M f evs) = Waiting"
  using assms(2)
  by (induction evs rule: responsesOf.induct)
     (auto simp: relayLoop_response [OF assms(1)] viaPresent_def simp del: relayLoop.simps(5))

lemma relayLoop_finals:
  assumes "msgDocumented M" "viaPresent evs" "fst f \<ge> 200"
  shows "length (filter finalStatus (fst (relayLoop M f evs)))
     = (if snd (relayLoop M f evs) = Finished \<and> ResponsesClosed \<notin> set evs then 1
        else length (filter finalStatus (fst (relayLoop M f evs))))"
    and "length (filter finalStatus (fst (relayLoop M f evs))) \<le> 1"
    and "snd (relayLoop M f evs) = Waiting \<Longrightarrow> filter finalStatus (fst (relayLoop M f evs)) = []"
  using assms(2,3)
  by (induction evs rule: responsesOf.induct)
     (auto simp: relayLoop_response [OF assms(1)] viaPresent_def finalStatus_def withoutOwnVia_def
       simp del: relayLoop.simps(5))

text \<open>The events after which a forwarding handler has nothing to wait for.\<close>

definition lastEvent :: "ClientEvent \<Rightarrow> bool" where
  "lastEvent ev = (case ev of GotResponse res \<Rightarrow> resStatus res \<ge> 200 | _ \<Rightarrow> True)"

lemma relayLoop_ends:
  assumes "msgDocumented M" "viaPresent evs"
  shows "snd (relayLoop M f evs) = (if \<exists>ev \<in> set evs. lastEvent ev then Finished else Waiting)"
  using assms(2)
  by (induction evs rule: responsesOf.induct)
     (auto simp: relayLoop_response [OF assms(1)] viaPresent_def lastEvent_def simp del: relayLoop.simps(5))

section \<open>A sample library\<close>

definition sampleMsg :: MsgLib where
  "sampleMsg = \<lparr>CloneRequest = (\<lambda>q. q), GetHeaders = (\<lambda>hs n. filter (named n) hs),
     RemoveHeader = (\<lambda>hs n. if \<exists>h \<in> set hs. named n h then (True, removeFirst (named n) hs) else (False, hs)),
     AppendHeader = (\<lambda>hs h. hs @ [h]), PrependHeader = (\<lambda>hs h. h # hs),
     MaxForwards = (\<lambda>hs. case filter (named ''Max-Forwards'') hs of [] \<Rightarrow> None
        | h # _ \<Rightarrow> Some (word_of_nat (dec_value (hdrValue h)))),
     MaxForwardsHeader = (\<lambda>v. \<lparr>hdrName = ''Max-Forwards'', hdrValue = showNat (unat v)\<rparr>),
     RouteAddress = (\<lambda>h. Some \<lparr>raUser = hdrValue h, raHost = ''192.0.2.1'', raPort = 5060\<rparr>),
     RecordRouteHeader = (\<lambda>ra. \<lparr>hdrName = ''Record-Route'', hdrValue = raUser ra\<rparr>),
     HostPort = (\<lambda>u. u)\<rparr>"

lemma sample_documented: "msgDocumented sampleMsg"
  by (auto simp: msgDocumented_def sampleMsg_def equalFold_def filter_eq_Cons_iff Cons_eq_append_conv split: list.split)


definition sampleSip :: SipLib where
  "sampleSip = \<lparr>HeaderClone = (\<lambda>h. h), NewHeader = (\<lambda>n v. \<lparr>hdrName = n, hdrValue = v\<rparr>),
     GetHeader = (\<lambda>hs n. List.find (\<lambda>h. equalFold (hdrName h) n) hs), ParseUri = Some,
     AddTransport = (\<lambda>u t. u @ '';transport='' @ t), IsProvisional = (\<lambda>s. s < 200)\<rparr>"

definition sampleProxy :: ProxyEnv where
  "sampleProxy = \<lparr>pCfg = \<lparr>cfgSIPListen = ''192.0.2.1:5060'', cfgTLS = \<lparr>lsListen = [], lsProfile = [], lsResolved = None\<rparr>,
       cfgWSListen = [], cfgWSS = \<lparr>lsListen = [], lsProfile = [], lsResolved = None\<rparr>,
       cfgNextHop = \<lparr>nhURI = ''10.0.0.2:5060'', nhTransport = ''udp'', nhTLSProfile = [], nhResolved = None\<rparr>,
       cfgRTP = \<lparr>rtpPortRange = ''20000-20100'', rtpIdleTimeout = [], rtpIdleTimeoutDur = 0\<rparr>,
       cfgPublicAddress = [], cfgSequence = [], cfgTLSProfiles = [], cfgLogLevel = ''info'',
       cfgObsListen = [], cfgLegTimeout = [], cfgLegTimeoutDur = 32\<rparr>,
     pSip = sampleSip, pMsg = sampleMsg, pathHost = ''192.0.2.1'', pathPort = 5060\<rparr>"

text \<open>A request of the given method and extra headers, from the given source.\<close>

definition sampleRequest :: "string \<Rightarrow> Header list \<Rightarrow> string \<Rightarrow> Request" where
  "sampleRequest m hs src = \<lparr>reqMethod = m, reqRecipient = ''sip:a@b'', reqHeaders = \<lparr>hdrName = ''Via'', hdrValue = ''v''\<rparr> # hs,
     reqBody = [], reqSource = src, reqTransport = ''WS'', reqDestination = []\<rparr>"

abbreviation sampleRoutes :: "Header list" where
  "sampleRoutes \<equiv> [\<lparr>hdrName = ''Route'', hdrValue = ''AwoBAgOcQA''\<rparr>, \<lparr>hdrName = ''Route'', hdrValue = ''r2''\<rparr>,
     \<lparr>hdrName = ''Max-Forwards'', hdrValue = ''0''\<rparr>]"

definition sampleReply :: "int \<Rightarrow> Response" where
  "sampleReply s = \<lparr>resStatus = s, resReason = [], resHeaders = [\<lparr>hdrName = ''Via'', hdrValue = ''own''\<rparr>,
     \<lparr>hdrName = ''Via'', hdrValue = ''theirs''\<rparr>, \<lparr>hdrName = ''To'', hdrValue = ''x''\<rparr>], resBody = []\<rparr>"

lemma sample_flow:
  "flowOf sampleProxy (sampleRequest m (hd sampleRoutes # hs) ''198.51.100.9:5060'')
     = Some (\<lparr>raUser = ''AwoBAgOcQA'', raHost = ''192.0.2.1'', raPort = 5060\<rparr>,
        \<lparr>flowAddr = ''10.1.2.3:40000'', flowTransport = ''ws''\<rparr>)"
proof -
  have t: "parseFlowToken ''AwoBAgOcQA'' = Inr \<lparr>flowAddr = ''10.1.2.3:40000'', flowTransport = ''ws''\<rparr>" by code_simp
  have r: "\<not> named ''Route'' \<lparr>hdrName = ''Via'', hdrValue = v\<rparr>" for v by code_simp
  show ?thesis
    using r by (simp add: flowOf_def sampleProxy_def sampleSip_def sampleMsg_def sampleRequest_def t)
qed

lemma sample_flow_sends:
  "\<exists>outs e q. routeToFlow sampleProxy (sampleRequest ''BYE'' (take 1 sampleRoutes) ''198.51.100.9:5060'') True [] = Some (outs, e)
     \<and> q \<in> set (sentOf outs)"
proof -
  let ?req = "sampleRequest ''BYE'' (take 1 sampleRoutes) ''198.51.100.9:5060''"
  have fl: "flowOf sampleProxy ?req = Some (\<lparr>raUser = ''AwoBAgOcQA'', raHost = ''192.0.2.1'', raPort = 5060\<rparr>,
      \<lparr>flowAddr = ''10.1.2.3:40000'', flowTransport = ''ws''\<rparr>)"
    using sample_flow [of "''BYE''" "[]"] by simp
  have "\<exists>outs e. routeToFlow sampleProxy ?req True [] = Some (outs, e) \<and> sentOf outs \<noteq> []"
    unfolding routeToFlow_cases fl
    by (simp add: forwardAndRelay_def buildForward_def flowHooks_def popRoute_def sampleProxy_def sampleMsg_def
        sampleRequest_def Let_def equalFold_def) (code_simp)
  then show ?thesis by (metis list.set_intros(1) neq_Nil_conv)
qed

lemma sample_proxy_documented: "msgDocumented (pMsg sampleProxy)"
  by (simp add: sampleProxy_def sample_documented)

lemma sample_ack_sends:
  "\<exists>outs e q. routeToFlow sampleProxy (sampleRequest ''ACK'' sampleRoutes ''198.51.100.9:5060'') True [] = Some (outs, e)
     \<and> q \<in> set (sentOf outs)"
proof -
  let ?req = "sampleRequest ''ACK'' sampleRoutes ''198.51.100.9:5060''"
  obtain ra flow where fl: "flowOf sampleProxy ?req = Some (ra, flow)"
    using sample_flow [of "''ACK''" "tl sampleRoutes"] by simp
  have "filter (named ''Route'') (reqHeaders ?req) \<noteq> []" by (simp add: sampleRequest_def)
  then obtain q where b: "buildForward sampleProxy ?req (fst (flowTarget sampleProxy ?req flow)) (snd (flowTarget sampleProxy ?req flow))
      (flowHooks sampleProxy ?req ra flow) = Some q"
    using flow_builds [OF sample_proxy_documented] by blast
  have "reqMethod ?req = ''ACK''" by (simp add: sampleRequest_def)
  then have "routeToFlow sampleProxy ?req True [] = Some ([Sent q], Finished)"
    by (simp only: routeToFlow_cases fl forwardStateless_def b option.case prod.case simp_thms if_True)
  then show ?thesis by auto
qed

lemma sample_register_hops: "MaxForwards sampleMsg (reqHeaders (sampleRequest m [] src)) = None"
  by (simp add: sampleMsg_def sampleRequest_def) code_simp

lemma sample_ack_maxfwd:
  "filter (named ''Max-Forwards'') (reqHeaders (sampleRequest ''ACK'' sampleRoutes ''198.51.100.9:5060''))
     = [\<lparr>hdrName = ''Max-Forwards'', hdrValue = ''0''\<rparr>]" "dec_value ''0'' = 0"
  unfolding sampleRequest_def by code_simp+

section \<open>Properties\<close>

text \<open>C22: A request is sent along a flow only to the address its own token names: whenever
  \<open>routeToFlow\<close> sends anything, the top Route carries this sequencer's address and a token that
  parses; one request is sent, to the token's address over its transport, or to the Request-URI
  when it came from that very address.\<close>

theorem flow_requests_follow_token:
  assumes "routeToFlow P req sendOk evs = Some (outs, e)" "q \<in> set (sentOf outs)"
  shows "\<exists>ra flow. flowOf P req = Some (ra, flow) \<and> raHost ra = pathHost P \<and> raPort ra = pathPort P
     \<and> parseFlowToken (raUser ra) = Inr flow \<and> sentOf outs = [q]
     \<and> reqDestination q = (if reqSource req = flowAddr flow then HostPort (pMsg P) (reqRecipient req) else flowAddr flow)
     \<and> (reqSource req \<noteq> flowAddr flow \<longrightarrow> reqTransport q = toUpper (flowTransport flow))"
proof -
  obtain ra flow where f: "flowOf P req = Some (ra, flow)" and s: "sentOf outs = [q]"
    and b: "buildForward P req (fst (flowTarget P req flow)) (snd (flowTarget P req flow)) (flowHooks P req ra flow) = Some q"
    using assms by (rule routeToFlow_sends)
  have "raHost ra = pathHost P \<and> raPort ra = pathPort P \<and> parseFlowToken (raUser ra) = Inr flow"
    using f by (auto simp: flowOf_def split: option.splits if_splits sum.splits)
  moreover from this have "flowTransport flow \<noteq> []" using parse_transport codes_lower by blast
  ultimately show ?thesis using f s buildForward_target [OF b] by (auto simp: flowTarget_def)
qed

theorem flow_requests_follow_token_witness:
  "\<exists>outs e q. routeToFlow sampleProxy (sampleRequest ''BYE'' (take 1 sampleRoutes) ''198.51.100.9:5060'') True [] = Some (outs, e)
     \<and> sentOf outs = [q] \<and> reqDestination q = ''10.1.2.3:40000'' \<and> reqTransport q = ''WS''"
proof -
  obtain outs e q where o: "routeToFlow sampleProxy (sampleRequest ''BYE'' (take 1 sampleRoutes) ''198.51.100.9:5060'') True []
      = Some (outs, e)" "q \<in> set (sentOf outs)"
    using sample_flow_sends by blast
  have "toUpper ''ws'' = ''WS''" by code_simp
  with flow_requests_follow_token [OF o] show ?thesis
    using o(1) sample_flow [of "''BYE''" "[]"] by (auto simp: sampleRequest_def)
qed

text \<open>C24: Responses travel back complete: the responses relayed are those of the destination up to
  its first final one, in order, each unchanged but for the removal of the topmost Via.\<close>

theorem responses_travel_back:
  assumes "msgDocumented (pMsg P)" "viaPresent evs"
    "forwardAndRelay P req d t onSendErr onNoFinal prep sendOk evs = (outs, e)" "sentOf outs \<noteq> []"
  shows "relayedOf outs = map withoutOwnVia (responsesOf evs)"
  using assms(3,4) relayLoop_relays [OF assms(1,2), of onNoFinal]
  by (auto simp: forwardAndRelay_def split: if_splits option.splits prod.splits)

theorem responses_travel_back_witness:
  "\<exists>outs e. forwardAndRelay sampleProxy (sampleRequest ''OPTIONS'' [] ''198.51.100.9:5060'') ''10.0.0.2:5060'' ''udp''
      (502, []) (503, []) [] True [GotResponse (sampleReply 180), GotResponse (sampleReply 200)] = (outs, e)
    \<and> relayedOf outs = [withoutOwnVia (sampleReply 180), withoutOwnVia (sampleReply 200)]"
proof -
  let ?evs = "[GotResponse (sampleReply 180), GotResponse (sampleReply 200)]"
  obtain outs e where r: "forwardAndRelay sampleProxy (sampleRequest ''OPTIONS'' [] ''198.51.100.9:5060'') ''10.0.0.2:5060'' ''udp''
      (502, []) (503, []) [] True ?evs = (outs, e)" by force
  have d: "msgDocumented (pMsg sampleProxy)" by (simp add: sampleProxy_def sample_documented)
  have v: "viaPresent ?evs" by (auto simp: viaPresent_def sampleReply_def)
  have "sentOf (fst (forwardAndRelay sampleProxy (sampleRequest ''OPTIONS'' [] ''198.51.100.9:5060'') ''10.0.0.2:5060'' ''udp''
      (502, []) (503, []) [] True ?evs)) \<noteq> []"
    unfolding forwardAndRelay_sends
    by (simp add: buildForward_def sampleProxy_def sampleMsg_def sampleRequest_def Let_def equalFold_def) code_simp
  with responses_travel_back [OF d v r] r show ?thesis by (simp add: sampleReply_def)
qed


text \<open>C25: A proxied request is answered at most once for good, and exactly once when its handling
  ends, unless the transaction's response channel was closed without a final response.\<close>

theorem proxied_request_answered_once:
  assumes "msgDocumented (pMsg P)" "viaPresent evs" "200 \<le> fst onSendErr" "200 \<le> fst onNoFinal"
    "forwardAndRelay P req d t onSendErr onNoFinal prep sendOk evs = (outs, e)"
  shows "length (filter finalStatus outs) \<le> 1
     \<and> (e = Finished \<longrightarrow> ResponsesClosed \<notin> set evs \<longrightarrow> length (filter finalStatus outs) = 1)
     \<and> (e = Waiting \<longrightarrow> filter finalStatus outs = [])"
  using assms(3,5) relayLoop_finals [OF assms(1,2,4)]
  by (auto simp: forwardAndRelay_def finalStatus_def split: if_splits option.splits prod.splits)

theorem proxied_request_answered_once_witness:
  "length (filter finalStatus (fst (forwardAndRelay sampleProxy (sampleRequest ''OPTIONS'' [] ''198.51.100.9:5060'')
      ''10.0.0.2:5060'' ''udp'' (502, []) (503, []) [] True [GotResponse (sampleReply 180), TxDone]))) \<le> 1"
proof -
  have d: "msgDocumented (pMsg sampleProxy)" by (simp add: sampleProxy_def sample_documented)
  have v: "viaPresent [GotResponse (sampleReply 180), TxDone]" by (auto simp: viaPresent_def sampleReply_def)
  show ?thesis using proxied_request_answered_once [OF d v _ _ surjective_pairing, of "(502, [])" "(503, [])"] by simp
qed





text \<open>An ACK is forwarded without the hop check: one that arrives with Max-Forwards 0 leaves
  with 4294967295.\<close>

theorem ack_hops_wrap:
  assumes "msgDocumented (pMsg P)" "length (filter (named ''Max-Forwards'') (reqHeaders req)) = 1"
    "MaxForwards (pMsg P) (reqHeaders req) = Some 0"
    "routeToFlow P req sendOk evs = Some (outs, e)" "q \<in> set (sentOf outs)"
  shows "reqMethod req = ''ACK'' \<and> MaxForwards (pMsg P) (reqHeaders q) = Some 4294967295"
proof -
  obtain ra flow where f: "flowOf P req = Some (ra, flow)"
    and b: "buildForward P req (fst (flowTarget P req flow)) (snd (flowTarget P req flow)) (flowHooks P req ra flow) = Some q"
    using assms(4,5) by (rule routeToFlow_sends)
  have "reqMethod req = ''ACK''"
    using assms(3-5) f by (auto simp: routeToFlow_cases forwardAndRelay_def split: if_splits)
  then show ?thesis using flow_headers(2) [OF assms(1) b] assms(2,3) by simp
qed

theorem ack_hops_wrap_witness:
  "\<exists>outs e q. routeToFlow sampleProxy (sampleRequest ''ACK'' sampleRoutes ''198.51.100.9:5060'') True [] = Some (outs, e)
     \<and> q \<in> set (sentOf outs) \<and> MaxForwards sampleMsg (reqHeaders q) = Some 4294967295"
proof -
  obtain outs e q where r: "routeToFlow sampleProxy (sampleRequest ''ACK'' sampleRoutes ''198.51.100.9:5060'') True [] = Some (outs, e)"
    "q \<in> set (sentOf outs)"
    using sample_ack_sends by blast
  note d = sample_proxy_documented
  have "length (filter (named ''Max-Forwards'') (reqHeaders (sampleRequest ''ACK'' sampleRoutes ''198.51.100.9:5060''))) = 1"
    "MaxForwards (pMsg sampleProxy) (reqHeaders (sampleRequest ''ACK'' sampleRoutes ''198.51.100.9:5060'')) = Some 0"
    using sample_ack_maxfwd by (simp_all add: sampleProxy_def sampleMsg_def)
  from ack_hops_wrap [OF d this r] r show ?thesis by (auto simp: sampleProxy_def)
qed

text \<open>Popping the self-route doubles the others: because only the first Route is removed before
  the remaining ones are appended, a request with further Routes leaves with each of them twice.\<close>

theorem later_routes_are_doubled:
  assumes "msgDocumented (pMsg P)" "routeToFlow P req sendOk evs = Some (outs, e)" "q \<in> set (sentOf outs)"
  shows "filter (named ''Route'') (reqHeaders q)
    = tl (filter (named ''Route'') (reqHeaders req)) @ tl (filter (named ''Route'') (reqHeaders req))"
  using assms(2,3) by (rule routeToFlow_sends) (rule flow_headers(1) [OF assms(1)])


theorem later_routes_are_doubled_witness:
  "\<exists>outs e q. routeToFlow sampleProxy (sampleRequest ''ACK'' sampleRoutes ''198.51.100.9:5060'') True [] = Some (outs, e)
     \<and> q \<in> set (sentOf outs) \<and> map hdrValue (filter (named ''Route'') (reqHeaders q)) = [''r2'', ''r2'']"
proof -
  obtain outs e q where r: "routeToFlow sampleProxy (sampleRequest ''ACK'' sampleRoutes ''198.51.100.9:5060'') True [] = Some (outs, e)"
    "q \<in> set (sentOf outs)"
    using sample_ack_sends by blast
  have "map hdrValue (tl (filter (named ''Route'') (reqHeaders (sampleRequest ''ACK'' sampleRoutes ''198.51.100.9:5060'')))) = [''r2'']"
    unfolding sampleRequest_def by code_simp
  with later_routes_are_doubled [OF sample_proxy_documented r] r show ?thesis by auto
qed




end
