(* ===== verification/ReachProps.thy ===== *)
theory ReachProps
  imports Reach ProxyProps
begin

section \<open>A sample run\<close>

definition sampleMid :: "(nat \<Rightarrow> string option) \<Rightarrow> Env \<Rightarrow> MidEnv" where
  "sampleMid dialog E = \<lparr>callEnv = E,
     proxyEnv = \<lparr>pCfg = sampleConfig, pSip = sampleLib, pMsg = sampleMsg, pathHost = ''10.0.0.5'', pathPort = 5060\<rparr>,
     matchDialog = (\<lambda>t _. dialog t), readInvite = (\<lambda>_. Some ''d1''), newCallID = (\<lambda>_. ''c1''),
     routingOf = (\<lambda>_. \<lparr>riMethod = ''INVITE'', riFrom = [], riTo = []\<rparr>), sessionContact = (\<lambda>_. Some ''sip:pbx@10.0.0.2''),
     doResult = (\<lambda>_. Some sampleAnswer), ParseAddressValue = Some, inboundContact = (\<lambda>_. Some ''sip:alice@192.0.2.7''),
     proxySend = (\<lambda>_. (True, []))\<rparr>"

definition sampleInvite :: Request where
  "sampleInvite = \<lparr>reqMethod = ''INVITE'', reqRecipient = ''sip:bob@10.0.0.5'', reqHeaders = [], reqBody = sampleCallerSDP,
     reqSource = ''192.0.2.7:5060'', reqTransport = ''UDP'', reqDestination = []\<rparr>"

definition sampleReached :: World where
  "sampleReached = after (handleInvite (sampleMid (\<lambda>_. None) calmEnv) 7 sampleInvite) (emptyWorld 20000 20100)"

lemma sample_reached: "reachable 20000 20100 sampleReached"
  unfolding sampleReached_def
  by (rule next_step [OF start], rule invited) (simp add: sampleMid_def sample_behaves)

text \<open>The world the set-up of that call starts in.\<close>

definition sampleStart :: World where
  "sampleStart = sampleWorld\<lparr>wTrace := [EvRespond 0 100 ''Trying'' [] [] True], wTick := 1\<rparr>"

lemma sample_reached_eq: "sampleReached = snd (run_state (bridge calmEnv 0) sampleStart)"
proof -
  have 1: "callEnv (sampleMid d E) = E" "matchDialog (sampleMid d E) t q = d t" "readInvite (sampleMid d E) t = Some ''d1''"
    "routeToFlow (proxyEnv (sampleMid d E)) sampleInvite b evs = None"
    "newCall (sampleMid d calmEnv) t ''d1'' sampleInvite = sampleCall" for d E t q b evs
    by (simp_all add: sampleMid_def routeToFlow_def sampleInvite_def sampleLib_def newCall_def sampleCall_def sampleEnv_def)
  have 2: "interf calmEnv t = []" for t by (simp add: sampleEnv_def)
  show ?thesis
    by (simp add: sampleReached_def after_def handleInvite_def 1 2 sync_def emit_def run_bind addTrace_def addCall_def
        addDialog_def regAdd_def mapPut_def Let_def emptyWorld_def sampleStart_def sampleWorld_def sampleCall_def
        split: prod.split)
qed

lemma sample_addresses:
  "ParseIP ''10.0.0.9'' = Some [0,0,0,0,0,0,0,0,0,0,255,255,10,0,0,9]"
  "ParseIP ''192.0.2.7'' = Some [0,0,0,0,0,0,0,0,0,0,255,255,192,0,2,7]"
  by code_simp+

lemma sample_start_run:
  "case run_state (bridge calmEnv 0) sampleStart of (ok, w') \<Rightarrow>
     length (wCalls w') = 1 \<and> callState (wCalls w' ! 0) = stateEstablished \<and> callHeld (wCalls w' ! 0) \<noteq> {#}
     \<and> wDialogs w' = [(''d1'', 0)] \<and> wReg w' = [(''c1'', 0)] \<and> portsBound (shape (wCalls w' ! 0)) \<and> media (wCalls w' ! 0) \<noteq> None"
  by (simp add: sampleStart_def sample_run sample_addresses callHeld_def hookPairs_def portsBound_def shape_def setRemote_def addTap_def)

lemma sample_reached_call:
  "length (wCalls sampleReached) = 1" "callState (wCalls sampleReached ! 0) = stateEstablished"
  "callHeld (wCalls sampleReached ! 0) \<noteq> {#}" "wDialogs sampleReached = [(''d1'', 0)]" "wReg sampleReached = [(''c1'', 0)]"
  "portsBound (shape (wCalls sampleReached ! 0))" "media (wCalls sampleReached ! 0) \<noteq> None"
  using sample_start_run unfolding sample_reached_eq by (simp_all split: prod.splits)

section \<open>Properties of every reachable world\<close>

lemma held_call: "r < length (wCalls w) \<Longrightarrow> callHeld (wCalls w ! r) \<subseteq># held w"
proof -
  assume "r < length (wCalls w)"
  then have "wCalls w = take r (wCalls w) @ wCalls w ! r # drop (Suc r) (wCalls w)" by (rule id_take_nth_drop)
  then have "sum_list (map callHeld (wCalls w)) = sum_list (map callHeld (take r (wCalls w) @ wCalls w ! r # drop (Suc r) (wCalls w)))"
    by simp
  then show ?thesis by (simp add: held_def)
qed

lemma held_two_calls:
  assumes "i < j" "j < length (wCalls w)"
  shows "callHeld (wCalls w ! i) + callHeld (wCalls w ! j) \<subseteq># held w"
proof -
  let ?d = "drop (Suc i) (wCalls w)"
  have "wCalls w = take i (wCalls w) @ wCalls w ! i # ?d" using assms by (intro id_take_nth_drop) simp
  moreover have j: "?d ! (j - Suc i) = wCalls w ! j" "j - Suc i < length ?d" using assms by auto
  then have "?d = take (j - Suc i) ?d @ wCalls w ! j # drop (Suc (j - Suc i)) ?d"
    using id_take_nth_drop [OF j(2)] by simp
  ultimately have "sum_list (map callHeld (wCalls w))
      = sum_list (map callHeld (take i (wCalls w) @ wCalls w ! i # take (j - Suc i) ?d @ wCalls w ! j # drop (Suc (j - Suc i)) ?d))"
    by simp
  then show ?thesis by (simp add: held_def subset_mset.add_mono)
qed

text \<open>C1: Ports are never shared: in every world the sequencer can reach, whatever requests, hang-ups,
  sweeps and failures led there, no two calls hold the same port pair, and no pair that a call holds
  is free to be handed out.\<close>

theorem reachable_ports_exclusive:
  assumes "reachable mn mx w"
  shows "(\<forall>r < length (wCalls w). \<forall>q \<in># callHeld (wCalls w ! r). q \<notin> set (freePairs (wPorts w)) \<and>
     (\<forall>r' < length (wCalls w). q \<in># callHeld (wCalls w ! r') \<longrightarrow> r' = r))"
proof (intro allI impI ballI conjI)
  fix r q assume r: "r < length (wCalls w)" and q: "q \<in># callHeld (wCalls w ! r)"
  obtain L where "acct {#} L w" using reachable_sound [OF assms] by (auto simp: sound_def balanced_def)
  then have b: "books E 0 {#} L w" for E by (auto simp: books_def)
  have h: "q \<in># held w" using held_call [OF r] q by (auto dest: mset_subset_eqD)
  from books_exclusive [OF b h] show "q \<notin> set (freePairs (wPorts w))" by blast
  fix r' assume r': "r' < length (wCalls w)" "q \<in># callHeld (wCalls w ! r')"
  show "r' = r"
  proof (rule ccontr)
    assume "r' \<noteq> r"
    then have "callHeld (wCalls w ! r) + callHeld (wCalls w ! r') \<subseteq># held w"
      using held_two_calls [of r r' w] held_two_calls [of r' r w] r r'
      by (cases "r < r'") (auto simp: add.commute)
    then have "count (callHeld (wCalls w ! r)) q + count (callHeld (wCalls w ! r')) q \<le> count (held w) q"
      using mset_subset_eq_count by fastforce
    moreover have "1 \<le> count (callHeld (wCalls w ! r)) q" "1 \<le> count (callHeld (wCalls w ! r')) q" using q r' by simp_all
    moreover have "count (held w) q = 1" using books_exclusive [OF b h] by blast
    ultimately show False by linarith
  qed
qed

theorem reachable_ports_exclusive_witness:
  "\<exists>q. q \<in># callHeld (wCalls sampleReached ! 0) \<and> q \<notin> set (freePairs (wPorts sampleReached))"
proof -
  obtain q where "q \<in># callHeld (wCalls sampleReached ! 0)" using sample_reached_call(3) by blast
  then show ?thesis using reachable_ports_exclusive [OF sample_reached] sample_reached_call(1) by auto
qed

text \<open>C2: An established call is complete: in every world the sequencer can reach, a call in the
  established state has its PBX leg, the PBX side of its media and an endpoint, plain or secured; so
  the handlers that rely on them never meet a nil pointer.\<close>

theorem established_calls_are_complete:
  assumes "reachable mn mx w" "r < length (wCalls w)" "callState (wCalls w ! r) = stateEstablished"
  shows "\<exists>leg m. pbxLeg (wCalls w ! r) = Some leg \<and> media (wCalls w ! r) = Some m \<and> pbxSide m \<noteq> None
     \<and> (endpointSide m \<noteq> None \<or> endpointLeg m \<noteq> None)"
proof -
  have "complete (wCalls w ! r)"
    using reachable_sound [OF assms(1)] assms(2,3) by (auto simp: sound_def allReady_def ready_def)
  then show ?thesis by (cases "media (wCalls w ! r)") (auto simp: complete_def)
qed

theorem established_calls_are_complete_witness:
  "pbxLeg (wCalls sampleReached ! 0) \<noteq> None"
  using established_calls_are_complete [OF sample_reached, of 0] sample_reached_call by auto

text \<open>The registry knows live calls only: in every reachable world, what a lookup by call id or
  by dialog id finds is a call of that id that has not been torn down.\<close>

theorem registry_holds_live_calls:
  assumes "reachable mn mx w"
  shows "(regGet k w = Some r \<longrightarrow> live w r \<and> callId (wCalls w ! r) = k)
     \<and> (getByDialog d w = Some r \<longrightarrow> live w r \<and> inboundID (wCalls w ! r) = d \<and> d \<noteq> [])"
  using reachable_sound [OF assms] by (auto simp: sound_def registered_def regGet_def getByDialog_def dest!: map_of_SomeD)

theorem registry_holds_live_calls_witness:
  "regGet ''c1'' sampleReached = Some 0 \<and> live sampleReached 0 \<and> inboundID (wCalls sampleReached ! 0) = ''d1''"
  using registry_holds_live_calls [OF sample_reached, of "''c1''" 0 "''d1''"] sample_reached_call(4,5)
  by (simp add: regGet_def getByDialog_def)

section \<open>Shutdown and the reaper\<close>

lemma Shutdown_registry: "registered w \<Longrightarrow> set (wReg w) \<subseteq> set xs \<Longrightarrow> wReg (fold (\<lambda>(_, r). teardown r) xs w) = []"
proof (induction xs arbitrary: w)
  case (Cons x xs)
  obtain k r where x: "x = (k, r)" by force
  have "set (wReg (teardown r w)) \<subseteq> set xs"
  proof (cases "live w r")
    case True
    then have "wReg (teardown r w) = mapDelete (callId (wCalls w ! r)) (wReg w)" by (simp add: live_def teardown_live(2))
    moreover have "\<forall>(k', r') \<in> set (wReg w). callId (wCalls w ! r') = k'" using Cons.prems(1) by (auto simp: registered_def)
    ultimately show ?thesis using Cons.prems(2) x by (auto simp: mapDelete_def)
  next
    case False
    then have "teardown r w = w" by (auto simp: teardown_def Let_def live_def canTransition_def)
    moreover have "(k, r) \<notin> set (wReg w)" using False Cons.prems(1) by (auto simp: registered_def)
    ultimately show ?thesis using Cons.prems(2) x by auto
  qed
  with Cons.IH [OF registered_teardown [OF Cons.prems(1)]] show ?case by (simp add: x)
qed simp

lemma Shutdown_ends:
  assumes "(k, r) \<in> set xs" "r < length (wCalls w)"
  shows "callState (wCalls (fold (\<lambda>(_, r). teardown r) xs w) ! r) = stateTearingDown"
proof -
  have dead: "r < length (wCalls w) \<Longrightarrow> callState (wCalls w ! r) = stateTearingDown \<Longrightarrow>
      callState (wCalls (fold (\<lambda>(_, r). teardown r) xs w) ! r) = stateTearingDown" for xs w
  proof (induction xs arbitrary: w)
    case (Cons x xs)
    obtain k s where x: "x = (k, s)" by force
    have "callState (wCalls (teardown s w) ! r) = stateTearingDown"
      using Cons.prems teardown_self(1) [of r w] by (cases "s = r") (simp_all add: teardown_frame)
    with Cons show ?case by (simp add: x teardown_frame)
  qed simp
  from assms show ?thesis
  proof (induction xs arbitrary: w)
    case (Cons x xs)
    obtain k' s where x: "x = (k', s)" by force
    show ?case
    proof (cases "s = r")
      case True
      then show ?thesis using dead [of "teardown r w" xs] teardown_self(1) [of r w] Cons.prems(2) by (simp add: x teardown_frame)
    next
      case False
      then show ?thesis using Cons x by (auto simp: teardown_frame)
    qed
  qed simp
qed

lemma Shutdown_all:
  assumes "registered w" "iterates it"
  shows "wReg (Shutdown it w) = []"
    "(k, r) \<in> set (wReg w) \<Longrightarrow> callState (wCalls (Shutdown it w) ! r) = stateTearingDown"
    "Shutdown it (Shutdown it w) = Shutdown it w"
proof -
  show e: "wReg (Shutdown it w) = []"
    using Shutdown_registry [OF assms(1), of "it (wReg w)"] assms(2) by (simp add: Shutdown_def each_def iterates_def)
  have "it [] = []" using assms(2) by (metis iterates_def set_empty)
  with e show "Shutdown it (Shutdown it w) = Shutdown it w" by (simp add: Shutdown_def each_def)
  assume k: "(k, r) \<in> set (wReg w)"
  then have "r < length (wCalls w)" using assms(1) by (auto simp: registered_def live_def)
  with k show "callState (wCalls (Shutdown it w) ! r) = stateTearingDown"
    using Shutdown_ends [of k r "it (wReg w)" w] assms(2) by (simp add: Shutdown_def each_def iterates_def)
qed

text \<open>Shutdown ends every call: from any reachable world it leaves the registry empty and every
  call that was registered torn down.\<close>

theorem shutdown_ends_every_call:
  assumes "reachable mn mx w" "iterates it"
  shows "ActiveCalls (Shutdown it w) = 0
     \<and> (\<forall>(k, r) \<in> set (wReg w). callState (wCalls (Shutdown it w) ! r) = stateTearingDown)"
proof -
  have "registered w" using reachable_sound [OF assms(1)] by (simp add: sound_def)
  from Shutdown_all [OF this assms(2)] show ?thesis by (auto simp: ActiveCalls_def)
qed

theorem shutdown_ends_every_call_witness:
  "ActiveCalls sampleReached = 1 \<and> ActiveCalls (Shutdown rev sampleReached) = 0
   \<and> callState (wCalls (Shutdown rev sampleReached) ! 0) = stateTearingDown"
  using shutdown_ends_every_call [OF sample_reached, of rev] by (simp add: iterates_def sample_reached_call ActiveCalls_def)

text \<open>C12: A call whose media falls silent is reaped in time: from any reachable world, an established
  call of the registry is left alone at every tick up to its timeout and torn down at the first one
  after, which comes within one sweep interval of the timeout.\<close>

theorem silent_call_is_reaped_in_time:
  assumes "reachable mn mx w" "regGet k w = Some r" "callState (wCalls w ! r) = stateEstablished"
    "media (wCalls w ! r) = Some m" "lastActivity m \<noteq> 0" "1 < timeout" "start \<le> lastActivity m + timeout"
    "\<And>i. iterates (its i)" "n = nat ((lastActivity m + timeout - start) div reaperInterval timeout + 1)"
  shows "callState (wCalls (reaperRun its timeout start n w) ! r) = stateTearingDown
     \<and> start + int n * reaperInterval timeout \<le> lastActivity m + timeout + reaperInterval timeout
     \<and> (\<forall>i < n. wCalls (reaperRun its timeout start i w) ! r = wCalls w ! r)"
proof -
  define d where "d = reaperInterval timeout"
  define q where "q = lastActivity m + timeout - start"
  have d: "0 < d" using assms(6) by (auto simp: d_def reaperInterval_def reaperMaxInterval_def Let_def second_def)
  have q: "0 \<le> q" using assms(7) by (simp add: q_def)
  have n: "int n = q div d + 1" using assms(9) pos_imp_zdiv_nonneg_iff [OF d, of q] q by (simp add: d_def q_def)
  have dm: "q div d * d \<le> q" "q < (q div d + 1) * d"
  proof -
    have "q = q div d * d + q mod d" by simp
    with pos_mod_bound [OF d, of q] pos_mod_sign [OF d, of q] show "q div d * d \<le> q" "q < (q div d + 1) * d"
      unfolding distrib_right by linarith+
  qed
  have idle: "idleExpired (start + int i * d) timeout (wCalls w ! r) \<longleftrightarrow> q < int i * d" for i
    using assms(3-6) by (auto simp: idleExpired_def idleFor_def q_def)
  have early: "\<not> idleExpired (start + int i * d) timeout (wCalls w ! r)" if "i < n" for i
  proof -
    have "int i \<le> q div d" using that n by linarith
    then have "int i * d \<le> q div d * d" using d by (intro mult_right_mono) auto
    then show ?thesis using dm(1) by (simp add: idle)
  qed
  have w: "registered w" using reachable_sound [OF assms(1)] by (simp add: sound_def)
  have k: "(k, r) \<in> set (wReg w)" using assms(2) by (simp add: regGet_def map_of_SomeD)
  have spared: "wCalls (reaperRun its timeout start i w) ! r = wCalls w ! r \<and> (k, r) \<in> set (wReg (reaperRun its timeout start i w))
      \<and> registered (reaperRun its timeout start i w)" if "i < n" for i
    by (rule reaper_spares [OF w k assms(8)]) (use early that in \<open>simp add: d_def\<close>)
  have "0 \<le> q div d" using pos_imp_zdiv_nonneg_iff [OF d, of q] q by simp
  then obtain n' where n': "n = Suc n'" using n by (cases n) auto
  have now: "idleExpired (start + int n * d) timeout (wCalls w ! r)" using dm(2) n unfolding idle [of n] by simp
  have "callState (wCalls (reaperRun its timeout start n w) ! r) = stateTearingDown"
    using sweep_step [of "reaperRun its timeout start n' w" k r "its n" "start + int n * d" timeout] assms(8) spared [of n'] now n'
    by (simp add: reaperRun_Suc d_def)
  moreover have "start + int n * d \<le> lastActivity m + timeout + d" using dm(1) by (simp add: n distrib_right q_def)
  ultimately show ?thesis using spared by (simp add: d_def)
qed

text \<open>The sample call after its last packet, at time 500.\<close>

definition sampleSilent :: World where
  "sampleSilent = after (modify_st (packetRelayed 0 500)) sampleReached"

lemma sample_silent: "reachable 20000 20100 sampleSilent"
  unfolding sampleSilent_def by (rule next_step [OF sample_reached relayed])

lemma sample_silent_call:
  "regGet ''c1'' sampleSilent = Some 0" "callState (wCalls sampleSilent ! 0) = stateEstablished"
  "\<exists>m. media (wCalls sampleSilent ! 0) = Some m \<and> lastActivity m = 500"
proof -
  obtain m where "media (wCalls sampleReached ! 0) = Some m"
    using sample_reached_call(7) by auto
  then show "\<exists>m. media (wCalls sampleSilent ! 0) = Some m \<and> lastActivity m = 500"
    using sample_reached_call(1) by (simp add: sampleSilent_def after_def packetRelayed_def markActivity_def)
qed (use sample_reached_call in \<open>simp_all add: sampleSilent_def after_def packetRelayed_def regGet_def updCall_def\<close>)

theorem silent_call_is_reaped_in_time_witness:
  "callState (wCalls (reaperRun (\<lambda>_. rev) 100 450 4 sampleSilent) ! 0) = stateTearingDown
   \<and> callState (wCalls (reaperRun (\<lambda>_. rev) 100 450 3 sampleSilent) ! 0) = stateEstablished"
proof -
  obtain m where m: "media (wCalls sampleSilent ! 0) = Some m" "lastActivity m = 500" using sample_silent_call(3) by blast
  have n: "(4::nat) = nat ((lastActivity m + 100 - 450) div reaperInterval 100 + 1)"
    by (simp add: m(2) reaperInterval_def reaperMaxInterval_def second_def Let_def)
  from silent_call_is_reaped_in_time [OF sample_silent sample_silent_call(1,2) m(1) _ _ _ _ n, of "\<lambda>_. rev"] m(2) sample_silent_call(2)
  show ?thesis by (simp add: iterates_def)
qed

section \<open>Mid-call handlers\<close>

lemma sound_mid: "sound w \<Longrightarrow> \<exists>L. mid (length (wCalls w)) tx L (answers tx w) (\<lambda>r. notifies r w) (\<lambda>r. shape (wCalls w ! r)) w"
  by (auto simp: sound_def balanced_def allReady_def registered_def live_def mid_def)

text \<open>C13: A re-INVITE moves both sides of the media or neither: from any reachable world the handler
  returns, the transaction is answered exactly once, and either the offer's and the answer's addresses
  are now the remotes of the endpoint and the PBX side and the answer was 200, or legs and remotes are as
  they were and only an offerless re-INVITE was answered 200; no other call is touched.\<close>

theorem reinvite_moves_both_sides_or_neither:
  assumes "reachable mn mx w" "r < length (wCalls w)" "mediaHost (callEnv M) \<noteq> []" "portsBound (shape (wCalls w ! r))"
    "run_state (handleReInvite M r tx req) w = (out, w')"
  shows "out = Returns \<and> (\<exists>status. answers tx w' = answers tx w @ [status] \<and>
       ((\<exists>ep pbx answer. status = 200 \<and> reqBody req \<noteq> [] \<and> parseMedia (reqBody req) = Inr ep \<and> parseMedia answer = Inr pbx
           \<and> shape (wCalls w' ! r) = moved ep pbx answer (shape (wCalls w ! r)))
        \<or> (shape (wCalls w' ! r) = shape (wCalls w ! r) \<and> (status = 200 \<longrightarrow> reqBody req = []))))
     \<and> (\<forall>r' < length (wCalls w). r' \<noteq> r \<longrightarrow> shape (wCalls w' ! r') = shape (wCalls w ! r'))"
proof -
  obtain L where "mid (length (wCalls w)) tx L (answers tx w) (\<lambda>r. notifies r w) (\<lambda>r. shape (wCalls w ! r)) w"
    using sound_mid [OF reachable_sound [OF assms(1)]] by blast
  from wp_handleReInvite [OF this assms(2,3), of req] assms(4,5)
  have "reInvited req r (length (wCalls w)) tx L (answers tx w) (\<lambda>r. notifies r w) (\<lambda>r. shape (wCalls w ! r)) out w'"
    by (simp add: wp_def)
  then consider (yes) ep pbx answer where "out = Returns" "parseMedia (reqBody req) = Inr ep" "parseMedia answer = Inr pbx"
      "reqBody req \<noteq> []" "mid (length (wCalls w)) tx L (answers tx w @ [200]) (\<lambda>r. notifies r w)
        ((\<lambda>r. shape (wCalls w ! r))(r := moved ep pbx answer (shape (wCalls w ! r)))) w'"
    | (no) status where "out = Returns" "status \<noteq> 200 \<or> reqBody req = []"
      "mid (length (wCalls w)) tx L (answers tx w @ [status]) (\<lambda>r. notifies r w) (\<lambda>r. shape (wCalls w ! r)) w'"
    unfolding reInvited_def by blast
  then show ?thesis
  proof cases
    case (yes ep pbx answer)
    then have "shape (wCalls w' ! r) = moved ep pbx answer (shape (wCalls w ! r))" "answers tx w' = answers tx w @ [200]"
      "\<forall>r' < length (wCalls w). r' \<noteq> r \<longrightarrow> shape (wCalls w' ! r') = shape (wCalls w ! r')"
      using assms(2) by (auto simp: mid_def)
    with yes show ?thesis by blast
  next
    case (no status)
    then show ?thesis using assms(2) by (auto simp: mid_def)
  qed
qed

definition sampleReoffer :: Request where
  "sampleReoffer = sampleInvite\<lparr>reqBody := crlf_lines [''v=0'', ''c=IN IP4 192.0.2.8'', ''m=audio 41000 RTP/AVP 0'']\<rparr>"

abbreviation sampleHandlers :: MidEnv where
  "sampleHandlers \<equiv> sampleMid (\<lambda>_. Some ''d1'') calmEnv"

theorem reinvite_moves_both_sides_or_neither_witness:
  "\<exists>w'. run_state (handleReInvite sampleHandlers 0 8 sampleReoffer) sampleReached = (Returns, w') \<and> (\<exists>status. answers 8 w' = answers 8 sampleReached @ [status])"
proof -
  have h: "mediaHost (callEnv sampleHandlers) \<noteq> []" by (simp add: sampleMid_def sampleEnv_def sampleMediaHost_def)
  obtain out w' where run: "run_state (handleReInvite sampleHandlers 0 8 sampleReoffer) sampleReached = (out, w')" by force
  from reinvite_moves_both_sides_or_neither [OF sample_reached _ h _ run] sample_reached_call run show ?thesis by auto
qed

text \<open>C14: A transfer takes over or changes nothing: from any reachable world a REFER is refused with
  481, 403 or 488 and nothing is notified, or accepted with 202 for one call, whose referrer is then
  notified once if it has a contact: of a success exactly when the target's media address has become the
  endpoint side's remote, the target's session is the call's and the referrer is detached; otherwise the
  call's legs and media are as they were. Application legs and other calls are never touched.\<close>

theorem refer_takes_over_or_changes_nothing:
  assumes "reachable mn mx w" "run_state (handleRefer M tx req) w = (out, w')"
  shows "out = Returns \<and>
    ((\<exists>status \<in> {481, 403, 488}. answers tx w' = answers tx w @ [status] \<and> (\<forall>r. notifies r w' = notifies r w)
        \<and> (\<forall>r < length (wCalls w). shape (wCalls w' ! r) = shape (wCalls w ! r)))
     \<or> (\<exists>r frag. r < length (wCalls w) \<and> answers tx w' = answers tx w @ [202]
        \<and> notifies r w' = notifies r w @ (if inboundContact M r = None then [] else [frag])
        \<and> (if frag = ''SIP/2.0 200 OK'' then \<exists>target sess. shape (wCalls w' ! r) = transferred target sess (shape (wCalls w ! r))
           else shape (wCalls w' ! r) = shape (wCalls w ! r))
        \<and> (\<forall>r' < length (wCalls w). r' \<noteq> r \<longrightarrow> shape (wCalls w' ! r') = shape (wCalls w ! r'))))"
proof -
  let ?n = "length (wCalls w)" and ?N = "\<lambda>r. notifies r w" and ?S = "\<lambda>r. shape (wCalls w ! r)"
  obtain L where "mid ?n tx L (answers tx w) ?N ?S w"
    using sound_mid [OF reachable_sound [OF assms(1)]] by blast
  from wp_handleRefer [OF this, of M req] assms(2) have "referDone M ?n tx L (answers tx w) ?N ?S out w'" by (simp add: wp_def)
  then consider (no) status where "out = Returns" "status \<in> {481, 403, 488}" "mid ?n tx L (answers tx w @ [status]) ?N ?S w'"
    | (yes) r a sess where "out = Returns" "r < ?n"
        "mid ?n tx L (answers tx w @ [202]) (notified M r ''SIP/2.0 200 OK'' ?N) (?S(r := transferred a sess (?S r))) w'"
    | (failed) r frag where "out = Returns" "r < ?n" "frag \<noteq> ''SIP/2.0 200 OK''"
        "mid ?n tx L (answers tx w @ [202]) (notified M r frag ?N) ?S w'"
    unfolding referDone_def referred_def by blast
  then show ?thesis
  proof cases
    case no
    then show ?thesis by (auto simp: mid_def)
  next
    case (yes r a sess)
    then have "notifies r w' = notifies r w @ (if inboundContact M r = None then [] else [''SIP/2.0 200 OK''])"
      by (auto simp: mid_def notified_def)
    moreover have "shape (wCalls w' ! r) = transferred a sess (?S r)" "answers tx w' = answers tx w @ [202]"
      "\<forall>r' < ?n. r' \<noteq> r \<longrightarrow> shape (wCalls w' ! r') = ?S r'"
      using yes by (auto simp: mid_def)
    moreover have "\<exists>target sess'. transferred a sess (?S r) = transferred target sess' (?S r)" by blast
    ultimately show ?thesis using yes(1,2) by (intro conjI disjI2 exI [of _ r] exI [of _ "''SIP/2.0 200 OK''"]) simp_all
  next
    case (failed r frag)
    then have "notifies r w' = notifies r w @ (if inboundContact M r = None then [] else [frag])"
      by (auto simp: mid_def notified_def)
    moreover have "shape (wCalls w' ! r) = ?S r" "answers tx w' = answers tx w @ [202]"
      "\<forall>r' < ?n. r' \<noteq> r \<longrightarrow> shape (wCalls w' ! r') = ?S r'"
      using failed by (auto simp: mid_def)
    ultimately show ?thesis using failed(1-3) by (intro conjI disjI2 exI [of _ r] exI [of _ frag]) auto
  qed
qed

theorem refer_takes_over_or_changes_nothing_witness:
  "fst (run_state (handleRefer sampleHandlers 9 (sampleInvite\<lparr>reqMethod := ''REFER'',
     reqHeaders := [\<lparr>hdrName = ''Refer-To'', hdrValue = ''sip:carol@192.0.2.9''\<rparr>]\<rparr>)) sampleReached) = Returns"
  using refer_takes_over_or_changes_nothing [OF sample_reached surjective_pairing] by blast

text \<open>A transfer completes on a dead call: when the call has been torn down while the target was
  ringing, its answer still makes the target the call's and tells the referrer of success, but no BYE is
  sent to the target, then or by any later teardown.\<close>

theorem transfer_of_dead_call_orphans_target:
  assumes "r < length (wCalls w)" "callState (wCalls w ! r) = stateTearingDown" "parseMedia (resBody res) = Inr a"
    "\<forall>t. interf (callEnv M) t = []" "inboundContact M r = Some uri"
  shows "case run_state (referAnswered M r sess res) w of (out, w') \<Rightarrow>
     transferTarget (wCalls w' ! r) = Some sess \<and> notifies r w' = notifies r w @ [''SIP/2.0 200 OK'']
     \<and> filter (\<lambda>e. e = EvBye r sess) (wTrace w') = filter (\<lambda>e. e = EvBye r sess) (wTrace w) \<and> teardown r w' = w'"
proof -
  obtain h p where a: "a = (h, p)" by force
  have s: "callState (reanchorEndpoint h p c) = callState c" for c by (simp add: reanchorEndpoint_def Let_def split: prod.split)
  show ?thesis
    using assms
    by (simp add: a s referAnswered_def sendReferNotify_def ack_def locked_def sync_def emit_def run_bind detachInbound_def
        updCall_def addTrace_def notifies_def teardown_def canTransition_def)
qed

theorem transfer_of_dead_call_orphans_target_witness:
  "transferTarget (wCalls (snd (run_state (referAnswered sampleHandlers 0 5 sampleAnswer) (Shutdown rev sampleReached))) ! 0) = Some 5"
proof -
  have l: "0 < length (wCalls (Shutdown rev sampleReached))"
    by (simp add: Shutdown_def each_def sample_reached_call(5) teardown_frame sample_reached_call(1))
  have d: "callState (wCalls (Shutdown rev sampleReached) ! 0) = stateTearingDown"
    unfolding Shutdown_def each_def by (rule Shutdown_ends) (simp_all add: sample_reached_call)
  have m: "parseMedia (resBody sampleAnswer) = Inr (''10.0.0.9'', 4002)" by (simp add: sampleAnswer_def call_parses)
  have i: "\<forall>t. interf (callEnv sampleHandlers) t = []" "inboundContact sampleHandlers 0 = Some ''sip:alice@192.0.2.7''"
    by (simp_all add: sampleMid_def sampleEnv_def)
  from transfer_of_dead_call_orphans_target [OF l d m i, of 5] show ?thesis by (simp split: prod.splits)
qed

text \<open>A second transfer forgets the first: a call whose transfer has completed still accepts one; its target
  takes the place of the first one, which never gets a BYE, then or by the call's teardown.\<close>

lemma second_transfer_forgets_first:
  assumes "r < length (wCalls w)" "callState (wCalls w ! r) = stateEstablished" "parseMedia (resBody res) = Inr a"
    "parseMedia (resBody res') = Inr b" "\<forall>t. interf (callEnv M) t = []" "inboundContact M r = Some uri" "s \<noteq> s'"
    "EvBye r s \<notin> set (wTrace w)" "EvBye r s \<notin> set (byes r ((wCalls w ! r)\<lparr>transferTarget := None\<rparr>))"
    "w' = snd (run_state (do { _ \<leftarrow> referAnswered M r s res; referAnswered M r s' res' }) w)"
  shows "callState (wCalls w' ! r) = stateEstablished \<and> transferTarget (wCalls w' ! r) = Some s'
     \<and> EvBye r s \<notin> set (wTrace (teardown r w'))"
proof -
  obtain h p h' p' where a: "a = (h, p)" "b = (h', p')" by force
  have s: "callState (reanchorEndpoint h p c) = callState c" "appLegs (reanchorEndpoint h p c) = appLegs c"
    "pbxLeg (reanchorEndpoint h p c) = pbxLeg c" for h p c
    by (simp_all add: reanchorEndpoint_def Let_def split: prod.split)
  have after: "callState (wCalls w' ! r) = stateEstablished" "transferTarget (wCalls w' ! r) = Some s'" "r < length (wCalls w')"
    "appLegs (wCalls w' ! r) = appLegs (wCalls w ! r)" "pbxLeg (wCalls w' ! r) = pbxLeg (wCalls w ! r)" "EvBye r s \<notin> set (wTrace w')"
    using assms(1-9)
    by (simp_all add: assms(10) a s referAnswered_def sendReferNotify_def ack_def locked_def sync_def emit_def run_bind detachInbound_def
        updCall_def addTrace_def)
  have "wTrace (teardown r w') = wTrace w' @ byes r (wCalls w' ! r)" using after by (simp add: teardown_live(1))
  moreover have "EvBye r s \<notin> set (byes r (wCalls w' ! r))"
    using assms(2,7,9) by (auto simp: byes_def after(1,2,4,5))
  ultimately show ?thesis using after by simp
qed

end
