(* ===== verification/Relay.thy ===== *)
theory Relay
  imports WebRTC ReachProps
begin

text \<open>
  The relay of an established call, relay and bridgeLegs of internal/b2bua/media.go: four copy loops on
  goroutines of their own, and a fifth goroutine that waits for the call's context, closes the session and
  waits for the loops. A schedule is a list of moves: the next operation of one loop, a re-anchoring by a
  handler, the cancellation of the context, the closing of the session.
\<close>

section \<open>The state of a relay\<close>

text \<open>The four directions, a the endpoint and b the PBX.\<close>

datatype Direction = RtpAB | RtpBA | RtcpAB | RtcpBA

text \<open>A loop is about to read, holds a packet it is about to write, has returned, or has dereferenced a
  nil leg.\<close>

datatype LoopState = Reading | Holding "byte list" | Stopped | Crashed

text \<open>\<open>rlSent\<close> lists, for each write of a loop, what went to the destination and to the taps.\<close>

record RelayState =
  rlMedia :: MediaSession
  rlHandles :: Handles
  rlCallerTaps :: "AnchorSide list"
  rlCalleeTaps :: "AnchorSide list"
  rlLoop :: "Direction \<Rightarrow> LoopState"
  rlSent :: "(Direction \<times> Sent list \<times> Sent list) list"
  rlCancelled :: bool

definition isRtp :: "Direction \<Rightarrow> bool" where
  "isRtp f = (f = RtpAB \<or> f = RtpBA)"

text \<open>The endpoint's leg is its secured leg if it has one, else its plain side.\<close>

definition legA :: "MediaSession \<Rightarrow> MediaLeg option" where
  "legA m = (case endpointLeg m of Some l \<Rightarrow> Some (WebRTCLeg l) | None \<Rightarrow> map_option PlainLeg (endpointSide m))"

definition legB :: "MediaSession \<Rightarrow> MediaLeg option" where
  "legB m = map_option PlainLeg (pbxSide m)"

definition srcOf :: "Direction \<Rightarrow> MediaSession \<Rightarrow> MediaLeg option" where
  "srcOf f m = (if f = RtpAB \<or> f = RtcpAB then legA m else legB m)"

definition dstOf :: "Direction \<Rightarrow> MediaSession \<Rightarrow> MediaLeg option" where
  "dstOf f m = (if f = RtpAB \<or> f = RtcpAB then legB m else legA m)"

definition tapsOf :: "Direction \<Rightarrow> RelayState \<Rightarrow> AnchorSide list" where
  "tapsOf f s = (case f of RtpAB \<Rightarrow> rlCallerTaps s | RtpBA \<Rightarrow> rlCalleeTaps s | _ \<Rightarrow> [])"

section \<open>Moves\<close>

text \<open>What the next operation of a loop meets: the clock, the packet a read returns (None an error), the
  answer to the write and to each tap's write.\<close>

record LoopAnswer =
  laNow :: int
  laWire :: "byte list option"
  laIO :: bool
  laTapIO :: "bool list"

datatype RelayMove = LoopMove Direction LoopAnswer | MoveEndpoint UDPAddr UDPAddr | MovePBX UDPAddr UDPAddr
  | CancelCall | CloseMedia

text \<open>A closed socket of a plain leg answers every read and write with an error.\<close>

definition readAnswer :: "MediaSession \<Rightarrow> MediaLeg \<Rightarrow> byte list option \<Rightarrow> byte list option" where
  "readAnswer m l wire = (case l of PlainLeg _ \<Rightarrow> if closed m then None else wire | WebRTCLeg _ \<Rightarrow> wire)"

definition writeAnswer :: "MediaSession \<Rightarrow> MediaLeg \<Rightarrow> bool \<Rightarrow> bool" where
  "writeAnswer m l io = (case l of PlainLeg _ \<Rightarrow> io \<and> \<not> closed m | WebRTCLeg _ \<Rightarrow> io)"

definition tapTurns :: "RelayState \<Rightarrow> Direction \<Rightarrow> LoopAnswer \<Rightarrow> (AnchorSide option \<times> bool) list" where
  "tapTurns s f a = map (\<lambda>(t, io). (Some t, io \<and> \<not> closed (rlMedia s))) (zip (tapsOf f s) (laTapIO a))"

definition setLoop :: "Direction \<Rightarrow> LoopState \<Rightarrow> RelayState \<Rightarrow> RelayState" where
  "setLoop f l s = s\<lparr>rlLoop := (rlLoop s)(f := l)\<rparr>"

definition loopRead :: "Direction \<Rightarrow> LoopAnswer \<Rightarrow> RelayState \<Rightarrow> RelayState" where
  "loopRead f a s = (case srcOf f (rlMedia s) of
       None \<Rightarrow> setLoop f Crashed s
     | Some src \<Rightarrow> (case readAnswer (rlMedia s) src (laWire a) of
           None \<Rightarrow> setLoop f Stopped s
         | Some wire \<Rightarrow> setLoop f (Holding (take rtpBufSize wire)) (s\<lparr>rlMedia := markActivity (laNow a) (rlMedia s)\<rparr>)))"

definition loopWrite :: "Direction \<Rightarrow> byte list \<Rightarrow> LoopAnswer \<Rightarrow> RelayState \<Rightarrow> RelayState" where
  "loopWrite f pkt a s = (case dstOf f (rlMedia s) of
       None \<Rightarrow> setLoop f Crashed s
     | Some dst \<Rightarrow>
         (let io = writeAnswer (rlMedia s) dst (laIO a);
              (sent, ok) = (if isRtp f then WriteRTP dst pkt io else WriteRTCP dst pkt io);
              tapped = (if ok \<and> isRtp f then tapWrites pkt (tapTurns s f a) else [])
          in setLoop f (if ok then Reading else Stopped) (s\<lparr>rlSent := rlSent s @ [(f, sent, tapped)]\<rparr>)))"

fun relayMove :: "RelayMove \<Rightarrow> RelayState \<Rightarrow> RelayState" where
  "relayMove (LoopMove f a) s = (case rlLoop s f of
       Reading \<Rightarrow> loopRead f a s
     | Holding pkt \<Rightarrow> loopWrite f pkt a s
     | _ \<Rightarrow> s)"
| "relayMove (MoveEndpoint rtp rtcp) s = s\<lparr>rlMedia := (rlMedia s)\<lparr>endpointSide :=
     map_option (setRemote (Some rtp) (Some rtcp)) (endpointSide (rlMedia s))\<rparr>\<rparr>"
| "relayMove (MovePBX rtp rtcp) s = s\<lparr>rlMedia := (rlMedia s)\<lparr>pbxSide :=
     map_option (setRemote (Some rtp) (Some rtcp)) (pbxSide (rlMedia s))\<rparr>\<rparr>"
| "relayMove CancelCall s = s\<lparr>rlCancelled := True\<rparr>"
| "relayMove CloseMedia s = (if rlCancelled s
     then s\<lparr>rlMedia := fst (closeSession (rlMedia s) (rlHandles s)), rlHandles := snd (closeSession (rlMedia s) (rlHandles s))\<rparr>
     else s)"

text \<open>The start: the taps are those the session has now, the clock is marked.\<close>

definition relay :: "int \<Rightarrow> MediaSession \<Rightarrow> Handles \<Rightarrow> RelayState" where
  "relay now m h = \<lparr>rlMedia = markActivity now m, rlHandles = h, rlCallerTaps = callerTaps m, rlCalleeTaps = calleeTaps m,
     rlLoop = (\<lambda>_. Reading), rlSent = [], rlCancelled = False\<rparr>"

definition relayRun :: "RelayMove list \<Rightarrow> RelayState \<Rightarrow> RelayState" where
  "relayRun ms s = fold relayMove ms s"

text \<open>bridgeLegs returns: the context is done, the session closed, the wait group empty.\<close>

definition relayReturns :: "RelayState \<Rightarrow> bool" where
  "relayReturns s = (rlCancelled s \<and> closed (rlMedia s) \<and> (\<forall>f \<in> {RtpAB, RtpBA, RtcpAB, RtcpBA}. rlLoop s f = Stopped))"

section \<open>What one move changes\<close>

lemma relayRun_simps [simp]: "relayRun [] s = s" "relayRun (m # ms) s = relayRun ms (relayMove m s)"
  "relayRun (ms @ ms') s = relayRun ms' (relayRun ms s)"
  by (simp_all add: relayRun_def)

lemma all_flows: "(\<forall>f \<in> {RtpAB, RtpBA, RtcpAB, RtcpBA}. P f) \<longleftrightarrow> (\<forall>f. P f)"
proof -
  have "f \<in> {RtpAB, RtpBA, RtcpAB, RtcpBA}" for f by (cases f) simp_all
  then show ?thesis by blast
qed

lemma setLoop_simps [simp]:
  "rlMedia (setLoop f l s) = rlMedia s" "rlHandles (setLoop f l s) = rlHandles s" "rlSent (setLoop f l s) = rlSent s"
  "rlCallerTaps (setLoop f l s) = rlCallerTaps s" "rlCalleeTaps (setLoop f l s) = rlCalleeTaps s"
  "rlCancelled (setLoop f l s) = rlCancelled s" "rlLoop (setLoop f l s) g = (if g = f then l else rlLoop s g)"
  by (simp_all add: setLoop_def)

lemma closed_markActivity [simp]:
  "closed (markActivity now m) = closed m" "legA (markActivity now m) = legA m" "legB (markActivity now m) = legB m"
  "srcOf f (markActivity now m) = srcOf f m" "dstOf f (markActivity now m) = dstOf f m"
  by (simp_all add: markActivity_def legA_def legB_def srcOf_def dstOf_def split: option.split)

lemma closeSession_fields [simp]:
  "endpointSide (fst (closeSession m h)) = endpointSide m" "endpointLeg (fst (closeSession m h)) = endpointLeg m"
  "pbxSide (fst (closeSession m h)) = pbxSide m" "closed (fst (closeSession m h))"
  "lastActivity (fst (closeSession m h)) = lastActivity m" "taps (fst (closeSession m h)) = taps m"
  by (simp_all add: closeSession_def Let_def)

text \<open>What a loop sees of the rest: the legs, whether they are closed, and its taps.\<close>

definition sees :: "RelayState \<Rightarrow> AnchorSide option \<times> SecuredLeg option \<times> AnchorSide option \<times> bool \<times> bool \<times> AnchorSide list \<times> AnchorSide list" where
  "sees s = (endpointSide (rlMedia s), endpointLeg (rlMedia s), pbxSide (rlMedia s), closed (rlMedia s), rlCancelled s,
     rlCallerTaps s, rlCalleeTaps s)"

definition sentBy :: "Direction \<Rightarrow> RelayState \<Rightarrow> (Sent list \<times> Sent list) list" where
  "sentBy f s = map snd (filter (\<lambda>(g, _). g = f) (rlSent s))"

lemma sentBy_setLoop [simp]: "sentBy f (setLoop g l s) = sentBy f s"
  by (simp add: sentBy_def)

lemma sees_src: "sees s = sees s' \<Longrightarrow> srcOf f (rlMedia s) = srcOf f (rlMedia s')"
  "sees s = sees s' \<Longrightarrow> dstOf f (rlMedia s) = dstOf f (rlMedia s')"
  "sees s = sees s' \<Longrightarrow> closed (rlMedia s) = closed (rlMedia s')"
  "sees s = sees s' \<Longrightarrow> tapsOf f s = tapsOf f s'"
  by (simp_all add: sees_def srcOf_def dstOf_def legA_def legB_def tapsOf_def split: Direction.split option.split)

lemma loopRead_effect:
  "rlLoop (loopRead f a s) f = (case srcOf f (rlMedia s) of None \<Rightarrow> Crashed
     | Some src \<Rightarrow> (case readAnswer (rlMedia s) src (laWire a) of None \<Rightarrow> Stopped | Some wire \<Rightarrow> Holding (take rtpBufSize wire)))"
  "g \<noteq> f \<Longrightarrow> rlLoop (loopRead f a s) g = rlLoop s g" "sentBy g (loopRead f a s) = sentBy g s" "sees (loopRead f a s) = sees s"
  by (simp_all add: loopRead_def sentBy_def sees_def markActivity_def split: option.split)

definition written :: "Direction \<Rightarrow> byte list \<Rightarrow> LoopAnswer \<Rightarrow> RelayState \<Rightarrow> MediaLeg \<Rightarrow> Sent list \<times> bool" where
  "written f pkt a s dst = (if isRtp f then WriteRTP dst pkt (writeAnswer (rlMedia s) dst (laIO a))
     else WriteRTCP dst pkt (writeAnswer (rlMedia s) dst (laIO a)))"

lemma loopWrite_effect:
  "rlLoop (loopWrite f pkt a s) f = (case dstOf f (rlMedia s) of None \<Rightarrow> Crashed
     | Some dst \<Rightarrow> if snd (written f pkt a s dst) then Reading else Stopped)"
  "g \<noteq> f \<Longrightarrow> rlLoop (loopWrite f pkt a s) g = rlLoop s g" "g \<noteq> f \<Longrightarrow> sentBy g (loopWrite f pkt a s) = sentBy g s"
  "sentBy f (loopWrite f pkt a s) = sentBy f s @ (case dstOf f (rlMedia s) of None \<Rightarrow> []
     | Some dst \<Rightarrow> [(fst (written f pkt a s dst),
         if snd (written f pkt a s dst) \<and> isRtp f then tapWrites pkt (tapTurns s f a) else [])])"
  "sees (loopWrite f pkt a s) = sees s"
  by (simp_all add: loopWrite_def written_def sentBy_def sees_def Let_def split: option.split prod.split)

lemma sees_other: "sees (relayMove (LoopMove g a) s) = sees s"
  by (simp add: loopRead_effect loopWrite_effect split: LoopState.split)

lemma loop_other:
  assumes "g \<noteq> f"
  shows "rlLoop (relayMove (LoopMove g a) s) f = rlLoop s f" "sentBy f (relayMove (LoopMove g a) s) = sentBy f s"
  using assms by (simp_all add: loopRead_effect loopWrite_effect split: LoopState.split)

section \<open>Each loop by itself\<close>

text \<open>The moves that concern one loop: its own and those of nobody in particular.\<close>

definition concerns :: "Direction \<Rightarrow> RelayMove \<Rightarrow> bool" where
  "concerns f m = (case m of LoopMove g _ \<Rightarrow> g = f | _ \<Rightarrow> True)"

definition agree :: "Direction \<Rightarrow> RelayState \<Rightarrow> RelayState \<Rightarrow> bool" where
  "agree f s s' = (sees s = sees s' \<and> rlLoop s f = rlLoop s' f \<and> sentBy f s = sentBy f s')"

lemma agree_other: "agree f s s' \<Longrightarrow> \<not> concerns f m \<Longrightarrow> agree f (relayMove m s) s'"
  by (cases m) (simp_all add: agree_def concerns_def sees_other loop_other del: relayMove.simps(1))

lemma sees_shared:
  assumes "sees s = sees s'" "\<And>g a. m \<noteq> LoopMove g a"
  shows "sees (relayMove m s) = sees (relayMove m s')"
proof (cases m)
  case (LoopMove g a)
  with assms(2) show ?thesis by blast
qed (use assms(1) in \<open>simp_all add: sees_def\<close>)

lemma agree_same:
  assumes "agree f s s'"
  shows "agree f (relayMove m s) (relayMove m s')"
proof (cases "\<exists>g a. m = LoopMove g a")
  case True
  then obtain g a where m: "m = LoopMove g a" by blast
  have e: "sees s = sees s'" "rlLoop s f = rlLoop s' f" "sentBy f s = sentBy f s'" using assms by (simp_all add: agree_def)
  have t: "tapTurns s f a = tapTurns s' f a" by (simp add: tapTurns_def sees_src [OF e(1)])
  have r: "readAnswer (rlMedia s) = readAnswer (rlMedia s')" "written f pkt a s = written f pkt a s'" for pkt
    by (simp_all add: fun_eq_iff readAnswer_def written_def writeAnswer_def sees_src [OF e(1)] split: MediaLeg.split)
  show ?thesis
  proof (cases "g = f")
    case True
    have "rlLoop (relayMove m s) f = rlLoop (relayMove m s') f \<and> sentBy f (relayMove m s) = sentBy f (relayMove m s')"
      using e by (simp add: m True loopRead_effect loopWrite_effect r t sees_src [OF e(1)] split: LoopState.split option.split)
    then show ?thesis by (simp add: agree_def m sees_other e del: relayMove.simps(1))
  next
    case False
    with e show ?thesis by (simp add: agree_def m sees_other loop_other del: relayMove.simps(1))
  qed
next
  case False
  then have "sentBy f (relayMove m s) = sentBy f s" "rlLoop (relayMove m s) f = rlLoop s f" for s
    by (cases m; auto simp: sentBy_def)+
  with assms sees_shared [of s s' m] False show ?thesis by (auto simp: agree_def)
qed

lemma agree_run: "agree f s s' \<Longrightarrow> agree f (relayRun ms s) (relayRun (filter (concerns f) ms) s')"
  by (induction ms arbitrary: s s') (auto intro: agree_same agree_other)

section \<open>A loop is a copy loop\<close>

text \<open>The turn a move completes for a loop, and the packet a move reads for it.\<close>

definition turnOf :: "Direction \<Rightarrow> RelayMove \<Rightarrow> RelayState \<Rightarrow> Turn list" where
  "turnOf f m s = (case (m, rlLoop s f, dstOf f (rlMedia s)) of
       (LoopMove g a, Holding pkt, Some dst) \<Rightarrow>
          if g = f then [\<lparr>wireRead = Some pkt, dstLeg = dst, dstIO = writeAnswer (rlMedia s) dst (laIO a), tapSides = tapTurns s f a\<rparr>] else []
     | _ \<Rightarrow> [])"

definition readOf :: "Direction \<Rightarrow> RelayMove \<Rightarrow> RelayState \<Rightarrow> (int \<times> byte list) list" where
  "readOf f m s = (case (m, rlLoop s f, srcOf f (rlMedia s)) of
       (LoopMove g a, Reading, Some src) \<Rightarrow>
          (case readAnswer (rlMedia s) src (laWire a) of Some wire \<Rightarrow> if g = f then [(laNow a, wire)] else [] | None \<Rightarrow> [])
     | _ \<Rightarrow> [])"

fun turnsOf :: "Direction \<Rightarrow> RelayMove list \<Rightarrow> RelayState \<Rightarrow> Turn list" where
  "turnsOf f [] s = []"
| "turnsOf f (m # ms) s = turnOf f m s @ turnsOf f ms (relayMove m s)"

fun readsOf :: "Direction \<Rightarrow> RelayMove list \<Rightarrow> RelayState \<Rightarrow> (int \<times> byte list) list" where
  "readsOf f [] s = []"
| "readsOf f (m # ms) s = readOf f m s @ readsOf f ms (relayMove m s)"

definition heldBy :: "Direction \<Rightarrow> RelayState \<Rightarrow> byte list list" where
  "heldBy f s = (case rlLoop s f of Holding pkt \<Rightarrow> [pkt] | _ \<Rightarrow> [])"

text \<open>Both legs are there, and what a loop holds fits its buffer.\<close>

definition relay_inv :: "RelayState \<Rightarrow> bool" where
  "relay_inv s = (legA (rlMedia s) \<noteq> None \<and> legB (rlMedia s) \<noteq> None
     \<and> (\<forall>f pkt. rlLoop s f = Holding pkt \<longrightarrow> length pkt \<le> rtpBufSize) \<and> (\<forall>f. rlLoop s f \<noteq> Crashed))"

lemma relay_inv_legs: "relay_inv s \<Longrightarrow> \<exists>l. srcOf f (rlMedia s) = Some l" "relay_inv s \<Longrightarrow> \<exists>l. dstOf f (rlMedia s) = Some l"
  by (auto simp: relay_inv_def srcOf_def dstOf_def)

lemma legs_sees: "sees s = sees s' \<Longrightarrow> legA (rlMedia s) = legA (rlMedia s') \<and> legB (rlMedia s) = legB (rlMedia s')"
  by (simp add: sees_def legA_def legB_def split: option.split)

lemma relay_inv_move: "relay_inv s \<Longrightarrow> relay_inv (relayMove m s)"
proof (cases m)
  case (LoopMove g a)
  assume i: "relay_inv s"
  from relay_inv_legs [OF i, of g] obtain l l' where l: "srcOf g (rlMedia s) = Some l" "dstOf g (rlMedia s) = Some l'" by auto
  have own: "rlLoop (relayMove m s) g \<noteq> Crashed \<and> (\<forall>pkt. rlLoop (relayMove m s) g = Holding pkt \<longrightarrow> length pkt \<le> rtpBufSize)"
    using i by (auto simp: LoopMove l loopRead_effect loopWrite_effect relay_inv_def split: LoopState.split option.splits)
  have "rlLoop (relayMove m s) f \<noteq> Crashed \<and> (\<forall>pkt. rlLoop (relayMove m s) f = Holding pkt \<longrightarrow> length pkt \<le> rtpBufSize)" for f
  proof (cases "f = g")
    case False
    then show ?thesis using i by (simp add: LoopMove loop_other relay_inv_def del: relayMove.simps)
  qed (use own in simp)
  moreover have "sees (relayMove m s) = sees s" by (simp add: LoopMove sees_other del: relayMove.simps)
  ultimately show ?thesis using i legs_sees [of "relayMove m s" s] by (simp add: relay_inv_def)
qed (auto simp: relay_inv_def legA_def legB_def split: option.splits)

lemma relay_inv_run: "relay_inv s \<Longrightarrow> relay_inv (relayRun ms s)"
  by (induction ms arbitrary: s) (auto intro: relay_inv_move)

lemma stopped_stays: "rlLoop s f = Stopped \<Longrightarrow> rlLoop (relayMove m s) f = Stopped \<and> sentBy f (relayMove m s) = sentBy f s
    \<and> turnOf f m s = [] \<and> readOf f m s = []"
proof (cases m)
  case (LoopMove g a)
  assume "rlLoop s f = Stopped"
  then show ?thesis by (cases "g = f") (simp_all add: LoopMove loop_other turnOf_def readOf_def del: relayMove.simps, simp_all)
qed (simp_all add: turnOf_def readOf_def sentBy_def)

lemma stopped_run: "rlLoop s f = Stopped \<Longrightarrow> rlLoop (relayRun ms s) f = Stopped \<and> sentBy f (relayRun ms s) = sentBy f s
    \<and> turnsOf f ms s = [] \<and> readsOf f ms s = []"
  by (induction ms arbitrary: s) (auto simp: stopped_stays)

lemma held_move: "relay_inv s \<Longrightarrow> map wireRead (turnOf f m s) @ map Some (heldBy f (relayMove m s))
    = map Some (heldBy f s) @ map (\<lambda>r. Some (take rtpBufSize (snd r))) (readOf f m s)"
proof (cases "\<exists>a. m = LoopMove f a")
  case True
  then obtain a where m: "m = LoopMove f a" by blast
  assume i: "relay_inv s"
  from relay_inv_legs [OF i, of f] obtain l l' where l: "srcOf f (rlMedia s) = Some l" "dstOf f (rlMedia s) = Some l'" by auto
  show ?thesis
    by (simp add: m l heldBy_def turnOf_def readOf_def loopRead_effect loopWrite_effect split: LoopState.split option.split)
next
  case False
  then have "rlLoop (relayMove m s) f = rlLoop s f" by (cases m) (auto simp: loop_other simp del: relayMove.simps(1))
  with False show ?thesis by (auto simp: heldBy_def turnOf_def readOf_def split: RelayMove.split LoopState.split option.split)
qed

lemma held_run: "relay_inv s \<Longrightarrow> map wireRead (turnsOf f ms s) @ map Some (heldBy f (relayRun ms s))
    = map Some (heldBy f s) @ map (\<lambda>r. Some (take rtpBufSize (snd r))) (readsOf f ms s)"
proof (induction ms arbitrary: s)
  case (Cons m ms)
  have "map wireRead (turnsOf f (m # ms) s) @ map Some (heldBy f (relayRun (m # ms) s))
      = map wireRead (turnOf f m s) @ map Some (heldBy f (relayMove m s))
          @ map (\<lambda>r. Some (take rtpBufSize (snd r))) (readsOf f ms (relayMove m s))"
    using Cons.IH [OF relay_inv_move [OF Cons.prems]] by simp
  also have "\<dots> = map Some (heldBy f s) @ map (\<lambda>r. Some (take rtpBufSize (snd r))) (readsOf f (m # ms) s)"
    using held_move [OF Cons.prems, of f m] by (simp flip: append_assoc)
  finally show ?case .
qed simp

text \<open>What a move of the loop sends is what the copy loop sends for the turn.\<close>

lemma sent_turn:
  assumes "relay_inv s" "turnOf f m s = [i]"
  shows "sentBy f (relayMove m s) = sentBy f s @ [(fst (if isRtp f then WriteRTP (dstLeg i) (packetOf i) (dstIO i)
           else WriteRTCP (dstLeg i) (packetOf i) (dstIO i)),
         if rlLoop (relayMove m s) f = Reading \<and> isRtp f then tapWrites (packetOf i) (tapSides i) else [])]
     \<and> rlLoop (relayMove m s) f = (if snd (if isRtp f then WriteRTP (dstLeg i) (packetOf i) (dstIO i)
           else WriteRTCP (dstLeg i) (packetOf i) (dstIO i)) then Reading else Stopped)
     \<and> wireRead i = Some (packetOf i) \<and> take rtpBufSize (packetOf i) = packetOf i"
proof -
  obtain a pkt dst where m: "m = LoopMove f a" "rlLoop s f = Holding pkt" "dstOf f (rlMedia s) = Some dst"
    and i: "i = \<lparr>wireRead = Some pkt, dstLeg = dst, dstIO = writeAnswer (rlMedia s) dst (laIO a), tapSides = tapTurns s f a\<rparr>"
    using assms(2) by (auto simp: turnOf_def split: RelayMove.splits LoopState.splits option.splits if_splits)
  have "length pkt \<le> rtpBufSize" using assms(1) m(2) by (simp add: relay_inv_def)
  then have "packetOf i = pkt" by (simp add: packetOf_def i)
  with \<open>length pkt \<le> rtpBufSize\<close> show ?thesis by (simp add: m i loopWrite_effect written_def)
qed

lemma sent_other: "\<nexists>a. m = LoopMove f a \<Longrightarrow> sentBy f (relayMove m s) = sentBy f s"
proof (cases m)
  case (LoopMove g a)
  assume "\<nexists>a. m = LoopMove f a"
  with LoopMove show ?thesis by (simp add: loop_other del: relayMove.simps)
qed (simp_all add: sentBy_def)

lemma turnOf_cases: obtains "turnOf f m s = []" "sentBy f (relayMove m s) = sentBy f s" | i where "turnOf f m s = [i]"
proof (cases "\<exists>a. m = LoopMove f a")
  case True
  then obtain a where m: "m = LoopMove f a" by blast
  show ?thesis
    by (cases "rlLoop s f"; cases "dstOf f (rlMedia s)";
        auto simp: m turnOf_def loopRead_effect loopWrite_effect intro: that)
next
  case False
  then have "sentBy f (relayMove m s) = sentBy f s" by (rule sent_other)
  with False show ?thesis by (auto simp: turnOf_def intro!: that(1) split: RelayMove.split LoopState.split option.split)
qed

lemma flow_run:
  assumes "relay_inv s"
  shows "if isRtp f then sentBy f (relayRun ms s) = sentBy f s @ copyLegRTP (turnsOf f ms s)
    else map fst (sentBy f (relayRun ms s)) = map fst (sentBy f s) @ copyLegRTCP (turnsOf f ms s)"
  using assms
proof (induction ms arbitrary: s)
  case (Cons m ms)
  note IH = Cons.IH [OF relay_inv_move [OF Cons.prems], of m]
  show ?case
  proof (cases rule: turnOf_cases [where f = f and m = m and s = s])
    case (2 i)
    from sent_turn [OF Cons.prems 2] IH stopped_run [of "relayMove m s" f ms] show ?thesis
      by (auto simp: 2 Let_def split: prod.splits if_splits)
  qed (use IH in simp)
qed simp

lemma relay_inv_start: "legA m \<noteq> None \<Longrightarrow> legB m \<noteq> None \<Longrightarrow> relay_inv (relay now m h)"
  by (simp add: relay_def relay_inv_def)

section \<open>The end of a relay\<close>

lemma cancelled_run: "rlCancelled (relayRun ms s) \<longleftrightarrow> rlCancelled s \<or> CancelCall \<in> set ms"
proof (induction ms arbitrary: s)
  case (Cons m ms)
  have "rlCancelled (relayMove m s) \<longleftrightarrow> rlCancelled s \<or> m = CancelCall"
    by (cases m) (auto simp: loopRead_def loopWrite_def Let_def split: LoopState.split option.split prod.split)
  with Cons.IH show ?case by auto
qed simp

lemma closed_move: "closed (rlMedia s) \<Longrightarrow> closed (rlMedia (relayMove m s)) \<and> endpointLeg (rlMedia (relayMove m s)) = endpointLeg (rlMedia s)"
proof (cases m)
  case (LoopMove g a)
  assume "closed (rlMedia s)"
  with sees_other [of g a s] show ?thesis by (simp add: LoopMove sees_def del: relayMove.simps)
qed simp_all

lemma relayRun_leg: "endpointLeg (rlMedia (relayRun ms s)) = endpointLeg (rlMedia s)"
proof (induction ms arbitrary: s)
  case (Cons m ms)
  have "endpointLeg (rlMedia (relayMove m s)) = endpointLeg (rlMedia s)"
  proof (cases m)
    case (LoopMove g a)
    with sees_other [of g a s] show ?thesis by (simp add: sees_def del: relayMove.simps)
  qed simp_all
  with Cons.IH show ?case by simp
qed simp

definition hangsUp :: "MediaSession \<Rightarrow> RelayMove \<Rightarrow> bool" where
  "hangsUp m mv = (\<forall>f a. mv = LoopMove f a \<and> endpointLeg m \<noteq> None \<and> (f = RtpAB \<or> f = RtcpAB) \<longrightarrow> laWire a = None)"

definition ownMoves :: "Direction \<Rightarrow> RelayMove list \<Rightarrow> nat" where
  "ownMoves f ms = length (filter (\<lambda>m. \<exists>a. m = LoopMove f a) ms)"

lemma closed_read: "closed (rlMedia s) \<Longrightarrow> hangsUp (rlMedia s) (LoopMove f a) \<Longrightarrow> relay_inv s \<Longrightarrow> rlLoop s f = Reading
    \<Longrightarrow> rlLoop (relayMove (LoopMove f a) s) f = Stopped"
  using relay_inv_legs [of s f]
  by (auto simp: loopRead_effect readAnswer_def srcOf_def legA_def legB_def hangsUp_def split: option.splits MediaLeg.splits if_splits)

lemma closed_drains:
  assumes "relay_inv s" "closed (rlMedia s)" "\<forall>m \<in> set ms. hangsUp (rlMedia s) m"
    "(case rlLoop s f of Reading \<Rightarrow> 1 | Holding _ \<Rightarrow> 2 | _ \<Rightarrow> 0) \<le> ownMoves f ms"
  shows "rlLoop (relayRun ms s) f = Stopped"
  using assms
proof (induction ms arbitrary: s)
  case Nil
  then show ?case by (auto simp: ownMoves_def relay_inv_def split: LoopState.splits)
next
  case (Cons m ms)
  note c = closed_move [OF Cons.prems(2), of m]
  have h: "\<forall>m' \<in> set ms. hangsUp (rlMedia (relayMove m s)) m'" using Cons.prems(3) c by (auto simp: hangsUp_def)
  note IH = Cons.IH [OF relay_inv_move [OF Cons.prems(1)] conjunct1 [OF c] h]
  show ?case
  proof (cases "\<exists>a. m = LoopMove f a")
    case True
    then obtain a where m: "m = LoopMove f a" by blast
    have n: "ownMoves f (m # ms) = Suc (ownMoves f ms)" by (simp add: ownMoves_def m)
    show ?thesis
    proof (cases "rlLoop s f")
      case Reading
      with closed_read [of s f a] Cons.prems stopped_run [of "relayMove m s" f ms] show ?thesis by (simp add: m)
    next
      case (Holding pkt)
      have "rlLoop (relayMove m s) f = Reading \<or> rlLoop (relayMove m s) f = Stopped"
        using relay_inv_legs(2) [OF Cons.prems(1), of f] by (auto simp: m Holding loopWrite_effect split: if_splits)
      then show ?thesis
        using IH Cons.prems(4) n stopped_run [of "relayMove m s" f ms] by (auto simp: Holding)
    next
      case Stopped
      then show ?thesis using stopped_run by blast
    next
      case Crashed
      with Cons.prems(1) show ?thesis by (simp add: relay_inv_def)
    qed
  next
    case False
    then have "rlLoop (relayMove m s) f = rlLoop s f" by (cases m) (auto simp: loop_other simp del: relayMove.simps(1))
    moreover have "ownMoves f (m # ms) = ownMoves f ms" using False by (simp add: ownMoves_def)
    ultimately show ?thesis using IH Cons.prems(4) by simp
  qed
qed

lemma legA_closed: "closed (rlMedia s) \<Longrightarrow> loopWrite f pkt a s = s' \<Longrightarrow>
    \<exists>ys. rlSent s' = rlSent s @ ys \<and> (\<forall>(g, sent, tapped) \<in> set ys. \<forall>d \<in> set (sent @ tapped). \<exists>e p. d = ToEndpoint e p)"
  by (auto simp: loopWrite_def Let_def writeAnswer_def WriteRTP_def WriteRTCP_def tapTurns_def tapWrites_def case_prod_beta
      split: option.splits MediaLeg.splits if_splits)

lemma closed_sends: "closed (rlMedia s) \<Longrightarrow>
    \<exists>ys. rlSent (relayRun ms s) = rlSent s @ ys \<and> (\<forall>(g, sent, tapped) \<in> set ys. \<forall>d \<in> set (sent @ tapped). \<exists>e p. d = ToEndpoint e p)"
proof (induction ms arbitrary: s)
  case (Cons m ms)
  have "\<exists>ys. rlSent (relayMove m s) = rlSent s @ ys \<and> (\<forall>(g, sent, tapped) \<in> set ys. \<forall>d \<in> set (sent @ tapped). \<exists>e p. d = ToEndpoint e p)"
  proof (cases m)
    case (LoopMove g a)
    then show ?thesis
      using legA_closed [OF Cons.prems, of g _ a, OF refl]
      by (cases "rlLoop s g") (simp_all add: loopRead_def split: option.split)
  qed simp_all
  then obtain ys where y: "rlSent (relayMove m s) = rlSent s @ ys"
    "\<forall>(g, sent, tapped) \<in> set ys. \<forall>d \<in> set (sent @ tapped). \<exists>e p. d = ToEndpoint e p" by blast
  from Cons.IH [of "relayMove m s"] closed_move [OF Cons.prems] obtain zs where
    "rlSent (relayRun ms (relayMove m s)) = rlSent (relayMove m s) @ zs"
    "\<forall>(g, sent, tapped) \<in> set zs. \<forall>d \<in> set (sent @ tapped). \<exists>e p. d = ToEndpoint e p" by blast
  with y show ?case by (intro exI [of _ "ys @ zs"]) auto
qed simp

section \<open>Activity\<close>

text \<open>The times at which packets were read, in any direction.\<close>

fun heardAt :: "RelayMove list \<Rightarrow> RelayState \<Rightarrow> int list" where
  "heardAt [] s = []"
| "heardAt (m # ms) s = map fst (concat (map (\<lambda>f. readOf f m s) [RtpAB, RtpBA, RtcpAB, RtcpBA])) @ heardAt ms (relayMove m s)"

lemma activity_move: "lastActivity (rlMedia (relayMove m s))
    = last (lastActivity (rlMedia s) # map fst (concat (map (\<lambda>f. readOf f m s) [RtpAB, RtpBA, RtcpAB, RtcpBA])))"
proof (cases m)
  case (LoopMove g a)
  show ?thesis
    by (cases g; cases "rlLoop s g")
       (auto simp: LoopMove readOf_def loopRead_def loopWrite_def Let_def markActivity_def split: LoopState.splits option.split prod.split)
qed (simp_all add: readOf_def)

lemma relay_activity: "lastActivity (rlMedia (relayRun ms s)) = last (lastActivity (rlMedia s) # heardAt ms s)"
  by (induction ms arbitrary: s) (simp_all add: activity_move last_append)

section \<open>Properties\<close>

definition sampleSide :: "nat \<Rightarrow> AnchorSide" where
  "sampleSide n = \<lparr>rtpConn = n, rtcpConn = n + 1, remoteRTP = Some \<lparr>addrIP = [10, 0, 0, 7], addrPort = 4000\<rparr>,
     remoteRTCP = None, localRTPPort = 100, pair = \<lparr>RTP = 100, RTCP = 101\<rparr>\<rparr>"

definition sampleSession :: MediaSession where
  "sampleSession = newMediaSession (Some (sampleSide 1)) (Some (sampleSide 3)) None"

definition sampleMove :: "Direction \<Rightarrow> int \<Rightarrow> byte list option \<Rightarrow> RelayMove" where
  "sampleMove f now wire = LoopMove f \<lparr>laNow = now, laWire = wire, laIO = True, laTapIO = []\<rparr>"

text \<open>One packet each way and a control packet, then the call ends.\<close>

definition sampleMoves :: "RelayMove list" where
  "sampleMoves = [sampleMove RtpAB 5 (Some [1, 2]), sampleMove RtcpBA 6 (Some [9]), sampleMove RtpBA 7 (Some [3]),
     sampleMove RtpAB 8 None, CancelCall]"

definition sampleRest :: "RelayMove list" where
  "sampleRest = concat (replicate 2 (map (\<lambda>f. sampleMove f 9 (Some [4])) [RtpAB, RtpBA, RtcpAB, RtcpBA]))"

definition sampleHandles :: Handles where
  "sampleHandles = \<lparr>openH = [1, 2, 3, 4, 8], nextH = 9\<rparr>"

lemma sample_legs: "legA sampleSession \<noteq> None" "legB sampleSession \<noteq> None" "endpointLeg sampleSession = None"
  by (simp_all add: sampleSession_def newMediaSession_def legA_def legB_def)



text \<open>C16: The directions of a relay do not disturb each other: what one of them sends and whether it
  still runs is the same when all operations of the other three are taken out of the schedule, so a
  failure or a stalled peer on one never silences another.\<close>

theorem relay_directions_isolated:
  "sentBy f (relayRun ms s) = sentBy f (relayRun (filter (concerns f) ms) s)
   \<and> rlLoop (relayRun ms s) f = rlLoop (relayRun (filter (concerns f) ms) s) f"
  using agree_run [of f s s ms] by (simp add: agree_def)



lemma idle_iff_deaf:
  assumes "media c = Some (rlMedia (relayRun ms (relay now m h)))" "callState c = stateEstablished" "0 \<le> timeout" "0 < now"
    "sorted (now # heardAt ms (relay now m h))"
  shows "idleExpired t timeout c \<longleftrightarrow> (\<forall>heard \<in> set (now # heardAt ms (relay now m h)). heard + timeout < t)"
proof -
  let ?hs = "now # heardAt ms (relay now m h)"
  have a: "lastActivity (rlMedia (relayRun ms (relay now m h))) = last ?hs"
    by (subst relay_activity) (simp add: relay_def markActivity_def)
  have top: "x \<le> last ?hs" if "x \<in> set ?hs" for x
    using that sorted_nth_mono [OF assms(5), of _ "length ?hs - 1"] by (auto simp: in_set_conv_nth last_conv_nth simp del: list.set)
  have "0 < last ?hs" using top [of now] assms(4) by simp
  then have "idleExpired t timeout c \<longleftrightarrow> last ?hs + timeout < t"
    using assms(1,2) by (auto simp: idleExpired_def idleFor_def a)
  also have "\<dots> \<longleftrightarrow> (\<forall>heard \<in> set ?hs. heard + timeout < t)"
    using top last_in_set [of ?hs] by fastforce
  finally show ?thesis .
qed

text \<open>What a relay's loops do to the media of its call, steps of the sequencer do.\<close>

lemma loop_move_is_step:
  assumes "r < length (wCalls w)" "media (wCalls w ! r) = Some (rlMedia s)"
  shows "\<exists>w'. step w w' \<and> r < length (wCalls w') \<and> media (wCalls w' ! r) = Some (rlMedia (relayMove (LoopMove f a) s))"
proof (cases "rlMedia (relayMove (LoopMove f a) s) = rlMedia s")
  case True
  have "step w (after (emit []) w)" by (rule step.elsewhere) simp
  then show ?thesis using assms by (intro exI [of _ "after (emit []) w"]) (simp only: True, simp add: after_def emit_def addTrace_def)
next
  case False
  then have "rlMedia (relayMove (LoopMove f a) s) = markActivity (laNow a) (rlMedia s)"
    by (auto simp: loopRead_def loopWrite_def Let_def split: LoopState.splits option.splits prod.splits)
  moreover have "step w (after (modify_st (packetRelayed r (laNow a))) w)" by (rule step.relayed)
  ultimately show ?thesis
    using assms by (intro exI [of _ "after (modify_st (packetRelayed r (laNow a))) w"]) (simp add: after_def packetRelayed_def)
qed

lemma loop_moves_reachable:
  assumes "\<forall>mv \<in> set ms. \<exists>f a. mv = LoopMove f a" "reachable mn mx w" "r < length (wCalls w)" "media (wCalls w ! r) = Some (rlMedia s)"
  shows "\<exists>w'. reachable mn mx w' \<and> r < length (wCalls w') \<and> media (wCalls w' ! r) = Some (rlMedia (relayRun ms s))"
  using assms
proof (induction ms arbitrary: w s)
  case (Cons mv ms)
  obtain f a where mv: "mv = LoopMove f a" using Cons.prems(1) by auto
  from loop_move_is_step [OF Cons.prems(3,4), of f a] obtain w1 where
    "step w w1" "r < length (wCalls w1)" "media (wCalls w1 ! r) = Some (rlMedia (relayMove mv s))" by (auto simp: mv)
  with Cons.IH [of w1] Cons.prems(1,2) show ?case by (auto intro: reachable.next_step)
qed auto

text \<open>C18: A sweep ends a call exactly when its relay has been deaf for longer than the timeout: in any reachable
  world, a registered established call whose relay has run any schedule is torn down by a sweep if and only
  if the sweep's time is more than the timeout after the start of the relay and after every packet read in
  any direction, control packets included; otherwise the sweep leaves the call as it is.\<close>

theorem sweep_ends_deaf_calls:
  assumes "reachable mn mx w" "regGet k w = Some r" "callState (wCalls w ! r) = stateEstablished" "iterates it"
    "media (wCalls w ! r) = Some (rlMedia (relayRun ms (relay now m h)))" "0 \<le> timeout" "0 < now"
    "sorted (now # heardAt ms (relay now m h))"
  shows "if \<forall>heard \<in> set (now # heardAt ms (relay now m h)). heard + timeout < t
     then callState (wCalls (sweep it t timeout w) ! r) = stateTearingDown
     else wCalls (sweep it t timeout w) ! r = wCalls w ! r"
proof -
  have "registered w" using reachable_sound [OF assms(1)] by (simp add: sound_def)
  moreover have "(k, r) \<in> set (wReg w)" using assms(2) by (simp add: regGet_def map_of_SomeD)
  ultimately show ?thesis
    using sweep_step [OF _ _ assms(4), of w k r t timeout] unfolding idle_iff_deaf [OF assms(5,3,6-8)] by (simp split: if_splits)
qed

theorem sweep_ends_deaf_calls_witness:
  "callState (wCalls (sweep rev 601 100 sampleSilent) ! 0) = stateTearingDown
   \<and> wCalls (sweep rev 600 100 sampleSilent) ! 0 = wCalls sampleSilent ! 0"
proof -
  obtain m where "media (wCalls sampleReached ! 0) = Some m" using sample_reached_call(7) by auto
  then have m: "media (wCalls sampleSilent ! 0) = Some (rlMedia (relayRun [] (relay 500 m sampleHandles)))"
    using sample_reached_call(1) by (simp add: sampleSilent_def after_def packetRelayed_def relay_def)
  have "iterates rev" by (simp add: iterates_def)
  from sweep_ends_deaf_calls [OF sample_silent sample_silent_call(1,2) this m, of 100 601]
    sweep_ends_deaf_calls [OF sample_silent sample_silent_call(1,2) this m, of 100 600]
  show ?thesis by simp
qed

section \<open>A packet the secured endpoint does not parse\<close>

text \<open>One control packet of the PBX that does not parse ends that direction for the rest of the call: the
  endpoint's write fails instead of dropping the packet.\<close>

lemma unparsed_packet_stops_direction:
  assumes "endpointLeg (rlMedia s) = Some l" "rlLoop s RtcpBA = Holding pkt" "\<not> unmarshalRTCPOk L pkt"
    "laIO a = (pion_WriteRTCP L pkt e = Done (length pkt))"
  shows "rlLoop (relayRun ms (relayMove (LoopMove RtcpBA a) s)) RtcpBA = Stopped"
proof -
  have "rlLoop (relayMove (LoopMove RtcpBA a) s) RtcpBA = Stopped"
    using assms by (simp add: loopWrite_effect dstOf_def legA_def written_def writeAnswer_def isRtp_def WriteRTCP_def pion_WriteRTCP_def)
  then show ?thesis using stopped_run by blast
qed

end
