(* ===== verification/ConfigProps.thy ===== *)
theory ConfigProps
  imports Config
begin

text \<open>
  Properties of the configuration: what a configuration that \<open>Parse\<close> accepts guarantees to the
  engine, and the meaning of a resolved routing rule.
\<close>

section \<open>Checks and maps over the applications\<close>

lemma firstError_None [simp]: "firstError ((bad, e) # cs) = None \<longleftrightarrow> \<not> bad \<and> firstError cs = None"
  by simp

declare firstError.simps(2) [simp del]

lemma checkEach_None: "checkEach f i xs = None \<longleftrightarrow> (\<forall>k < length xs. f (i + k) (xs ! k) = None)"
  by (induction xs arbitrary: i) (auto simp: nth_Cons less_Suc_eq_0_disj all_conj_distrib split: option.splits nat.splits)

lemma checkEach_set: "checkEach f i xs = None \<Longrightarrow> x \<in> set xs \<Longrightarrow> \<exists>k. f k x = None"
  by (auto simp: checkEach_None in_set_conv_nth)

lemma orElse_None [simp]: "orElse a b = None \<longleftrightarrow> a = None \<and> b = None"
  by (auto simp: orElse_def split: option.splits)

lemma mapEach_set:
  "\<lbrakk>mapEach f i xs = Inr ys; \<forall>x \<in> set xs. P x; \<And>i x y. P x \<Longrightarrow> f i x = Inr y \<Longrightarrow> Q y\<rbrakk> \<Longrightarrow> \<forall>y \<in> set ys. Q y"
  by (induction xs arbitrary: i ys) (auto split: sum.splits)

section \<open>Stages\<close>

text \<open>An endpoint's transport and profile fit together, and the profile exists.\<close>

definition wired :: "(string \<times> TLSProfile) list \<Rightarrow> Transport \<Rightarrow> string \<Rightarrow> bool" where
  "wired ps transport profile =
     (transport \<in> set transports \<and> (transport = TransportTLS \<longrightarrow> map_of ps profile \<noteq> None)
      \<and> (transport \<noteq> TransportTLS \<longrightarrow> profile = []))"

definition resolvedAs :: "Config \<Rightarrow> Transport \<Rightarrow> string \<Rightarrow> ResolvedTLSProfile option \<Rightarrow> bool" where
  "resolvedAs c transport profile r =
     (if transport = TransportTLS then \<exists>p. r = Some p \<and> resolveProfile c profile = Inr p else r = None)"

definition appValid :: "Config \<Rightarrow> Application \<Rightarrow> bool" where
  "appValid c app = (appName app \<noteq> [] \<and> appURI app \<noteq> []
     \<and> appOnFailure app \<in> {FailureSkip, FailureAbort} \<and> appMedia app \<in> {MediaTap, MediaNone}
     \<and> wired (cfgTLSProfiles c) (appTransport app) (appTLSProfile app))"

definition appTimed :: "Application \<Rightarrow> bool" where
  "appTimed app = (if appTimeout app = [] then appTimeoutDur app = 0 else 0 < appTimeoutDur app)"

definition listenerOk :: "Config \<Rightarrow> TLSListener \<Rightarrow> bool" where
  "listenerOk c l = (lsListen l \<noteq> [] \<longrightarrow> SplitHostPort (lsListen l) \<noteq> None
     \<and> map_of (cfgTLSProfiles c) (lsProfile l) \<noteq> None)"

definition listenerResolved :: "Config \<Rightarrow> TLSListener \<Rightarrow> bool" where
  "listenerResolved c l = (if lsListen l \<noteq> []
     then \<exists>p. lsResolved l = Some p \<and> resolveProfile c (lsProfile l) = Inr p else lsResolved l = None)"

definition profileOk :: "TLSProfile \<Rightarrow> bool" where
  "profileOk p = (pfCert p \<noteq> [] \<and> pfKey p \<noteq> [] \<and> pfMinVersion p \<in> {[], TLSv12, TLSv13}
     \<and> (\<forall>d. pfVerifyDepth p = Some d \<longrightarrow> 0 \<le> d)
     \<and> (pfConnectTimeout p \<noteq> [] \<longrightarrow> ParseDuration (pfConnectTimeout p) \<noteq> None))"

text \<open>What validation establishes.\<close>

definition cfgValid :: "Config \<Rightarrow> bool" where
  "cfgValid c = (cfgSIPListen c \<noteq> [] \<and> nhURI (cfgNextHop c) \<noteq> [] \<and> rtpPortRange (cfgRTP c) \<noteq> []
     \<and> cfgLogLevel c \<in> set logLevels \<and> (\<forall>app \<in> set (cfgSequence c). appValid c app)
     \<and> wired (cfgTLSProfiles c) (nhTransport (cfgNextHop c)) (nhTLSProfile (cfgNextHop c))
     \<and> listenerOk c (cfgTLS c) \<and> listenerOk c (cfgWSS c)
     \<and> (\<forall>np \<in> set (cfgTLSProfiles c). profileOk (snd np)))"

lemma checkWiring_wired:
  "checkWiring place t p = None \<Longrightarrow> t = TransportTLS \<longrightarrow> map_of ps p \<noteq> None \<Longrightarrow> wired ps t p"
  by (auto simp: checkWiring_def wired_def)

lemma checkProfile_ok: "checkProfile k np = None \<Longrightarrow> profileOk (snd np)"
  by (auto simp: checkProfile_def profileOk_def split: prod.splits option.splits)

lemma validate_valid:
  assumes "validate c s n = None"
  shows "cfgValid c"
proof -
  have W: "validateTLSWiring c = None" and A: "checkEach checkApp 0 (cfgSequence c) = None"
    and P: "checkEach checkProfile 0 (cfgTLSProfiles c) = None"
    using assms by (simp_all add: validate_def validateTLSProfiles_def)
  have app: "appValid c app" if m: "app \<in> set (cfgSequence c)" for app
  proof -
    obtain k where k: "checkApp k app = None" using checkEach_set [OF A m] by blast
    have w1: "\<exists>k. checkWiring (seqAt k) (appTransport app) (appTLSProfile app) = None"
      using W m by (auto simp: validateTLSWiring_def dest!: checkEach_set)
    have w2: "appTransport app = TransportTLS \<longrightarrow> map_of (cfgTLSProfiles c) (appTLSProfile app) \<noteq> None"
      using W m by (auto simp: validateTLSWiring_def unknownProfile_def dest!: checkEach_set split: if_splits)
    from k w1 w2 show ?thesis
      by (auto simp: appValid_def checkApp_def intro: checkWiring_wired)
  qed
  have nh: "wired (cfgTLSProfiles c) (nhTransport (cfgNextHop c)) (nhTLSProfile (cfgNextHop c))"
    using W by (intro checkWiring_wired) (auto simp: validateTLSWiring_def unknownProfile_def split: if_splits)
  have ls: "listenerOk c (cfgTLS c)" "listenerOk c (cfgWSS c)"
    using W by (auto simp: validateTLSWiring_def listenerOk_def unknownProfile_def badHostPort_def split: if_splits)
  have pr: "\<forall>np \<in> set (cfgTLSProfiles c). profileOk (snd np)"
    using checkEach_set [OF P] checkProfile_ok by blast
  show ?thesis
    using assms app nh ls pr by (auto simp: validate_def cfgValid_def)
qed

text \<open>Resolution keeps what was validated.\<close>

definition sameCore :: "Config \<Rightarrow> Config \<Rightarrow> bool" where
  "sameCore c c' = (cfgSIPListen c' = cfgSIPListen c \<and> cfgLogLevel c' = cfgLogLevel c
     \<and> cfgTLSProfiles c' = cfgTLSProfiles c)"

lemma resolveProfile_cong: "cfgTLSProfiles c' = cfgTLSProfiles c \<Longrightarrow> resolveProfile c' = resolveProfile c"
  by (simp add: resolveProfile_def fun_eq_iff)

lemma resolvedAs_cong: "cfgTLSProfiles c' = cfgTLSProfiles c \<Longrightarrow> resolvedAs c' = resolvedAs c"
  by (drule resolveProfile_cong) (simp add: resolvedAs_def fun_eq_iff)

lemma listenerResolved_cong: "cfgTLSProfiles c' = cfgTLSProfiles c \<Longrightarrow> listenerResolved c' = listenerResolved c"
  by (drule resolveProfile_cong) (simp add: listenerResolved_def fun_eq_iff)

lemma resolveDuration_ok:
  "resolveDuration place dflt least text = Inr d \<Longrightarrow> (if text = [] then d = dflt else least \<le> d)"
  by (auto simp: resolveDuration_def split: if_splits option.splits)

lemma resolveTimeouts_ok:
  assumes "resolveTimeouts c = Inr c1" "cfgValid c" "\<forall>app \<in> set (cfgSequence c). appTimeoutDur app = 0 \<and> appResolved app = None"
  shows "cfgValid c1 \<and> (\<forall>app \<in> set (cfgSequence c1). appTimed app \<and> appResolved app = None)
       \<and> 0 < cfgLegTimeoutDur c1 \<and> 0 \<le> rtpIdleTimeoutDur (cfgRTP c1)
       \<and> cfgTLS c1 = cfgTLS c \<and> cfgWSS c1 = cfgWSS c \<and> cfgNextHop c1 = cfgNextHop c"
proof -
  let ?f = "\<lambda>i app. case resolveDuration (seqAt i) (appTimeoutDur app) 1 (appTimeout app) of
                  Inl e \<Rightarrow> Inl e | Inr d \<Rightarrow> Inr (app\<lparr>appTimeoutDur := d\<rparr>)"
  from assms(1) obtain leg apps idle where
    l: "resolveDuration ''leg_timeout'' defaultLegTimeout 1 (cfgLegTimeout c) = Inr leg"
    and a: "mapEach ?f 0 (cfgSequence c) = Inr apps"
    and i: "resolveDuration ''rtp.idle_timeout'' defaultIdleTimeout 0 (rtpIdleTimeout (cfgRTP c)) = Inr idle"
    and c1: "c1 = c\<lparr>cfgLegTimeoutDur := leg, cfgSequence := apps, cfgRTP := (cfgRTP c)\<lparr>rtpIdleTimeoutDur := idle\<rparr>\<rparr>"
    by (auto simp: resolveTimeouts_def split: sum.splits)
  have "\<forall>app \<in> set (cfgSequence c). appValid c app \<and> appTimeoutDur app = 0 \<and> appResolved app = None"
    using assms(2,3) by (auto simp: cfgValid_def)
  then have "\<forall>app \<in> set apps. appValid c app \<and> appTimed app \<and> appResolved app = None"
    by (rule mapEach_set [OF a])
      (auto simp: appValid_def appTimed_def split: sum.splits dest!: resolveDuration_ok)
  moreover have "0 < leg" using resolveDuration_ok [OF l] by (auto simp: defaultLegTimeout_def second_def split: if_splits)
  moreover have "0 \<le> idle" using resolveDuration_ok [OF i] by (auto simp: defaultIdleTimeout_def minute_def second_def split: if_splits)
  ultimately show ?thesis using assms(2) by (simp add: c1 cfgValid_def appValid_def listenerOk_def)
qed

definition cacheOk :: "Config \<Rightarrow> cache \<Rightarrow> bool" where
  "cacheOk c k = (\<forall>n r. map_of k n = Some r \<longrightarrow> resolveProfile c n = Inr r)"

lemma resolve_ok: "resolve c k n = Inr (r, k') \<Longrightarrow> cacheOk c k \<Longrightarrow> resolveProfile c n = Inr r \<and> cacheOk c k'"
  by (auto simp: resolve_def cacheOk_def split: option.splits sum.splits if_splits)

lemma resolveApps_ok:
  assumes "resolveApps c k apps = Inr (apps', k')" "cacheOk c k"
    "\<forall>app \<in> set apps. P app \<and> appResolved app = None" "\<And>app r. P app \<Longrightarrow> P (app\<lparr>appResolved := r\<rparr>)"
  shows "cacheOk c k' \<and> (\<forall>app \<in> set apps'. P app \<and> resolvedAs c (appTransport app) (appTLSProfile app) (appResolved app))"
  using assms(1-3)
proof (induction apps arbitrary: k apps' k')
  case (Cons app apps)
  show ?case
  proof (cases "appTransport app = TransportTLS")
    case True
    with Cons.prems(1) obtain r k1 rest where r: "resolve c k (appTLSProfile app) = Inr (r, k1)"
      "resolveApps c k1 apps = Inr (rest, k')" "apps' = app\<lparr>appResolved := Some r\<rparr> # rest"
      by (auto simp: map_sum_def apfst_def split: sum.splits)
    with Cons.IH [OF r(2)] resolve_ok [OF r(1) Cons.prems(2)] Cons.prems(3) True assms(4) show ?thesis
      by (auto simp: resolvedAs_def)
  next
    case False
    with Cons.prems(1) obtain rest where r: "resolveApps c k apps = Inr (rest, k')" "apps' = app # rest"
      by (auto simp: map_sum_def apfst_def split: sum.splits)
    with Cons.IH [OF r(1) Cons.prems(2)] Cons.prems(3) False show ?thesis by (auto simp: resolvedAs_def)
  qed
qed simp

lemma resolveListener_ok:
  "\<lbrakk>resolveListener c k l = Inr (l', k'); cacheOk c k; lsResolved l = None\<rbrakk>
   \<Longrightarrow> cacheOk c k' \<and> listenerResolved c l' \<and> lsListen l' = lsListen l \<and> lsProfile l' = lsProfile l"
  by (auto simp: resolveListener_def listenerResolved_def split: if_splits sum.splits dest!: resolve_ok)

lemma resolveNextHop_ok:
  "\<lbrakk>resolveNextHop c k nh = Inr (nh', k'); cacheOk c k; nhResolved nh = None\<rbrakk>
   \<Longrightarrow> resolvedAs c (nhTransport nh') (nhTLSProfile nh') (nhResolved nh') \<and> nhURI nh' = nhURI nh
     \<and> nhTransport nh' = nhTransport nh \<and> nhTLSProfile nh' = nhTLSProfile nh"
  by (auto simp: resolveNextHop_def resolvedAs_def split: if_splits sum.splits dest!: resolve_ok)

text \<open>What the engine relies on.\<close>

definition cfgResolved :: "Config \<Rightarrow> bool" where
  "cfgResolved c = ((\<forall>app \<in> set (cfgSequence c).
        resolvedAs c (appTransport app) (appTLSProfile app) (appResolved app) \<and> appTimed app)
     \<and> resolvedAs c (nhTransport (cfgNextHop c)) (nhTLSProfile (cfgNextHop c)) (nhResolved (cfgNextHop c))
     \<and> listenerResolved c (cfgTLS c) \<and> listenerResolved c (cfgWSS c)
     \<and> 0 < cfgLegTimeoutDur c \<and> 0 \<le> rtpIdleTimeoutDur (cfgRTP c))"

lemma resolveTLS_ok:
  assumes "resolveTLS c = Inr c2" "cfgValid c" "\<forall>app \<in> set (cfgSequence c). appTimed app \<and> appResolved app = None"
    "lsResolved (cfgTLS c) = None" "lsResolved (cfgWSS c) = None" "nhResolved (cfgNextHop c) = None"
    "0 < cfgLegTimeoutDur c" "0 \<le> rtpIdleTimeoutDur (cfgRTP c)"
  shows "cfgValid c2 \<and> cfgResolved c2"
proof -
  from assms(1) obtain tls k1 wss k2 apps k3 nh k4 where
    t: "resolveListener c [] (cfgTLS c) = Inr (tls, k1)" and w: "resolveListener c k1 (cfgWSS c) = Inr (wss, k2)"
    and a: "resolveApps c k2 (cfgSequence c) = Inr (apps, k3)" and n: "resolveNextHop c k3 (cfgNextHop c) = Inr (nh, k4)"
    and c2: "c2 = c\<lparr>cfgTLS := tls, cfgWSS := wss, cfgSequence := apps, cfgNextHop := nh\<rparr>"
    by (auto simp: resolveTLS_def split: sum.splits)
  have k0: "cacheOk c []" by (simp add: cacheOk_def)
  note T = resolveListener_ok [OF t k0 assms(4)]
  note W = resolveListener_ok [OF w conjunct1 [OF T] assms(5)]
  have "\<forall>app \<in> set (cfgSequence c). (appValid c app \<and> appTimed app) \<and> appResolved app = None"
    using assms(2,3) by (auto simp: cfgValid_def)
  note A = resolveApps_ok [OF a conjunct1 [OF W] this]
  have A: "cacheOk c k3 \<and> (\<forall>app \<in> set apps. (appValid c app \<and> appTimed app)
      \<and> resolvedAs c (appTransport app) (appTLSProfile app) (appResolved app))"
    by (rule A) (auto simp: appValid_def appTimed_def)
  note N = resolveNextHop_ok [OF n conjunct1 [OF A] assms(6)]
  have rp: "resolvedAs c2 = resolvedAs c" "listenerResolved c2 = listenerResolved c"
    by (rule resolvedAs_cong, simp add: c2) (rule listenerResolved_cong, simp add: c2)
  have "cfgValid c2"
    using assms(2) T W A N by (simp add: c2 cfgValid_def appValid_def listenerOk_def)
  moreover have "cfgResolved c2"
    using T W A conjunct1 [OF N] assms(7,8) unfolding cfgResolved_def rp by (simp add: c2)
  ultimately show ?thesis by blast
qed

lemma resolveRouting_ok:
  assumes "resolveRouting compile c = Inr c3" "cfgValid c \<and> cfgResolved c"
  shows "cfgValid c3 \<and> cfgResolved c3"
proof -
  from assms(1) obtain apps where
    a: "mapEach (\<lambda>i app. case resolveRoutingRule compile (appRouting app) of
             Inl (field, pat) \<Rightarrow> Inl (BadRouting i field pat)
           | Inr re \<Rightarrow> Inr (app\<lparr>appRoutingRe := re\<rparr>)) 0 (cfgSequence c) = Inr apps"
    and c3: "c3 = c\<lparr>cfgSequence := apps\<rparr>" by (auto simp: resolveRouting_def split: sum.splits)
  have "\<forall>app \<in> set (cfgSequence c). appValid c app
      \<and> resolvedAs c (appTransport app) (appTLSProfile app) (appResolved app) \<and> appTimed app"
    using assms(2) by (auto simp: cfgValid_def cfgResolved_def)
  then have "\<forall>app \<in> set apps. appValid c app
      \<and> resolvedAs c (appTransport app) (appTLSProfile app) (appResolved app) \<and> appTimed app"
    by (rule mapEach_set [OF a]) (auto simp: appValid_def appTimed_def split: sum.splits prod.splits)
  moreover have rp: "resolvedAs c3 = resolvedAs c" "listenerResolved c3 = listenerResolved c"
    by (rule resolvedAs_cong, simp add: c3) (rule listenerResolved_cong, simp add: c3)
  ultimately show ?thesis
    using assms(2) unfolding cfgResolved_def cfgValid_def rp
    by (simp add: c3 appValid_def listenerOk_def)
qed

text \<open>The YAML decoder leaves the fields tagged "-" at their zero values.\<close>

definition decoded :: "rawConfig \<Rightarrow> bool" where
  "decoded raw = (lsResolved (rawTLS raw) = None \<and> lsResolved (rawWSS raw) = None
     \<and> (\<forall>nh. rawNextHop raw = Some nh \<longrightarrow> nhResolved nh = None)
     \<and> (\<forall>apps. rawSequence raw = Some apps
          \<longrightarrow> (\<forall>app \<in> set apps. appTimeoutDur app = 0 \<and> appResolved app = None)))"

lemma equalMethod_lower: "equalMethod a b \<longleftrightarrow> map lowerChar a = map lowerChar b"
proof -
  have "length a = length b \<Longrightarrow> equalMethod_loop a b \<longleftrightarrow> map lowerChar a = map lowerChar b"
    by (induction a b rule: list_induct2) auto
  then show ?thesis
    by (auto simp: equalMethod_def dest: map_eq_imp_length_eq)
qed


text \<open>What Parse accepts is valid and resolved.\<close>

lemma Parse_fit:
  assumes "Parse compile raw = Inr cfg" "decoded raw"
  shows "cfgValid cfg \<and> cfgResolved cfg"
proof -
  let ?c0 = "\<lparr>cfgSIPListen = rawSIPListen raw, cfgTLS = rawTLS raw, cfgWSListen = rawWSListen raw,
           cfgWSS = rawWSS raw, cfgNextHop = (case rawNextHop raw of Some nh \<Rightarrow> nh | None \<Rightarrow> zeroNextHop),
           cfgRTP = rawRTP raw, cfgPublicAddress = rawPublicAddress raw,
           cfgSequence = (case rawSequence raw of Some s \<Rightarrow> s | None \<Rightarrow> []),
           cfgTLSProfiles = rawTLSProfiles raw, cfgLogLevel = rawLogLevel raw,
           cfgObsListen = rawObsListen raw, cfgLegTimeout = rawLegTimeout raw, cfgLegTimeoutDur = 0\<rparr>"
  let ?c = "applyDefaults ?c0"
  from assms(1) obtain c1 c2 where v: "validate ?c (rawSequence raw \<noteq> None) (rawNextHop raw \<noteq> None) = None"
    and t: "resolveTimeouts ?c = Inr c1" and l: "resolveTLS c1 = Inr c2" and r: "resolveRouting compile c2 = Inr cfg"
    by (auto simp: Parse_def Let_def split: option.splits sum.splits)
  have seq: "\<forall>app \<in> set (cfgSequence ?c). appTimeoutDur app = 0 \<and> appResolved app = None"
    using assms(2) by (cases "rawSequence raw") (auto simp: applyDefaults_def applyDefaultsApp_def Let_def decoded_def)
  have zero: "lsResolved (cfgTLS ?c) = None" "lsResolved (cfgWSS ?c) = None" "nhResolved (cfgNextHop ?c) = None"
    using assms(2) by (auto simp: applyDefaults_def Let_def decoded_def zeroNextHop_def split: option.splits)
  note T = resolveTimeouts_ok [OF t validate_valid [OF v] seq]
  have "cfgValid c2 \<and> cfgResolved c2" using T zero by (intro resolveTLS_ok [OF l]) auto
  then show ?thesis by (rule resolveRouting_ok [OF r])
qed

section \<open>Properties\<close>

text \<open>C36: A configuration that Parse accepts is fit for the engine: every application and the
  next hop have a known transport, a TLS profile exactly when it is tls, and then the resolved
  form of that very profile; policies and media modes are known ones; listeners that are on have
  a resolved profile; the leg timeout is positive, an application's timeout positive when given
  and otherwise zero, and the idle timeout is not negative.\<close>

theorem parse_accepts_only_fit:
  assumes "Parse compile raw = Inr cfg" "decoded raw"
  shows "cfgValid cfg \<and> cfgResolved cfg"
  using assms by (rule Parse_fit)

text \<open>A routing rule means the conjunction of its fields: the resolved rule matches a request
  exactly when every field the rule gives matches, the method ignoring case and From and To as
  the compiled patterns; no rule matches every request.\<close>

theorem routing_rule_meaning:
  assumes "resolveRoutingRule compile rule = Inr res"
  shows "Matches res req \<longleftrightarrow> (case rule of None \<Rightarrow> True | Some r \<Rightarrow>
       (rrMethod r = [] \<or> map lowerChar (rrMethod r) = map lowerChar (riMethod req))
     \<and> (rrFrom r = [] \<or> (\<exists>re. compile (rrFrom r) = Some re \<and> re (riFrom req)))
     \<and> (rrTo r = [] \<or> (\<exists>re. compile (rrTo r) = Some re \<and> re (riTo req))))"
  using assms
  by (auto simp: resolveRoutingRule_def Matches_def compileField_def equalMethod_lower
      split: option.splits sum.splits if_splits)

section \<open>The properties at concrete configurations\<close>

definition sampleApp :: Application where
  "sampleApp = \<lparr>appName = ''rec'', appURI = ''sip:rec@10.0.0.9'', appOnFailure = [], appMedia = ''tap'',
     appTransport = ''tls'', appTLSProfile = ''p'', appTimeout = ''5s'', appRouting = None,
     appTimeoutDur = 0, appResolved = None, appRoutingRe = None\<rparr>"

definition sampleRaw :: rawConfig where
  "sampleRaw = \<lparr>rawSIPListen = ''0.0.0.0:5060'',
     rawTLS = \<lparr>lsListen = [], lsProfile = [], lsResolved = None\<rparr>, rawWSListen = [],
     rawWSS = \<lparr>lsListen = ''0.0.0.0:8443'', lsProfile = ''p'', lsResolved = None\<rparr>,
     rawNextHop = Some \<lparr>nhURI = ''sip:pbx@10.0.0.2'', nhTransport = [], nhTLSProfile = [], nhResolved = None\<rparr>,
     rawRTP = \<lparr>rtpPortRange = ''20000-20100'', rtpIdleTimeout = [], rtpIdleTimeoutDur = 0\<rparr>,
     rawPublicAddress = [], rawSequence = Some [sampleApp],
     rawTLSProfiles = [(''p'', zeroProfile\<lparr>pfCert := ''c.pem'', pfKey := ''k.pem''\<rparr>)],
     rawLogLevel = [], rawObsListen = [], rawLegTimeout = []\<rparr>"

definition okConfig :: "cfg_error + Config \<Rightarrow> Config" where
  "okConfig r = (case r of Inr c \<Rightarrow> c | Inl _ \<Rightarrow> applyDefaults undefined)"

lemma sample_parses: "Parse (\<lambda>_. None) sampleRaw = Inr (okConfig (Parse (\<lambda>_. None) sampleRaw))"
proof -
  have "isl (Parse (\<lambda>_. None) sampleRaw) = False" by code_simp
  then show ?thesis by (cases "Parse (\<lambda>_. None) sampleRaw") (auto simp: okConfig_def)
qed

lemma parse_accepts_only_fit_witness:
  "cfgValid (okConfig (Parse (\<lambda>_. None) sampleRaw)) \<and> cfgResolved (okConfig (Parse (\<lambda>_. None) sampleRaw))"
  by (rule parse_accepts_only_fit [OF sample_parses])
     (simp add: decoded_def sampleRaw_def sampleApp_def)

lemma routing_rule_meaning_witness:
  "Matches (Some \<lparr>FromRe = None, ToRe = None, ruleMethod = ''invite''\<rparr>)
     \<lparr>riMethod = ''INVITE'', riFrom = [], riTo = []\<rparr>"
proof -
  have r: "resolveRoutingRule (\<lambda>_. None) (Some \<lparr>rrFrom = [], rrTo = [], rrMethod = ''invite''\<rparr>)
      = Inr (Some \<lparr>FromRe = None, ToRe = None, ruleMethod = ''invite''\<rparr>)"
    by (simp add: resolveRoutingRule_def compileField_def)
  have "map lowerChar ''invite'' = map lowerChar ''INVITE''" by code_simp
  with routing_rule_meaning [OF r, of "\<lparr>riMethod = ''INVITE'', riFrom = [], riTo = []\<rparr>"]
  show ?thesis by simp
qed

end
