(* ===== verification/Lifecycle.thy ===== *)
theory Lifecycle
  imports ReachProps
begin

text \<open>
  The life of a call over any run of the sequencer: its state moves along the table of state.go only, and
  what identifies it never changes. The contracts of the set-up and of the handlers are used on a predicate
  that compares the world with the one the run started in.
\<close>

section \<open>Going onward\<close>

definition onward :: "Call \<Rightarrow> Call \<Rightarrow> bool" where
  "onward c c' = (callState c \<le> callState c' \<and> callId c' = callId c \<and> inboundID c' = inboundID c
     \<and> offerSDP c' = offerSDP c \<and> inHeaders c' = inHeaders c \<and> (inboundDetached c \<longrightarrow> inboundDetached c')
     \<and> (cancelled c \<longrightarrow> cancelled c'))"

definition since :: "World \<Rightarrow> World \<Rightarrow> bool" where
  "since w0 w = (length (wCalls w0) \<le> length (wCalls w)
     \<and> (\<forall>r < length (wCalls w0). onward (wCalls w0 ! r) (wCalls w ! r)))"

definition advances :: "(Call \<Rightarrow> Call) \<Rightarrow> bool" where
  "advances f = (\<forall>c. onward c (f c))"

lemma onward_refl: "onward c c"
  by (simp add: onward_def)

lemma onward_trans: "onward c c' \<Longrightarrow> onward c' c'' \<Longrightarrow> onward c c''"
  by (auto simp: onward_def)

lemma since_refl: "since w w"
  by (simp add: since_def onward_refl)

lemma since_updCall: "since w0 w \<Longrightarrow> advances f \<Longrightarrow> since w0 (updCall r f w)"
proof -
  assume w: "since w0 w" and f: "advances f"
  have "onward (wCalls w ! r') (wCalls (updCall r f w) ! r')" if "r' < length (wCalls w)" for r'
    using that f onward_refl by (cases "r' = r") (simp_all add: updCall_def advances_def)
  with w show ?thesis by (auto simp: since_def updCall_def intro: onward_trans)
qed

lemma advances_updates:
  "advances (\<lambda>c. c\<lparr>pendingTaps := f c\<rparr>)" "advances (\<lambda>c. c\<lparr>appLegs := g c\<rparr>)" "advances (register m fixed)"
  "advances (\<lambda>c. c\<lparr>media := h c, releaseMedia := i c\<rparr>)" "advances (\<lambda>c. c\<lparr>media := h c\<rparr>)" "advances (\<lambda>c. c\<lparr>pbxLeg := j c\<rparr>)"
  "advances (setPBXRemote host port)" "advances establish" "advances (reanchorEndpoint host port)"
  "advances (\<lambda>c. c\<lparr>inboundDetached := True\<rparr>)"
  "advances (\<lambda>c. (reanchorEndpoint host port c)\<lparr>transferTarget := s\<rparr>)"
  "advances (setPBXAnswer a \<circ> reanchorPBX host port \<circ> reanchorEndpoint host' port')"
  "advances (\<lambda>c. c\<lparr>callState := stateTearingDown, cancelled := True\<rparr>)"
  by (auto simp: advances_def onward_def register_def setPBXRemote_def establish_def Let_def reanchorEndpoint_def
       setPBXAnswer_def reanchorPBX_def tearingDown_last canTransition_less split: prod.split)

lemma since_simps [simp]:
  "since w0 (w\<lparr>wPorts := x1\<rparr>) = since w0 w" "since w0 (w\<lparr>wHandles := x2\<rparr>) = since w0 w"
  "since w0 (w\<lparr>wTick := x3\<rparr>) = since w0 w" "since w0 (w\<lparr>wOthers := x4\<rparr>) = since w0 w"
  "since w0 (w\<lparr>wTrace := x5\<rparr>) = since w0 w" "since w0 (addTrace es w) = since w0 w"
  by (simp_all add: since_def addTrace_def)

lemma since_regRemove [simp]: "since w0 (regRemove k d w) = since w0 w"
  by (simp add: since_def regRemove_def Let_def)

interpretation ahead_calm: calm_inv "since w0" advances for w0
  by unfold_locales (simp_all add: since_updCall advances_updates)

interpretation ahead: setup_inv "since w0" advances for w0
  by unfold_locales (simp_all add: since_updCall advances_updates ahead_calm.inv_teardown)

interpretation ahead_call: handler_inv "since w0" advances for w0
  by unfold_locales (simp_all add: since_updCall advances_updates ahead_calm.inv_interf)


section \<open>Steps and runs\<close>

lemma since_addCall: "since w0 w \<Longrightarrow> since w0 (addCall c w)"
  by (auto simp: since_def addCall_def addDialog_def regAdd_def Let_def nth_append)

lemma since_handleInvite: "keeps (since w0) (handleInvite M tx req)"
  unfolding handleInvite_def proxied_def
  by (intro keeps_bind keeps_cases ahead_call.keep_sync ahead_call.keep_any ahead_call.keep_txRespond
      ahead_call.keep_handleReInvite keeps_gets_st keeps_return keeps_modify_st since_addCall ahead.any.keeps_bridge)

lemma since_fold: "(\<And>x w. since w0 w \<Longrightarrow> since w0 (f x w)) \<Longrightarrow> since w0 w \<Longrightarrow> since w0 (fold f xs w)"
  by (induction xs arbitrary: w) auto

lemma since_after: "keeps (since w) m \<Longrightarrow> since w (after m w)"
  using keepsD [of "since w" m "w\<lparr>wTrace := []\<rparr>"] since_refl [of w] by (simp add: after_def wp_run)

lemma since_modify: "(\<And>w'. since w w' \<Longrightarrow> since w (f w')) \<Longrightarrow> since w (after (modify_st f) w)"
  by (rule since_after) (rule keeps_modify_st)

lemma step_since: "step w w' \<Longrightarrow> since w w'"
proof (induction rule: step.induct)
  case (relayed w r now)
  show ?case unfolding packetRelayed_def by (intro since_modify since_updCall advances_updates)
next
  case (inboundEnded w r)
  show ?case by (rule since_modify) (simp add: inboundDialogEnded_def ahead_calm.inv_teardown)
next
  case (swept w it now timeout)
  show ?case unfolding sweep_def each_def by (rule since_modify) (auto intro!: since_fold ahead_calm.inv_teardown)
next
  case (shutDown w it)
  show ?case unfolding Shutdown_def each_def by (rule since_modify) (auto intro!: since_fold ahead_calm.inv_teardown)
next
  case (elsewhere w es)
  show ?case by (rule since_after) (simp add: emit_def keeps_modify_st)
qed (auto intro: since_after since_modify since_handleInvite ahead_call.keep_handleRefer ahead_call.keep_handleInfo
      ahead_calm.inv_teardown)

lemma since_trans: "since w0 w1 \<Longrightarrow> since w1 w2 \<Longrightarrow> since w0 w2"
  by (auto simp: since_def intro: onward_trans)

lemma run_since: "step\<^sup>*\<^sup>* w w' \<Longrightarrow> since w w'"
  by (induction rule: rtranclp_induct) (auto intro: since_refl since_trans step_since)

text \<open>C3: Calls only move forward: over any run of the sequencer, whatever requests, packets, hang-ups,
  sweeps and other goroutines do, a call stays where it is kept, its state changes only along the table
  of state.go, so that a torn-down call is never revived and an established one never set up again, and
  its ids, the offer and the headers it came with stay as they were.\<close>

theorem calls_only_move_forward:
  assumes "step\<^sup>*\<^sup>* w w'" "r < length (wCalls w)"
  shows "r < length (wCalls w') \<and> canTransition\<^sup>*\<^sup>* (callState (wCalls w ! r)) (callState (wCalls w' ! r))
     \<and> callState (wCalls w ! r) \<le> callState (wCalls w' ! r)
     \<and> (callState (wCalls w ! r) = stateTearingDown \<longrightarrow> callState (wCalls w' ! r) = stateTearingDown)
     \<and> (callState (wCalls w ! r) = stateEstablished \<longrightarrow> callState (wCalls w' ! r) \<noteq> stateSetup)
     \<and> callId (wCalls w' ! r) = callId (wCalls w ! r) \<and> inboundID (wCalls w' ! r) = inboundID (wCalls w ! r)
     \<and> offerSDP (wCalls w' ! r) = offerSDP (wCalls w ! r) \<and> inHeaders (wCalls w' ! r) = inHeaders (wCalls w ! r)"
proof -
  have "onward (wCalls w ! r) (wCalls w' ! r)" "r < length (wCalls w')"
    using run_since [OF assms(1)] assms(2) by (auto simp: since_def)
  then show ?thesis by (auto simp: onward_def canTransition_run tearingDown_last(2,3))
qed

theorem calls_only_move_forward_witness:
  "0 < length (wCalls (after (modify_st (Shutdown rev)) sampleReached))
   \<and> callState (wCalls (after (modify_st (Shutdown rev)) sampleReached) ! 0) \<noteq> stateSetup
   \<and> callId (wCalls (after (modify_st (Shutdown rev)) sampleReached) ! 0) = callId (wCalls sampleReached ! 0)"
proof -
  have "step\<^sup>*\<^sup>* sampleReached (after (modify_st (Shutdown rev)) sampleReached)" by (rule r_into_rtranclp) (rule step.shutDown)
  from calls_only_move_forward [OF this, of 0] show ?thesis by (simp add: sample_reached_call)
qed

section \<open>Shutdown among the others\<close>

text \<open>A walk over the calls is not atomic: each call is torn down by itself, and requests are served, calls
  set up and ended in between.\<close>

inductive tornDownOneByOne :: "(string \<times> nat) list \<Rightarrow> World \<Rightarrow> World \<Rightarrow> bool" where
  none_left: "tornDownOneByOne [] w w"
| next_call: "tornDownOneByOne xs (after (modify_st (teardown r)) w) w' \<Longrightarrow> tornDownOneByOne ((k, r) # xs) w w'"
| meanwhile: "step w w1 \<Longrightarrow> tornDownOneByOne xs w1 w' \<Longrightarrow> tornDownOneByOne xs w w'"

lemma tornDown_run: "tornDownOneByOne xs w w' \<Longrightarrow> step\<^sup>*\<^sup>* w w'"
  by (induction rule: tornDownOneByOne.induct) (auto intro: step.legEnded converse_rtranclp_into_rtranclp)

lemma stays_torn_down:
  assumes "step\<^sup>*\<^sup>* w w'" "r < length (wCalls w)" "callState (wCalls w ! r) = stateTearingDown"
  shows "callState (wCalls w' ! r) = stateTearingDown"
proof -
  have "onward (wCalls w ! r) (wCalls w' ! r)" using run_since [OF assms(1)] assms(2) by (simp add: since_def)
  then show ?thesis by (simp add: onward_def assms(3) tearingDown_last(2))
qed

lemma step_length: "step w w1 \<Longrightarrow> r < length (wCalls w) \<Longrightarrow> r < length (wCalls w1)"
  using step_since [of w w1] by (simp add: since_def)

lemma tornDown_ends: "tornDownOneByOne xs w w' \<Longrightarrow> (k, r) \<in> set xs \<Longrightarrow> r < length (wCalls w)
    \<Longrightarrow> callState (wCalls w' ! r) = stateTearingDown"
proof (induction rule: tornDownOneByOne.induct)
  case (next_call xs s w w' k')
  let ?w = "after (modify_st (teardown s)) w"
  have l: "r < length (wCalls ?w)" using step_length [OF step.legEnded next_call.prems(2)] .
  show ?case
  proof (cases "s = r")
    case True
    have "callState (wCalls ?w ! r) = stateTearingDown"
      using teardown_self(1) [of r "w\<lparr>wTrace := []\<rparr>"] next_call.prems(2) by (simp add: after_def True)
    then show ?thesis by (rule stays_torn_down [OF tornDown_run [OF next_call.hyps] l])
  next
    case False
    then show ?thesis using next_call.IH next_call.prems(1) l by auto
  qed
next
  case (meanwhile w w1 xs w')
  then show ?case using step_length by blast
qed simp

lemma run_reachable: "step\<^sup>*\<^sup>* w w' \<Longrightarrow> reachable mn mx w \<Longrightarrow> reachable mn mx w'"
  by (induction rule: rtranclp_induct) (auto intro: reachable.next_step)



end
