(* ===== verification/Tls.thy ===== *)
theory Tls
  imports Config SeqPrelude
begin

text \<open>
  The TLS provider, internal/tlsprov: loading a profile's certificate material, its cache, and the
  contexts built from it. Certificates, PEM blocks and the verification of a chain belong to Go's
  crypto packages, and the files to the system: they are the fields of \<open>CryptoLib\<close>. What a handshake
  does with a context is written out below, from the documentation of crypto/tls.
\<close>

section \<open>What the crypto packages and the system provide\<close>

record Cert =
  certSubject :: string
  certNotBefore :: int

record PemBlock =
  pemType :: string
  pemBytes :: string

record Suite =
  suiteName :: string
  suiteID :: int
  suiteVersions :: "int list"

datatype KeyUsage = ExtKeyUsageServerAuth | ExtKeyUsageClientAuth

record VerifyOptions =
  voRoots :: "Cert list"
  voIntermediates :: "Cert list"
  voKeyUsage :: KeyUsage
  voCurrentTime :: int
  voDNSName :: string

record CryptoLib =
  ReadFile :: "string \<Rightarrow> string option"
  X509KeyPair :: "string \<Rightarrow> string \<Rightarrow> nat option"
  CertsFromPEM :: "string \<Rightarrow> Cert list"
  PemDecode :: "string \<Rightarrow> PemBlock option"
  IsEncryptedPEMBlock :: "PemBlock \<Rightarrow> bool"
  DecryptPEMBlock :: "PemBlock \<Rightarrow> string \<Rightarrow> string option"
  EncodeToMemory :: "PemBlock \<Rightarrow> string"
  CipherSuites :: "Suite list"
  SystemRoots :: "Cert list option"
  Verify :: "Cert \<Rightarrow> VerifyOptions \<Rightarrow> Cert list list option"

section \<open>Paths\<close>

text \<open>filepath.Clean on a Unix system.\<close>

definition cleanStep :: "bool \<Rightarrow> string \<Rightarrow> string list \<Rightarrow> string list" where
  "cleanStep rooted seg out =
     (if seg = [] \<or> seg = ''.'' then out
      else if seg = ''..'' then
        (case out of
           [] \<Rightarrow> if rooted then [] else [''..'']
         | c # cs \<Rightarrow> if c = ''..'' then ''..'' # c # cs else cs)
      else seg # out)"

definition Clean :: "string \<Rightarrow> string" where
  "Clean path =
     (let rooted = (path \<noteq> [] \<and> hd path = CHR ''/'');
          s = join ''/'' (rev (fold (cleanStep rooted) (split_on (CHR ''/'') path) []))
      in if rooted then CHR ''/'' # s else if s = [] then ''.'' else s)"

section \<open>Policy\<close>

datatype tls_error = UnsupportedMinVersion string | UnknownCipher string | ChainTooLong int int
  | SubjectNotAllowed string | NoVerifiedChain | NoPeerCertificate | NoSystemRoots | ChainFailed
  | ReadCertFailed string string | ReadKeyFailed string string | BadKeyPair string
  | NoPEMBlock string | PKCS8Unsupported string | DecryptFailed string
  | ReadCAFailed string string | NoValidCA string string | VerifyPeerNeedsCA string

definition VersionTLS12 :: int where "VersionTLS12 = 0x0303"
definition VersionTLS13 :: int where "VersionTLS13 = 0x0304"

definition mapVersion :: "string \<Rightarrow> tls_error + int" where
  "mapVersion v = (if v = [] then Inr VersionTLS12 else if v = TLSv12 then Inr VersionTLS12
     else if v = TLSv13 then Inr VersionTLS13 else Inl (UnsupportedMinVersion v))"

definition allowedSuites :: "Suite list \<Rightarrow> string \<Rightarrow> int option" where
  "allowedSuites suites = fold (\<lambda>s m. if VersionTLS12 \<in> set (suiteVersions s) then m(suiteName s \<mapsto> suiteID s) else m)
     suites Map.empty"

fun cipherIDs :: "(string \<Rightarrow> int option) \<Rightarrow> string list \<Rightarrow> tls_error + int list" where
  "cipherIDs allowed [] = Inr []"
| "cipherIDs allowed (name # names) =
     (case allowed name of
        None \<Rightarrow> Inl (UnknownCipher name)
      | Some i \<Rightarrow> map_sum id (\<lambda>ids. i # ids) (cipherIDs allowed names))"

text \<open>None stands for the nil list, which leaves the choice to Go's defaults.\<close>

definition mapCiphers :: "CryptoLib \<Rightarrow> string list \<Rightarrow> tls_error + int list option" where
  "mapCiphers L names = (if names = [] then Inr None
     else map_sum id Some (cipherIDs (allowedSuites (CipherSuites L)) names))"

definition checkDepth :: "Cert list \<Rightarrow> int \<Rightarrow> tls_error option" where
  "checkDepth chain maxIntermediates =
     (let i = int (length chain) - 2; intermediates = (if i < 0 then 0 else i) in
      if intermediates > maxIntermediates then Some (ChainTooLong intermediates maxIntermediates) else None)"

definition checkSubject :: "Cert \<Rightarrow> string list \<Rightarrow> tls_error option" where
  "checkSubject leaf allow = (if allow = [] then None
     else if certSubject leaf \<in> set allow then None else Some (SubjectNotAllowed (certSubject leaf)))"

fun chainsLoop :: "Cert list list \<Rightarrow> int \<Rightarrow> string list \<Rightarrow> tls_error option \<Rightarrow> tls_error option" where
  "chainsLoop [] d subjects firstErr = (case firstErr of Some e \<Rightarrow> Some e | None \<Rightarrow> Some NoVerifiedChain)"
| "chainsLoop (chain # candidates) d subjects firstErr =
     (if chain = [] then chainsLoop candidates d subjects firstErr
      else (case checkDepth chain d of
          Some e \<Rightarrow> chainsLoop candidates d subjects (if firstErr = None then Some e else firstErr)
        | None \<Rightarrow> (case checkSubject (hd chain) subjects of
              Some e \<Rightarrow> chainsLoop candidates d subjects (if firstErr = None then Some e else firstErr)
            | None \<Rightarrow> None)))"

text \<open>None: the peer is accepted.\<close>

definition checkChains :: "Cert list list \<Rightarrow> int \<Rightarrow> string list \<Rightarrow> tls_error option" where
  "checkChains candidates maxIntermediates subjects = chainsLoop candidates maxIntermediates subjects None"

definition verifier :: "int \<Rightarrow> string list \<Rightarrow> Cert list list \<Rightarrow> tls_error option" where
  "verifier maxIntermediates subjects verifiedChains = checkChains verifiedChains maxIntermediates subjects"

record ConnectionState =
  csPeerCertificates :: "Cert list"
  csServerName :: string

definition connVerifier ::
  "CryptoLib \<Rightarrow> Cert list option \<Rightarrow> int \<Rightarrow> string list \<Rightarrow> KeyUsage \<Rightarrow> bool \<Rightarrow> ConnectionState \<Rightarrow> tls_error option" where
  "connVerifier L roots maxIntermediates subjects ku checkHostname cs =
     (case csPeerCertificates cs of
        [] \<Rightarrow> Some NoPeerCertificate
      | leaf # inters \<Rightarrow>
          (case (case roots of Some r \<Rightarrow> Some r | None \<Rightarrow> SystemRoots L) of
             None \<Rightarrow> Some NoSystemRoots
           | Some vroots \<Rightarrow>
               (case Verify L leaf \<lparr>voRoots = vroots, voIntermediates = inters, voKeyUsage = ku,
                        voCurrentTime = certNotBefore leaf,
                        voDNSName = (if checkHostname then csServerName cs else [])\<rparr> of
                  None \<Rightarrow> Some ChainFailed
                | Some built \<Rightarrow> checkChains built maxIntermediates subjects)))"

section \<open>The provider\<close>

record Material =
  matCertificate :: nat
  matTrustPool :: "Cert list option"

text \<open>How a context asks for a client certificate, and the callbacks it carries.\<close>

datatype ClientAuthType = NoClientCert | RequireAnyClientCert | RequireAndVerifyClientCert

datatype PeerCallback = Verifier int "string list"

datatype ConnCallback = ConnVerifier "Cert list option" int "string list" KeyUsage bool

record TlsConfig =
  tcCertificate :: nat
  tcMinVersion :: int
  tcMaxVersion :: int
  tcCipherSuites :: "int list option"
  tcClientAuth :: ClientAuthType
  tcClientCAs :: "Cert list option"
  tcRootCAs :: "Cert list option"
  tcInsecureSkipVerify :: bool
  tcVerifyPeerCertificate :: "PeerCallback option"
  tcVerifyConnection :: "ConnCallback option"

text \<open>The provider's two caches and the audit lines it has logged, a profile and a path each.\<close>

record StdProvider =
  pvCache :: "(string \<times> Material) list"
  pvConfigs :: "(string \<times> TlsConfig) list"
  pvAudit :: "(string \<times> string) list"

type_synonym 'a tls = "(StdProvider, tls_error + 'a) state"

definition NewStdProvider :: StdProvider where
  "NewStdProvider = \<lparr>pvCache = [], pvConfigs = [], pvAudit = []\<rparr>"

definition tlsError :: "tls_error \<Rightarrow> 'a tls" where
  "tlsError e = State_Monad.return (Inl e)"

definition tlsBind :: "'a tls \<Rightarrow> ('a \<Rightarrow> 'b tls) \<Rightarrow> 'b tls" where
  "tlsBind m f = do { r \<leftarrow> m; (case r of Inl e \<Rightarrow> State_Monad.return (Inl e) | Inr a \<Rightarrow> f a) }"

definition auditFail :: "ResolvedTLSProfile \<Rightarrow> string \<Rightarrow> tls_error \<Rightarrow> 'a tls" where
  "auditFail rp path e = do {
     _ \<leftarrow> modify_st (\<lambda>p. p\<lparr>pvAudit := pvAudit p @ [(rpName rp, path)]\<rparr>);
     tlsError e
   }"

definition decryptKeyPEM :: "CryptoLib \<Rightarrow> string \<Rightarrow> string \<Rightarrow> string \<Rightarrow> tls_error + string" where
  "decryptKeyPEM L name keyPEM passphrase =
     (case PemDecode L keyPEM of
        None \<Rightarrow> Inl (NoPEMBlock name)
      | Some block \<Rightarrow>
          if pemType block = ''ENCRYPTED PRIVATE KEY'' then Inl (PKCS8Unsupported name)
          else if IsEncryptedPEMBlock L block then
            (case DecryptPEMBlock L block passphrase of
               None \<Rightarrow> Inl (DecryptFailed name)
             | Some der \<Rightarrow> Inr (EncodeToMemory L \<lparr>pemType = pemType block, pemBytes = der\<rparr>))
          else Inr keyPEM)"

definition cacheKey :: "ResolvedTLSProfile \<Rightarrow> string" where
  "cacheKey rp = Clean (rpCert rp) @ [CHR 0x00] @ Clean (rpKey rp)"

text \<open>The key pair, with the passphrase when one is set.\<close>

definition loadPair :: "CryptoLib \<Rightarrow> ResolvedTLSProfile \<Rightarrow> string \<Rightarrow> string \<Rightarrow> nat tls" where
  "loadPair L rp certPEM keyPEM =
     (if rpPassphrase rp = [] then
        (case X509KeyPair L certPEM keyPEM of
           None \<Rightarrow> auditFail rp (rpKey rp) (BadKeyPair (rpName rp))
         | Some c \<Rightarrow> State_Monad.return (Inr c))
      else
        (case decryptKeyPEM L (rpName rp) keyPEM (rpPassphrase rp) of
           Inl e \<Rightarrow> auditFail rp (rpKey rp) e
         | Inr decPEM \<Rightarrow>
             (case X509KeyPair L certPEM decPEM of
                None \<Rightarrow> auditFail rp (rpKey rp) (BadKeyPair (rpName rp))
              | Some c \<Rightarrow> State_Monad.return (Inr c))))"

definition loadPool :: "CryptoLib \<Rightarrow> ResolvedTLSProfile \<Rightarrow> Cert list option tls" where
  "loadPool L rp =
     (if rpCA rp = [] then State_Monad.return (Inr None)
      else
        (case ReadFile L (rpCA rp) of
           None \<Rightarrow> auditFail rp (rpCA rp) (ReadCAFailed (rpName rp) (rpCA rp))
         | Some caPEM \<Rightarrow>
             (if CertsFromPEM L caPEM = [] then auditFail rp (rpCA rp) (NoValidCA (rpName rp) (rpCA rp))
              else State_Monad.return (Inr (Some (CertsFromPEM L caPEM))))))"

definition Load :: "CryptoLib \<Rightarrow> ResolvedTLSProfile \<Rightarrow> Material tls" where
  "Load L rp = do {
     hit \<leftarrow> gets_st (\<lambda>p. map_of (pvCache p) (cacheKey rp));
     (case hit of
        Some m \<Rightarrow> State_Monad.return (Inr m)
      | None \<Rightarrow>
          (case ReadFile L (rpCert rp) of
             None \<Rightarrow> auditFail rp (rpCert rp) (ReadCertFailed (rpName rp) (rpCert rp))
           | Some certPEM \<Rightarrow>
               (case ReadFile L (rpKey rp) of
                  None \<Rightarrow> auditFail rp (rpKey rp) (ReadKeyFailed (rpName rp) (rpKey rp))
                | Some keyPEM \<Rightarrow>
                    tlsBind (loadPair L rp certPEM keyPEM) (\<lambda>cert.
                    tlsBind (loadPool L rp) (\<lambda>pool.
                      (let m = \<lparr>matCertificate = cert, matTrustPool = pool\<rparr> in do {
                         _ \<leftarrow> modify_st (\<lambda>p. p\<lparr>pvCache := (cacheKey rp, m) # pvCache p\<rparr>);
                         State_Monad.return (Inr m)
                       }))))))
   }"

definition cached :: "string \<Rightarrow> TlsConfig tls \<Rightarrow> TlsConfig tls" where
  "cached key build = do {
     hit \<leftarrow> gets_st (\<lambda>p. map_of (pvConfigs p) key);
     (case hit of
        Some c \<Rightarrow> State_Monad.return (Inr c)
      | None \<Rightarrow> tlsBind build (\<lambda>c. do {
          _ \<leftarrow> modify_st (\<lambda>p. p\<lparr>pvConfigs := (key, c) # pvConfigs p\<rparr>);
          State_Monad.return (Inr c)
        }))
   }"

definition loadAndBase :: "CryptoLib \<Rightarrow> ResolvedTLSProfile \<Rightarrow> (TlsConfig \<times> Material) tls" where
  "loadAndBase L rp =
     tlsBind (Load L rp) (\<lambda>m.
       (case mapVersion (rpMinVersion rp) of
          Inl e \<Rightarrow> tlsError e
        | Inr v \<Rightarrow>
            (case mapCiphers L (rpCiphers rp) of
               Inl e \<Rightarrow> tlsError e
             | Inr suites \<Rightarrow> State_Monad.return (Inr
                 (\<lparr>tcCertificate = matCertificate m, tcMinVersion = v, tcMaxVersion = VersionTLS13,
                   tcCipherSuites = suites, tcClientAuth = NoClientCert, tcClientCAs = None, tcRootCAs = None,
                   tcInsecureSkipVerify = False, tcVerifyPeerCertificate = None, tcVerifyConnection = None\<rparr>, m)))))"

definition ServerConfig :: "CryptoLib \<Rightarrow> ResolvedTLSProfile \<Rightarrow> TlsConfig tls" where
  "ServerConfig L rp = cached (''server:'' @ rpName rp)
     (tlsBind (loadAndBase L rp) (\<lambda>(c, m).
        if rpVerifyPeer rp then
          (if matTrustPool m = None then tlsError (VerifyPeerNeedsCA (rpName rp))
           else
             (let c1 = c\<lparr>tcClientCAs := matTrustPool m\<rparr> in
              State_Monad.return (Inr
                (if rpVerifyDates rp then
                   c1\<lparr>tcClientAuth := RequireAndVerifyClientCert,
                      tcVerifyPeerCertificate := Some (Verifier (rpVerifyDepth rp) (rpVerifySubjects rp))\<rparr>
                 else
                   c1\<lparr>tcClientAuth := RequireAnyClientCert,
                      tcVerifyConnection := Some (ConnVerifier (matTrustPool m) (rpVerifyDepth rp) (rpVerifySubjects rp)
                        ExtKeyUsageClientAuth False)\<rparr>))))
        else State_Monad.return (Inr (c\<lparr>tcClientAuth := NoClientCert\<rparr>))))"

definition ClientConfig :: "CryptoLib \<Rightarrow> ResolvedTLSProfile \<Rightarrow> TlsConfig tls" where
  "ClientConfig L rp = cached (''client:'' @ rpName rp)
     (tlsBind (loadAndBase L rp) (\<lambda>(c, m).
        (let c1 = c\<lparr>tcRootCAs := matTrustPool m\<rparr> in
         State_Monad.return (Inr
           (if \<not> rpVerifyPeer rp then c1\<lparr>tcInsecureSkipVerify := True\<rparr>
            else if rpVerifyDates rp then
              c1\<lparr>tcVerifyPeerCertificate := Some (Verifier (rpVerifyDepth rp) (rpVerifySubjects rp))\<rparr>
            else
              c1\<lparr>tcInsecureSkipVerify := True,
                 tcVerifyConnection := Some (ConnVerifier (matTrustPool m) (rpVerifyDepth rp) (rpVerifySubjects rp)
                   ExtKeyUsageServerAuth True)\<rparr>)))))"

fun loadProfiles :: "CryptoLib \<Rightarrow> ResolvedTLSProfile option list \<Rightarrow> unit tls" where
  "loadProfiles L [] = State_Monad.return (Inr ())"
| "loadProfiles L (None # rps) = loadProfiles L rps"
| "loadProfiles L (Some rp # rps) = tlsBind (Load L rp) (\<lambda>_. loadProfiles L rps)"

definition LoadAll :: "CryptoLib \<Rightarrow> Config \<Rightarrow> unit tls" where
  "LoadAll L c = loadProfiles L ([lsResolved (cfgTLS c), lsResolved (cfgWSS c)]
     @ map appResolved (cfgSequence c) @ [nhResolved (cfgNextHop c)])"

section \<open>What a handshake does with a context\<close>

text \<open>
  As crypto/tls documents it: a server asks for a certificate as ClientAuth says and, for
  RequireAndVerifyClientCert, verifies it against ClientCAs for client authentication before the
  callback on the verified candidates; a client verifies the server's chain and name against RootCAs,
  or the system's roots, unless InsecureSkipVerify; VerifyConnection runs last, whatever the rest.
\<close>

definition runConnCallback :: "CryptoLib \<Rightarrow> ConnCallback option \<Rightarrow> ConnectionState \<Rightarrow> bool" where
  "runConnCallback L cb cs = (case cb of None \<Rightarrow> True
     | Some (ConnVerifier roots d subjects ku host) \<Rightarrow> connVerifier L roots d subjects ku host cs = None)"

definition runPeerCallback :: "PeerCallback option \<Rightarrow> Cert list list \<Rightarrow> bool" where
  "runPeerCallback cb candidates = (case cb of None \<Rightarrow> True | Some (Verifier d subjects) \<Rightarrow> verifier d subjects candidates = None)"

definition verifiedChains :: "CryptoLib \<Rightarrow> Cert list option \<Rightarrow> KeyUsage \<Rightarrow> int \<Rightarrow> string \<Rightarrow> Cert list \<Rightarrow> Cert list list option" where
  "verifiedChains L roots ku now name peer =
     (case (peer, (case roots of Some r \<Rightarrow> Some r | None \<Rightarrow> SystemRoots L)) of
        (leaf # inters, Some vroots) \<Rightarrow> Verify L leaf \<lparr>voRoots = vroots, voIntermediates = inters, voKeyUsage = ku,
            voCurrentTime = now, voDNSName = name\<rparr>
      | _ \<Rightarrow> None)"

definition serverAccepts :: "CryptoLib \<Rightarrow> TlsConfig \<Rightarrow> int \<Rightarrow> Cert list \<Rightarrow> bool" where
  "serverAccepts L c now peer =
     (case tcClientAuth c of
        NoClientCert \<Rightarrow> True
      | RequireAnyClientCert \<Rightarrow>
          peer \<noteq> [] \<and> runConnCallback L (tcVerifyConnection c) \<lparr>csPeerCertificates = peer, csServerName = []\<rparr>
      | RequireAndVerifyClientCert \<Rightarrow>
          (case verifiedChains L (tcClientCAs c) ExtKeyUsageClientAuth now [] peer of
             None \<Rightarrow> False
           | Some candidates \<Rightarrow> runPeerCallback (tcVerifyPeerCertificate c) candidates
               \<and> runConnCallback L (tcVerifyConnection c) \<lparr>csPeerCertificates = peer, csServerName = []\<rparr>))"

definition clientAccepts :: "CryptoLib \<Rightarrow> TlsConfig \<Rightarrow> int \<Rightarrow> string \<Rightarrow> Cert list \<Rightarrow> bool" where
  "clientAccepts L c now serverName peer =
     (peer \<noteq> [] \<and>
      (if tcInsecureSkipVerify c then True
       else (case verifiedChains L (tcRootCAs c) ExtKeyUsageServerAuth now serverName peer of
               None \<Rightarrow> False
             | Some candidates \<Rightarrow> runPeerCallback (tcVerifyPeerCertificate c) candidates))
      \<and> runConnCallback L (tcVerifyConnection c) \<lparr>csPeerCertificates = peer, csServerName = serverName\<rparr>)"

end
