(* ===== verification/TlsProps.thy ===== *)
theory TlsProps
  imports Tls
begin

text \<open>
  Properties of the TLS provider: which peers a context lets in, measured against the policy of its
  profile, what is cached and what is audited.
\<close>

section \<open>Chains\<close>

text \<open>A chain within the depth cap whose leaf is on the allow list, when there is one.\<close>

definition chainAllowed :: "int \<Rightarrow> string list \<Rightarrow> Cert list \<Rightarrow> bool" where
  "chainAllowed depth subjects chain = (chain \<noteq> [] \<and> max 0 (int (length chain) - 2) \<le> depth
     \<and> (subjects = [] \<or> certSubject (hd chain) \<in> set subjects))"

lemma check_chain: "chain \<noteq> [] \<Longrightarrow> checkDepth chain d = None \<and> checkSubject (hd chain) subjects = None \<longleftrightarrow> chainAllowed d subjects chain"
  by (auto simp: checkDepth_def checkSubject_def chainAllowed_def Let_def)

lemma chainsLoop_iff: "chainsLoop cs d subjects e = None \<longleftrightarrow> (\<exists>chain \<in> set cs. chainAllowed d subjects chain)"
proof (induction cs arbitrary: e)
  case (Cons chain cs)
  show ?case
  proof (cases "chain = []")
    case True
    then show ?thesis using Cons by (simp add: chainAllowed_def)
  next
    case False
    then show ?thesis using Cons check_chain [OF False, of d subjects] by (auto split: option.splits)
  qed
qed (simp split: option.split)


section \<open>Loading\<close>

lemma run_return [simp]: "run_state (State_Monad.return x) s = (x, s)"
  by simp

lemma run_then: "run_state (State_Monad.bind m f) s = (case run_state m s of (r, s') \<Rightarrow> run_state (f r) s')"
  by (simp split: prod.split)

lemma run_tlsBind: "run_state (tlsBind m f) s = (case run_state m s of (Inl e, s') \<Rightarrow> (Inl e, s') | (Inr a, s') \<Rightarrow> run_state (f a) s')"
  by (auto simp: tlsBind_def run_then split: prod.split sum.split)

lemma run_auditFail: "run_state (auditFail rp path e) p = (Inl e, p\<lparr>pvAudit := pvAudit p @ [(rpName rp, path)]\<rparr>)"
  by (simp add: auditFail_def tlsError_def)

lemmas tls_runs = run_then run_tlsBind run_auditFail tlsError_def

lemma loadPair_runs:
  "run_state (loadPair L rp certPEM keyPEM) p = (Inr c, p') \<Longrightarrow> p' = p"
  "run_state (loadPair L rp certPEM keyPEM) p = (Inl e, p') \<Longrightarrow> p' = p\<lparr>pvAudit := pvAudit p @ [(rpName rp, rpKey rp)]\<rparr>"
  by (auto simp: loadPair_def tls_runs split: if_splits option.splits sum.splits)

lemma loadPool_runs:
  "run_state (loadPool L rp) p = (Inr c, p') \<Longrightarrow> p' = p"
  "run_state (loadPool L rp) p = (Inl e, p') \<Longrightarrow> p' = p\<lparr>pvAudit := pvAudit p @ [(rpName rp, rpCA rp)]\<rparr>"
  by (auto simp: loadPool_def tls_runs split: if_splits option.splits)

text \<open>What a load does: a hit changes nothing, a success adds one entry, a failure one audit line.\<close>

lemma Load_result:
  assumes "run_state (Load L rp) p = (res, p')"
  shows "case res of
      Inr m \<Rightarrow> pvAudit p' = pvAudit p \<and> pvConfigs p' = pvConfigs p \<and> map_of (pvCache p') (cacheKey rp) = Some m
        \<and> (\<forall>k v. map_of (pvCache p) k = Some v \<longrightarrow> map_of (pvCache p') k = Some v)
    | Inl e \<Rightarrow> pvCache p' = pvCache p \<and> pvConfigs p' = pvConfigs p
        \<and> (\<exists>path \<in> {rpCert rp, rpKey rp, rpCA rp}. pvAudit p' = pvAudit p @ [(rpName rp, path)])"
proof (cases "map_of (pvCache p) (cacheKey rp)")
  case (Some m)
  then show ?thesis using assms by (auto simp: Load_def tls_runs)
next
  case None
  show ?thesis
  proof (cases "ReadFile L (rpCert rp)")
    case cert: (Some certPEM)
    show ?thesis
    proof (cases "ReadFile L (rpKey rp)")
      case key: (Some keyPEM)
      obtain a p1 where a: "run_state (loadPair L rp certPEM keyPEM) p = (a, p1)" by force
      obtain b p2 where b: "run_state (loadPool L rp) p1 = (b, p2)" by force
      show ?thesis
      proof (cases a)
        case (Inl e)
        from loadPair_runs(2) [OF a [unfolded Inl]] a show ?thesis using assms None by (auto simp: Load_def tls_runs cert key Inl)
      next
        case (Inr k)
        have p1: "p1 = p" by (rule loadPair_runs(1) [OF a [unfolded Inr]])
        show ?thesis
        proof (cases b)
          case (Inl e)
          from loadPool_runs(2) [OF b [unfolded Inl]] a b p1 show ?thesis
            using assms None by (auto simp: Load_def tls_runs cert key \<open>a = Inr k\<close> Inl)
        next
          case (Inr pool)
          have p2: "p2 = p" using loadPool_runs(1) [OF b [unfolded Inr]] p1 by simp
          show ?thesis
            using assms None a b p1 p2 by (auto simp: Load_def tls_runs cert key \<open>a = Inr k\<close> Inr Let_def)
        qed
      qed
    qed (use assms None cert in \<open>auto simp: Load_def tls_runs\<close>)
  qed (use assms None in \<open>auto simp: Load_def tls_runs\<close>)
qed

lemma Load_hit: "map_of (pvCache p) (cacheKey rp) = Some m \<Longrightarrow> run_state (Load L rp) p = (Inr m, p)"
  by (simp add: Load_def tls_runs)


lemma loadProfiles_cached:
  assumes "run_state (loadProfiles L rps) p = (Inr (), p')"
  shows "(\<forall>rp. Some rp \<in> set rps \<longrightarrow> map_of (pvCache p') (cacheKey rp) \<noteq> None)
    \<and> (\<forall>k v. map_of (pvCache p) k = Some v \<longrightarrow> map_of (pvCache p') k = Some v)"
  using assms
proof (induction rps arbitrary: p)
  case (Cons r rps)
  show ?case
  proof (cases r)
    case (Some rp)
    obtain a p1 where a: "run_state (Load L rp) p = (a, p1)" by force
    with Cons.prems Some obtain m where m: "a = Inr m" "run_state (loadProfiles L rps) p1 = (Inr (), p')"
      by (cases a) (auto simp: tls_runs)
    from Load_result [OF a] m(1) have l: "map_of (pvCache p1) (cacheKey rp) = Some m"
      "\<forall>k v. map_of (pvCache p) k = Some v \<longrightarrow> map_of (pvCache p1) k = Some v" by auto
    show ?thesis using Cons.IH [OF m(2)] l Some by auto
  qed (use Cons in auto)
qed simp

text \<open>The profiles a configuration refers to.\<close>

definition referenced :: "Config \<Rightarrow> ResolvedTLSProfile set" where
  "referenced c = {rp. lsResolved (cfgTLS c) = Some rp \<or> lsResolved (cfgWSS c) = Some rp
     \<or> (\<exists>app \<in> set (cfgSequence c). appResolved app = Some rp) \<or> nhResolved (cfgNextHop c) = Some rp}"

text \<open>Startup loads everything: after LoadAll has succeeded, loading any profile that a listener,
  an application or the next hop refers to succeeds from the cache, without reading a file.\<close>

theorem startup_loads_every_profile:
  assumes "run_state (LoadAll L c) p = (Inr (), p')" "rp \<in> referenced c"
  shows "\<exists>m. \<forall>L'. run_state (Load L' rp) p' = (Inr m, p')"
proof -
  have "Some rp \<in> set ([lsResolved (cfgTLS c), lsResolved (cfgWSS c)] @ map appResolved (cfgSequence c) @ [nhResolved (cfgNextHop c)])"
    using assms(2) by (auto simp: referenced_def image_iff intro: sym)
  with loadProfiles_cached [OF assms(1) [unfolded LoadAll_def]]
  obtain m where "map_of (pvCache p') (cacheKey rp) = Some m" by blast
  then show ?thesis using Load_hit by blast
qed

section \<open>Contexts\<close>

text \<open>The policy of a profile for a peer: its chain verifies against the roots, for the usage, the
  name, and now, or at the start of the leaf's validity when dates are relaxed; and the chain check.\<close>

definition peerAllowed ::
  "CryptoLib \<Rightarrow> ResolvedTLSProfile \<Rightarrow> Cert list \<Rightarrow> KeyUsage \<Rightarrow> int \<Rightarrow> string \<Rightarrow> Cert list \<Rightarrow> bool" where
  "peerAllowed L rp roots ku now name peer = (peer \<noteq> [] \<and>
     (case Verify L (hd peer) \<lparr>voRoots = roots, voIntermediates = tl peer, voKeyUsage = ku,
          voCurrentTime = (if rpVerifyDates rp then now else certNotBefore (hd peer)), voDNSName = name\<rparr> of
        None \<Rightarrow> False
      | Some found \<Rightarrow> \<exists>chain \<in> set found. chainAllowed (rpVerifyDepth rp) (rpVerifySubjects rp) chain))"

lemma checkChains_iff: "checkChains cs d subjects = None \<longleftrightarrow> (\<exists>chain \<in> set cs. chainAllowed d subjects chain)"
  by (simp add: checkChains_def chainsLoop_iff)

lemma loadAndBase_result:
  assumes "run_state (loadAndBase L rp) p = (Inr (c, m), p')"
  shows "fst (run_state (Load L rp) p) = Inr m" "tcClientAuth c = NoClientCert" "tcVerifyPeerCertificate c = None"
    "tcVerifyConnection c = None" "\<not> tcInsecureSkipVerify c"
  using assms by (auto simp: loadAndBase_def tls_runs split: prod.splits sum.splits)

lemma cached_miss:
  assumes "run_state (cached key build) p = (Inr c, p')" "map_of (pvConfigs p) key = None"
  shows "fst (run_state build p) = Inr c"
  using assms by (auto simp: cached_def tls_runs split: prod.splits sum.splits)

lemma ServerConfig_built:
  assumes "run_state (ServerConfig L rp) p = (Inr c, p')" "map_of (pvConfigs p) (''server:'' @ rpName rp) = None"
  obtains c0 m p1 where "run_state (loadAndBase L rp) p = (Inr (c0, m), p1)"
    "if rpVerifyPeer rp then matTrustPool m \<noteq> None \<and> c =
         (if rpVerifyDates rp then c0\<lparr>tcClientCAs := matTrustPool m, tcClientAuth := RequireAndVerifyClientCert,
                tcVerifyPeerCertificate := Some (Verifier (rpVerifyDepth rp) (rpVerifySubjects rp))\<rparr>
          else c0\<lparr>tcClientCAs := matTrustPool m, tcClientAuth := RequireAnyClientCert,
                tcVerifyConnection := Some (ConnVerifier (matTrustPool m) (rpVerifyDepth rp) (rpVerifySubjects rp) ExtKeyUsageClientAuth False)\<rparr>)
       else c = c0\<lparr>tcClientAuth := NoClientCert\<rparr>"
  using cached_miss [OF assms(1) [unfolded ServerConfig_def] assms(2)]
  by (auto simp: tls_runs Let_def split: prod.splits sum.splits if_splits)

lemma connVerifier_iff:
  "peer \<noteq> [] \<Longrightarrow> connVerifier L roots d subjects ku host \<lparr>csPeerCertificates = peer, csServerName = name\<rparr> = None \<longleftrightarrow>
     (case (case roots of Some r \<Rightarrow> Some r | None \<Rightarrow> SystemRoots L) of None \<Rightarrow> False
      | Some vroots \<Rightarrow> (case Verify L (hd peer) \<lparr>voRoots = vroots, voIntermediates = tl peer, voKeyUsage = ku,
            voCurrentTime = certNotBefore (hd peer), voDNSName = (if host then name else [])\<rparr> of None \<Rightarrow> False
          | Some found \<Rightarrow> \<exists>chain \<in> set found. chainAllowed d subjects chain))"
  by (cases peer) (auto simp: connVerifier_def checkChains_iff split: option.split)


text \<open>A leg lets in exactly the servers its profile allows: a client context accepts any server that
  shows a certificate when verify_peer is off, and otherwise exactly those whose chain verifies against
  the CA bundle, or the system's roots when there is none, for server authentication and for the dialled
  name, with only the dates relaxed at most, and passes depth and subjects.\<close>

theorem client_context_enforces_profile:
  assumes "run_state (ClientConfig L rp) p = (Inr c, p')" "map_of (pvConfigs p) (''client:'' @ rpName rp) = None"
  shows "\<exists>m. fst (run_state (Load L rp) p) = Inr m \<and>
     (clientAccepts L c now name peer \<longleftrightarrow> peer \<noteq> [] \<and> (\<not> rpVerifyPeer rp \<or>
        (\<exists>roots. (case matTrustPool m of Some r \<Rightarrow> Some r | None \<Rightarrow> SystemRoots L) = Some roots
            \<and> peerAllowed L rp roots ExtKeyUsageServerAuth now name peer)))"
proof -
  from cached_miss [OF assms(1) [unfolded ClientConfig_def] assms(2)]
  obtain c0 m p1 where b: "run_state (loadAndBase L rp) p = (Inr (c0, m), p1)"
    and c: "c = (if \<not> rpVerifyPeer rp then c0\<lparr>tcRootCAs := matTrustPool m, tcInsecureSkipVerify := True\<rparr>
            else if rpVerifyDates rp then
              c0\<lparr>tcRootCAs := matTrustPool m, tcVerifyPeerCertificate := Some (Verifier (rpVerifyDepth rp) (rpVerifySubjects rp))\<rparr>
            else
              c0\<lparr>tcRootCAs := matTrustPool m, tcInsecureSkipVerify := True,
                 tcVerifyConnection := Some (ConnVerifier (matTrustPool m) (rpVerifyDepth rp) (rpVerifySubjects rp)
                   ExtKeyUsageServerAuth True)\<rparr>)"
    by (auto simp: tls_runs Let_def split: prod.splits sum.splits)
  note base = loadAndBase_result [OF b]
  have "clientAccepts L c now name peer \<longleftrightarrow> peer \<noteq> [] \<and> (\<not> rpVerifyPeer rp \<or>
        (\<exists>roots. (case matTrustPool m of Some r \<Rightarrow> Some r | None \<Rightarrow> SystemRoots L) = Some roots
            \<and> peerAllowed L rp roots ExtKeyUsageServerAuth now name peer))"
  proof (cases "rpVerifyPeer rp \<and> rpVerifyDates rp")
    case True
    then show ?thesis
      using c base(4,5)
      by (cases peer) (auto simp: clientAccepts_def verifiedChains_def peerAllowed_def runPeerCallback_def runConnCallback_def
            verifier_def checkChains_iff split: option.splits)
  next
    case False
    then show ?thesis
      using c base(4) connVerifier_iff [of peer L "matTrustPool m"]
      by (cases "peer = []") (auto simp: clientAccepts_def peerAllowed_def runConnCallback_def split: option.splits)
  qed
  with base(1) show ?thesis by blast
qed

text \<open>Two profiles with one key pair share the first one's trust: because loaded material is cached
  under the certificate and key paths alone, a profile loaded after another one with the same paths
  never has its own CA bundle read, and its listener trusts the other profile's.\<close>

theorem same_key_pair_shares_trust:
  assumes "run_state (Load L rp1) NewStdProvider = (Inr m, p)" "rpCert rp2 = rpCert rp1" "rpKey rp2 = rpKey rp1"
    "rpVerifyPeer rp2" "run_state (ServerConfig L rp2) p = (Inr c, p')"
  shows "tcClientCAs c = matTrustPool m \<and> matTrustPool m = (if rpCA rp1 = [] then None else map_option (CertsFromPEM L) (ReadFile L (rpCA rp1)))"
proof -
  have k: "cacheKey rp2 = cacheKey rp1" using assms(2,3) by (simp add: cacheKey_def)
  from Load_result [OF assms(1)] have m: "map_of (pvCache p) (cacheKey rp2) = Some m" "pvConfigs p = []"
    by (simp_all add: NewStdProvider_def k)
  have "map_of (pvConfigs p) (''server:'' @ rpName rp2) = None" by (simp add: m)
  from ServerConfig_built [OF assms(5) this] obtain c0 m' p1
    where b: "run_state (loadAndBase L rp2) p = (Inr (c0, m'), p1)" and c': "if rpVerifyPeer rp2 then matTrustPool m' \<noteq> None \<and> c =
         (if rpVerifyDates rp2 then c0\<lparr>tcClientCAs := matTrustPool m', tcClientAuth := RequireAndVerifyClientCert,
                tcVerifyPeerCertificate := Some (Verifier (rpVerifyDepth rp2) (rpVerifySubjects rp2))\<rparr>
          else c0\<lparr>tcClientCAs := matTrustPool m', tcClientAuth := RequireAnyClientCert,
                tcVerifyConnection := Some (ConnVerifier (matTrustPool m') (rpVerifyDepth rp2) (rpVerifySubjects rp2) ExtKeyUsageClientAuth False)\<rparr>)
       else c = c0\<lparr>tcClientAuth := NoClientCert\<rparr>" .
  then have c: "tcClientCAs c = matTrustPool m'" using assms(4) by simp
  have "m' = m" using loadAndBase_result(1) [OF b] Load_hit [OF m(1)] by simp
  with c have "tcClientCAs c = matTrustPool m" by simp
  moreover have "matTrustPool m = (if rpCA rp1 = [] then None else map_option (CertsFromPEM L) (ReadFile L (rpCA rp1)))"
    using assms(1)
    by (auto simp: Load_def NewStdProvider_def loadPool_def tls_runs Let_def split: prod.splits sum.splits option.splits if_splits)
  ultimately show ?thesis by simp
qed

section \<open>Sample profiles\<close>

definition sampleCA :: "string \<Rightarrow> Cert" where
  "sampleCA n = \<lparr>certSubject = ''CN='' @ n, certNotBefore = 0\<rparr>"

definition samplePeer :: Cert where
  "samplePeer = \<lparr>certSubject = ''CN=peer'', certNotBefore = 100\<rparr>"

text \<open>Bundles are named after their CA; a chain verifies from the year it starts in.\<close>

definition sampleCrypto :: CryptoLib where
  "sampleCrypto = \<lparr>ReadFile = Some, X509KeyPair = (\<lambda>_ _. Some 1), CertsFromPEM = (\<lambda>s. [sampleCA s]),
     PemDecode = (\<lambda>_. None), IsEncryptedPEMBlock = (\<lambda>_. False), DecryptPEMBlock = (\<lambda>_ _. None), EncodeToMemory = pemBytes,
     CipherSuites = [], SystemRoots = None,
     Verify = (\<lambda>leaf opts. if certNotBefore leaf \<le> voCurrentTime opts \<and> voRoots opts \<noteq> [] then Some [[leaf, hd (voRoots opts)]] else None)\<rparr>"

definition sampleProfile :: "string \<Rightarrow> string \<Rightarrow> bool \<Rightarrow> ResolvedTLSProfile" where
  "sampleProfile name ca dates = \<lparr>rpName = name, rpCert = ''/c.pem'', rpKey = ''/k.pem'', rpPassphrase = [], rpCA = ca,
     rpMinVersion = TLSv12, rpCiphers = [], rpVerifyPeer = True, rpVerifyDepth = 1, rpVerifyDates = dates,
     rpVerifySubjects = [''CN=peer''], rpConnectTimeout = 0\<rparr>"

lemma sample_fields [simp]:
  "rpName (sampleProfile n ca d) = n" "rpCert (sampleProfile n ca d) = ''/c.pem''" "rpKey (sampleProfile n ca d) = ''/k.pem''"
  "rpPassphrase (sampleProfile n ca d) = []" "rpCA (sampleProfile n ca d) = ca" "rpMinVersion (sampleProfile n ca d) = TLSv12"
  "rpCiphers (sampleProfile n ca d) = []" "rpVerifyPeer (sampleProfile n ca d)" "rpVerifyDepth (sampleProfile n ca d) = 1"
  "rpVerifyDates (sampleProfile n ca d) = d" "rpVerifySubjects (sampleProfile n ca d) = [''CN=peer'']"
  "pvCache NewStdProvider = []" "pvConfigs NewStdProvider = []" "pvAudit NewStdProvider = []"
  by (simp_all add: sampleProfile_def NewStdProvider_def)

lemma sample_load: "run_state (Load sampleCrypto (sampleProfile n ca d)) NewStdProvider
   = (if ca = [] then (Inr \<lparr>matCertificate = 1, matTrustPool = None\<rparr>, NewStdProvider\<lparr>pvCache := [(cacheKey (sampleProfile n ca d), \<lparr>matCertificate = 1, matTrustPool = None\<rparr>)]\<rparr>)
      else (Inr \<lparr>matCertificate = 1, matTrustPool = Some [sampleCA ca]\<rparr>,
       NewStdProvider\<lparr>pvCache := [(cacheKey (sampleProfile n ca d), \<lparr>matCertificate = 1, matTrustPool = Some [sampleCA ca]\<rparr>)]\<rparr>))"
  by (simp add: Load_def loadPair_def loadPool_def tls_runs sampleCrypto_def Let_def)


theorem same_key_pair_shares_trust_witness:
  "\<exists>m p c p'. run_state (Load sampleCrypto (sampleProfile ''a'' ''A'' True)) NewStdProvider = (Inr m, p)
    \<and> run_state (ServerConfig sampleCrypto (sampleProfile ''b'' ''B'' True)) p = (Inr c, p') \<and> tcClientCAs c = Some [sampleCA ''A'']"
proof -
  have k: "cacheKey (sampleProfile ''a'' ''A'' True) = cacheKey (sampleProfile ''b'' ''B'' True)"
    by (simp add: cacheKey_def)
  let ?p = "NewStdProvider\<lparr>pvCache := [(cacheKey (sampleProfile ''a'' ''A'' True), \<lparr>matCertificate = 1, matTrustPool = Some [sampleCA ''A'']\<rparr>)]\<rparr>"
  have l: "run_state (Load sampleCrypto (sampleProfile ''a'' ''A'' True)) NewStdProvider
      = (Inr \<lparr>matCertificate = 1, matTrustPool = Some [sampleCA ''A'']\<rparr>, ?p)"
    by (simp add: sample_load)
  have "\<exists>c p'. run_state (ServerConfig sampleCrypto (sampleProfile ''b'' ''B'' True)) ?p = (Inr c, p')"
    by (simp add: ServerConfig_def cached_def loadAndBase_def Load_def k tls_runs mapVersion_def mapCiphers_def Let_def)
  then obtain c p' where s: "run_state (ServerConfig sampleCrypto (sampleProfile ''b'' ''B'' True)) ?p = (Inr c, p')" by blast
  from same_key_pair_shares_trust [OF l _ _ _ s] l s show ?thesis by simp
qed

definition sampleListener :: "bool \<Rightarrow> TlsConfig" where
  "sampleListener dates = \<lparr>tcCertificate = 1, tcMinVersion = VersionTLS12, tcMaxVersion = VersionTLS13, tcCipherSuites = None,
     tcClientAuth = (if dates then RequireAndVerifyClientCert else RequireAnyClientCert), tcClientCAs = Some [sampleCA ''A''],
     tcRootCAs = None, tcInsecureSkipVerify = False,
     tcVerifyPeerCertificate = (if dates then Some (Verifier 1 [''CN=peer'']) else None),
     tcVerifyConnection = (if dates then None else Some (ConnVerifier (Some [sampleCA ''A'']) 1 [''CN=peer''] ExtKeyUsageClientAuth False))\<rparr>"

lemma sample_listener: "\<exists>p'. run_state (ServerConfig sampleCrypto (sampleProfile ''a'' ''A'' dates)) NewStdProvider = (Inr (sampleListener dates), p')"
  by (simp add: ServerConfig_def cached_def loadAndBase_def tls_runs sample_load mapVersion_def mapCiphers_def Let_def sampleListener_def)


definition sampleDialer :: TlsConfig where
  "sampleDialer = \<lparr>tcCertificate = 1, tcMinVersion = VersionTLS12, tcMaxVersion = VersionTLS13, tcCipherSuites = None,
     tcClientAuth = NoClientCert, tcClientCAs = None, tcRootCAs = Some [sampleCA ''A''], tcInsecureSkipVerify = False,
     tcVerifyPeerCertificate = Some (Verifier 1 [''CN=peer'']), tcVerifyConnection = None\<rparr>"

theorem client_context_enforces_profile_witness:
  "clientAccepts sampleCrypto sampleDialer 150 ''pbx'' [samplePeer] \<and> \<not> clientAccepts sampleCrypto sampleDialer 150 ''pbx'' [sampleCA ''X'']"
proof -
  have "\<exists>p'. run_state (ClientConfig sampleCrypto (sampleProfile ''a'' ''A'' True)) NewStdProvider = (Inr sampleDialer, p')"
    by (simp add: ClientConfig_def cached_def loadAndBase_def tls_runs sample_load mapVersion_def mapCiphers_def Let_def sampleDialer_def)
  then obtain p' where s: "run_state (ClientConfig sampleCrypto (sampleProfile ''a'' ''A'' True)) NewStdProvider = (Inr sampleDialer, p')"
    by blast
  have a: "peerAllowed sampleCrypto (sampleProfile ''a'' ''A'' True) [sampleCA ''A''] ExtKeyUsageServerAuth 150 ''pbx'' [samplePeer]"
    "\<not> peerAllowed sampleCrypto (sampleProfile ''a'' ''A'' True) [sampleCA ''A''] ExtKeyUsageServerAuth 150 ''pbx'' [sampleCA ''X'']"
    by (simp_all add: peerAllowed_def sampleCrypto_def samplePeer_def chainAllowed_def sampleCA_def)
  from client_context_enforces_profile [OF s, of 150 "''pbx''" "[samplePeer]"]
    client_context_enforces_profile [OF s, of 150 "''pbx''" "[sampleCA ''X'']"] a
  show ?thesis by (simp add: sample_load)
qed

definition sampleTLSConfig :: Config where
  "sampleTLSConfig = \<lparr>cfgSIPListen = ''0.0.0.0:5060'',
     cfgTLS = \<lparr>lsListen = ''0.0.0.0:5061'', lsProfile = ''a'', lsResolved = Some (sampleProfile ''a'' ''A'' True)\<rparr>,
     cfgWSListen = [], cfgWSS = \<lparr>lsListen = [], lsProfile = [], lsResolved = None\<rparr>, cfgNextHop = zeroNextHop,
     cfgRTP = \<lparr>rtpPortRange = ''20000-20100'', rtpIdleTimeout = [], rtpIdleTimeoutDur = 0\<rparr>, cfgPublicAddress = [],
     cfgSequence = [], cfgTLSProfiles = [], cfgLogLevel = ''info'', cfgObsListen = [], cfgLegTimeout = [], cfgLegTimeoutDur = 32\<rparr>"

theorem startup_loads_every_profile_witness:
  "\<exists>p' m. run_state (LoadAll sampleCrypto sampleTLSConfig) NewStdProvider = (Inr (), p')
    \<and> run_state (Load (sampleCrypto\<lparr>ReadFile := (\<lambda>_. None)\<rparr>) (sampleProfile ''a'' ''A'' True)) p' = (Inr m, p')"
proof -
  have "\<exists>p'. run_state (LoadAll sampleCrypto sampleTLSConfig) NewStdProvider = (Inr (), p')"
    by (simp add: LoadAll_def sampleTLSConfig_def zeroNextHop_def tls_runs sample_load)
  then obtain p' where s: "run_state (LoadAll sampleCrypto sampleTLSConfig) NewStdProvider = (Inr (), p')" by blast
  from startup_loads_every_profile [OF s, of "sampleProfile ''a'' ''A'' True"] s show ?thesis
    by (auto simp: referenced_def sampleTLSConfig_def)
qed

end
