(* ===== verification/Engine.thy ===== *)
theory Engine
  imports TlsProps ConfigProps Reach
begin

text \<open>
  Building the engine from a configuration, internal/b2bua/engine.go, and the command that starts
  it, cmd/sip-sequencer/main.go. The SIP library's constructors succeed or fail as \<open>Startup\<close> says; a
  Go map is iterated in any order.
\<close>

section \<open>New\<close>

record Startup =
  uaOk :: bool
  serverOk :: bool
  clientOk :: bool
  tlsUAOk :: "string \<Rightarrow> bool"
  tlsClientOk :: "string \<Rightarrow> bool"
  mapOrder :: "(string \<times> ResolvedTLSProfile) list \<Rightarrow> (string \<times> ResolvedTLSProfile) list"

datatype Endpoint = SequenceApp nat string | NextHopEndpoint

datatype eng_error = BadListenAddr string | BadListenPort string | BadPortRange sdp_error
  | UAFailed | ServerFailed | ClientFailed | NoTLSProvider string | NoResolvedProfile string
  | NoProviderFor "Endpoint option" | ServerContext string tls_error | ClientContext string tls_error
  | TLSUAFailed string | TLSClientFailed string

record Engine =
  engHost :: string
  engPort :: int
  engLegTimeout :: int
  engIdleTimeout :: int
  engPorts :: PortAllocator
  engMediaPublicAddr :: string
  engObsListen :: string
  engTLSServer :: "TlsConfig option"
  engWSSServer :: "TlsConfig option"
  engDialers :: "(string \<times> TlsConfig) list"

type_synonym 'a eng = "(StdProvider, eng_error + 'a) state"

definition engBind :: "'a eng \<Rightarrow> ('a \<Rightarrow> 'b eng) \<Rightarrow> 'b eng" where
  "engBind m f = do { r \<leftarrow> m; (case r of Inl e \<Rightarrow> State_Monad.return (Inl e) | Inr a \<Rightarrow> f a) }"

definition engError :: "eng_error \<Rightarrow> 'a eng" where
  "engError e = State_Monad.return (Inl e)"

text \<open>The context of an inbound listener that is switched on.\<close>

definition listenerContext :: "CryptoLib \<Rightarrow> bool \<Rightarrow> TLSListener \<Rightarrow> TlsConfig option eng" where
  "listenerContext L hasProvider l =
     (if lsListen l = [] then State_Monad.return (Inr None)
      else if \<not> hasProvider then engError (NoTLSProvider (lsListen l))
      else (case lsResolved l of
          None \<Rightarrow> engError (NoResolvedProfile (lsListen l))
        | Some rp \<Rightarrow> do {
            r \<leftarrow> ServerConfig L rp;
            (case r of
               Inl e \<Rightarrow> engError (ServerContext (lsListen l) e)
             | Inr c \<Rightarrow> State_Monad.return (Inr (Some c)))
          }))"

text \<open>The distinct outbound profiles by name, and the endpoint that first asked for one.\<close>

definition addOutbound ::
  "Endpoint \<Rightarrow> ResolvedTLSProfile \<Rightarrow> (string \<times> ResolvedTLSProfile) list \<times> Endpoint option
     \<Rightarrow> (string \<times> ResolvedTLSProfile) list \<times> Endpoint option" where
  "addOutbound who rp acc = (case acc of (outbound, firstEndpoint) \<Rightarrow>
     (if map_of outbound (rpName rp) \<noteq> None then (outbound, firstEndpoint)
      else ((rpName rp, rp) # outbound, (if firstEndpoint = None then Some who else firstEndpoint))))"

fun outboundApps ::
  "nat \<Rightarrow> Application list \<Rightarrow> (string \<times> ResolvedTLSProfile) list \<times> Endpoint option
     \<Rightarrow> (string \<times> ResolvedTLSProfile) list \<times> Endpoint option" where
  "outboundApps i [] acc = acc"
| "outboundApps i (app # apps) acc = outboundApps (Suc i) apps
     (case appResolved app of
        None \<Rightarrow> acc
      | Some rp \<Rightarrow> if appTransport app \<noteq> TransportTLS then acc else addOutbound (SequenceApp i (appName app)) rp acc)"

definition outboundProfiles :: "Config \<Rightarrow> (string \<times> ResolvedTLSProfile) list \<times> Endpoint option" where
  "outboundProfiles c =
     (let acc = outboundApps 0 (cfgSequence c) ([], None) in
      case nhResolved (cfgNextHop c) of
        None \<Rightarrow> acc
      | Some rp \<Rightarrow> if nhTransport (cfgNextHop c) = TransportTLS then addOutbound NextHopEndpoint rp acc else acc)"

fun buildDialers :: "Startup \<Rightarrow> CryptoLib \<Rightarrow> (string \<times> ResolvedTLSProfile) list \<Rightarrow> (string \<times> TlsConfig) list eng" where
  "buildDialers S L [] = State_Monad.return (Inr [])"
| "buildDialers S L ((name, rp) # rps) = do {
     r \<leftarrow> ClientConfig L rp;
     (case r of
        Inl e \<Rightarrow> engError (ClientContext name e)
      | Inr c \<Rightarrow>
          if \<not> tlsUAOk S name then engError (TLSUAFailed name)
          else if \<not> tlsClientOk S name then engError (TLSClientFailed name)
          else engBind (buildDialers S L rps) (\<lambda>ds. State_Monad.return (Inr ((name, c) # ds))))
   }"

definition New :: "Startup \<Rightarrow> CryptoLib \<Rightarrow> bool \<Rightarrow> Config \<Rightarrow> Engine eng" where
  "New S L hasProvider c =
     (case SplitHostPort (cfgSIPListen c) of
        None \<Rightarrow> engError (BadListenAddr (cfgSIPListen c))
      | Some (host, portStr) \<Rightarrow>
     (case atoi portStr of
        None \<Rightarrow> engError (BadListenPort portStr)
      | Some port \<Rightarrow>
     (case parsePortRange (rtpPortRange (cfgRTP c)) of
        Inl e \<Rightarrow> engError (BadPortRange e)
      | Inr (portMin, portMax) \<Rightarrow>
          if \<not> uaOk S then engError UAFailed
          else if \<not> serverOk S then engError ServerFailed
          else if \<not> clientOk S then engError ClientFailed
          else
            engBind (listenerContext L hasProvider (cfgTLS c)) (\<lambda>tls.
            engBind (listenerContext L hasProvider (cfgWSS c)) (\<lambda>wss.
              (case outboundProfiles c of (outbound, firstEndpoint) \<Rightarrow>
                 if outbound \<noteq> [] \<and> \<not> hasProvider then engError (NoProviderFor firstEndpoint)
                 else engBind (buildDialers S L (mapOrder S outbound)) (\<lambda>dialers.
                   State_Monad.return (Inr
                     \<lparr>engHost = host, engPort = port,
                      engLegTimeout = (if cfgLegTimeoutDur c \<le> 0 then 32 * second else cfgLegTimeoutDur c),
                      engIdleTimeout = rtpIdleTimeoutDur (cfgRTP c),
                      engPorts = newPortAllocator portMin portMax,
                      engMediaPublicAddr = (if cfgPublicAddress c = [] then host else cfgPublicAddress c),
                      engObsListen = cfgObsListen c, engTLSServer = tls, engWSSServer = wss,
                      engDialers = dialers\<rparr>))))))))"

section \<open>Run\<close>

text \<open>The sockets Run opens side by side; the first failure ends it.\<close>

datatype Listener = ListenUDP string | ListenTCP string | ListenTLS string | ListenWS string | ListenWSS string

definition runListeners :: "Engine \<Rightarrow> Config \<Rightarrow> Listener list" where
  "runListeners e c = [ListenUDP (cfgSIPListen c), ListenTCP (cfgSIPListen c)]
     @ (if engTLSServer e \<noteq> None then [ListenTLS (lsListen (cfgTLS c))] else [])
     @ (if cfgWSListen c \<noteq> [] then [ListenWS (cfgWSListen c)] else [])
     @ (if engWSSServer e \<noteq> None then [ListenWSS (lsListen (cfgWSS c))] else [])"

text \<open>The TLS listener: binding fails at once, and the end of serving counts as clean once the engine's
  context is done.\<close>

datatype serve_error = ListenTLSFailed string | ServeFailed string

definition serveTLS :: "string \<Rightarrow> bool \<Rightarrow> string option \<Rightarrow> bool \<Rightarrow> serve_error option" where
  "serveTLS addr listenOk served ctxDone =
     (if \<not> listenOk then Some (ListenTLSFailed addr)
      else if ctxDone then None
      else map_option ServeFailed served)"

text \<open>A connection accepted there, with the handshakes it has reported: the peer and the error's text.\<close>

datatype ReadError = EOF | WrapsEOF string | ReadFailed string

record auditConn =
  acPeer :: string
  acIsTLS :: bool
  acLogged :: bool
  acReports :: "(string \<times> string) list"

definition audit_Read :: "bool \<Rightarrow> ReadError option \<Rightarrow> auditConn \<Rightarrow> auditConn" where
  "audit_Read handshakeComplete err c = (case err of
       Some (ReadFailed reason) \<Rightarrow>
         if \<not> acLogged c \<and> acIsTLS c \<and> \<not> handshakeComplete
         then c\<lparr>acLogged := True, acReports := acReports c @ [(acPeer c, reason)]\<rparr> else c
     | _ \<Rightarrow> c)"

lemma rejected_handshake_reported_once:
  assumes "acReports c = []" "\<not> acLogged c"
  shows "acReports (fold (\<lambda>(done, err). audit_Read done err) reads c) =
     (if acIsTLS c then take 1 [(acPeer c, reason). (done, Some (ReadFailed reason)) \<leftarrow> reads, \<not> done] else [])"
proof -
  have logged: "fold (\<lambda>(done, err). audit_Read done err) reads c = c" if "acLogged c \<or> \<not> acIsTLS c" for reads c
    using that by (induction reads) (auto simp: audit_Read_def split: option.split ReadError.split)
  show ?thesis
    using assms
  proof (induction reads)
    case (Cons x reads)
    obtain d err where x: "x = (d, err)" by force
    show ?case
      using Cons by (auto simp: x audit_Read_def [of d err] logged split: option.split ReadError.split)
  qed simp
qed

section \<open>Dialers\<close>

lemma run_engBind: "run_state (engBind m f) s = (case run_state m s of (Inl e, s') \<Rightarrow> (Inl e, s') | (Inr a, s') \<Rightarrow> run_state (f a) s')"
  by (auto simp: engBind_def run_then split: prod.split sum.split)

lemmas eng_runs = run_then run_engBind engError_def

lemma addOutbound_keys: "fst ` set (fst (addOutbound who rp acc)) = insert (rpName rp) (fst ` set (fst acc))"
  by (cases acc) (force simp: addOutbound_def dest: map_of_SomeD)

lemma outboundApps_keys: "fst ` set (fst (outboundApps i apps acc)) = fst ` set (fst acc)
    \<union> {rpName rp | app rp. app \<in> set apps \<and> appTransport app = TransportTLS \<and> appResolved app = Some rp}"
proof (induction i apps acc rule: outboundApps.induct)
  case (2 i app apps acc)
  then show ?case by (auto simp: addOutbound_keys split: option.splits if_splits)
qed simp

lemma outboundProfiles_keys: "fst ` set (fst (outboundProfiles c)) =
    {rpName rp | app rp. app \<in> set (cfgSequence c) \<and> appTransport app = TransportTLS \<and> appResolved app = Some rp}
    \<union> {rpName rp | rp. nhTransport (cfgNextHop c) = TransportTLS \<and> nhResolved (cfgNextHop c) = Some rp}"
  by (auto simp: outboundProfiles_def Let_def addOutbound_keys outboundApps_keys split: option.splits)

lemma buildDialers_keys: "run_state (buildDialers S L rps) p = (Inr ds, p') \<Longrightarrow> map fst ds = map fst rps"
proof (induction rps arbitrary: p ds)
  case (Cons r rps)
  obtain name rp where r: "r = (name, rp)" by force
  from Cons.prems obtain c p1 ds' where "run_state (buildDialers S L rps) p1 = (Inr ds', p')" "ds = (name, c) # ds'"
    by (auto simp: r eng_runs split: prod.splits sum.splits if_splits)
  with Cons.IH show ?case by (simp add: r)
qed simp

lemma New_built:
  assumes "run_state (New S L hasProvider c) p = (Inr e, p')"
  shows "\<exists>host portStr mn mx p1 p2 p3. SplitHostPort (cfgSIPListen c) = Some (host, portStr) \<and> atoi portStr = Some (engPort e)
    \<and> parsePortRange (rtpPortRange (cfgRTP c)) = Inr (mn, mx) \<and> engPorts e = newPortAllocator mn mx \<and> engHost e = host
    \<and> engLegTimeout e = (if cfgLegTimeoutDur c \<le> 0 then 32 * second else cfgLegTimeoutDur c)
    \<and> engIdleTimeout e = rtpIdleTimeoutDur (cfgRTP c)
    \<and> run_state (listenerContext L hasProvider (cfgTLS c)) p = (Inr (engTLSServer e), p1)
    \<and> run_state (listenerContext L hasProvider (cfgWSS c)) p1 = (Inr (engWSSServer e), p2)
    \<and> run_state (buildDialers S L (mapOrder S (fst (outboundProfiles c)))) p2 = (Inr (engDialers e), p3)"
  using assms by (auto simp: New_def eng_runs split: option.splits sum.splits prod.splits if_splits)

lemma listenerContext_on:
  "run_state (listenerContext L hp l) p = (Inr c, p') \<Longrightarrow> c \<noteq> None \<longleftrightarrow> lsListen l \<noteq> []"
  by (auto simp: listenerContext_def eng_runs split: if_splits option.splits prod.splits sum.splits)

lemma resolveProfile_name: "resolveProfile c name = Inr rp \<Longrightarrow> rpName rp = name"
  by (auto simp: resolveProfile_def Let_def split: if_splits option.splits)

text \<open>C32: An engine built from an accepted configuration can dial every leg: each application and the
  next hop whose transport is tls finds a dialer under its profile's name, each listener that is on
  has its context, the leg deadline is positive, and the port allocator covers the configured range of
  positive ports.\<close>

theorem engine_has_every_dialer:
  assumes "Parse compile raw = Inr c" "decoded raw" "\<forall>m. set (mapOrder S m) = set m"
    "run_state (New S L True c) p = (Inr e, p')"
  shows "(\<forall>app \<in> set (cfgSequence c). appTransport app = TransportTLS \<longrightarrow> map_of (engDialers e) (appTLSProfile app) \<noteq> None)
     \<and> (nhTransport (cfgNextHop c) = TransportTLS \<longrightarrow> map_of (engDialers e) (nhTLSProfile (cfgNextHop c)) \<noteq> None)
     \<and> (engTLSServer e \<noteq> None \<longleftrightarrow> lsListen (cfgTLS c) \<noteq> []) \<and> (engWSSServer e \<noteq> None \<longleftrightarrow> lsListen (cfgWSS c) \<noteq> [])
     \<and> 0 < engLegTimeout e \<and> 0 \<le> engIdleTimeout e
     \<and> (\<exists>mn mx. 0 < mn \<and> mn < mx \<and> parsePortRange (rtpPortRange (cfgRTP c)) = Inr (mn, mx) \<and> engPorts e = newPortAllocator mn mx)"
proof -
  have r: "cfgResolved c" using Parse_fit [OF assms(1,2)] by simp
  from New_built [OF assms(4)] obtain host portStr mn mx p1 p2 p3 where
    rng: "parsePortRange (rtpPortRange (cfgRTP c)) = Inr (mn, mx)" "engPorts e = newPortAllocator mn mx"
    and t: "engLegTimeout e = (if cfgLegTimeoutDur c \<le> 0 then 32 * second else cfgLegTimeoutDur c)"
      "engIdleTimeout e = rtpIdleTimeoutDur (cfgRTP c)"
    and l: "run_state (listenerContext L True (cfgTLS c)) p = (Inr (engTLSServer e), p1)"
      "run_state (listenerContext L True (cfgWSS c)) p1 = (Inr (engWSSServer e), p2)"
    and d: "run_state (buildDialers S L (mapOrder S (fst (outboundProfiles c)))) p2 = (Inr (engDialers e), p3)"
    by auto
  have keys: "fst ` set (engDialers e) = fst ` set (fst (outboundProfiles c))"
    using arg_cong [where f = set, OF buildDialers_keys [OF d]] assms(3) by (simp only: set_map)
  have dial: "map_of (engDialers e) name \<noteq> None" if "name \<in> fst ` set (fst (outboundProfiles c))" for name
    using that unfolding keys [symmetric] by (simp add: map_of_eq_None_iff)
  have "map_of (engDialers e) (appTLSProfile app) \<noteq> None"
    if app: "app \<in> set (cfgSequence c)" "appTransport app = TransportTLS" for app
  proof -
    have "resolvedAs c (appTransport app) (appTLSProfile app) (appResolved app)" using r app(1) by (simp add: cfgResolved_def)
    then obtain rp where "appResolved app = Some rp" "rpName rp = appTLSProfile app"
      using app(2) by (auto simp: resolvedAs_def dest: resolveProfile_name)
    with app show ?thesis by (intro dial) (force simp: outboundProfiles_keys)
  qed
  moreover have "map_of (engDialers e) (nhTLSProfile (cfgNextHop c)) \<noteq> None" if nh: "nhTransport (cfgNextHop c) = TransportTLS"
  proof -
    have "resolvedAs c (nhTransport (cfgNextHop c)) (nhTLSProfile (cfgNextHop c)) (nhResolved (cfgNextHop c))"
      using r by (simp add: cfgResolved_def)
    then obtain rp where "nhResolved (cfgNextHop c) = Some rp" "rpName rp = nhTLSProfile (cfgNextHop c)"
      using nh by (auto simp: resolvedAs_def dest: resolveProfile_name)
    with nh show ?thesis by (intro dial) (force simp: outboundProfiles_keys)
  qed
  moreover have "0 < mn \<and> mn < mx" using rng(1) by (auto simp: parsePortRange_def split: list.splits option.splits if_splits)
  ultimately show ?thesis
    using listenerContext_on [OF l(1)] listenerContext_on [OF l(2)] r t rng by (auto simp: cfgResolved_def second_def)
qed

definition sampleStartup :: Startup where
  "sampleStartup = \<lparr>uaOk = True, serverOk = True, clientOk = True, tlsUAOk = (\<lambda>_. True), tlsClientOk = (\<lambda>_. True), mapOrder = rev\<rparr>"

lemma sample_engine:
  "\<exists>e p'. run_state (New sampleStartup sampleCrypto True (okConfig (Parse (\<lambda>_. None) sampleRaw))) NewStdProvider = (Inr e, p')"
proof -
  have "isl (fst (run_state (New sampleStartup sampleCrypto True (okConfig (Parse (\<lambda>_. None) sampleRaw))) NewStdProvider)) = False"
    by code_simp
  then show ?thesis by (metis sum.collapse(2) surjective_pairing)
qed

theorem engine_has_every_dialer_witness:
  "\<exists>e p'. run_state (New sampleStartup sampleCrypto True (okConfig (Parse (\<lambda>_. None) sampleRaw))) NewStdProvider = (Inr e, p')
     \<and> 0 < engLegTimeout e"
proof -
  from sample_engine obtain e p' where n: "run_state (New sampleStartup sampleCrypto True (okConfig (Parse (\<lambda>_. None) sampleRaw))) NewStdProvider = (Inr e, p')"
    by blast
  from engine_has_every_dialer [OF sample_parses _ _ n] n show ?thesis
    by (auto simp: decoded_def sampleRaw_def sampleApp_def sampleStartup_def)
qed

end
