(* ===== verification/Metrics.thy ===== *)
theory Metrics
  imports CallWorld
begin

text \<open>
  The metrics of the sequencer, internal/b2bua/metrics.go, prommetrics.go and obs.go: the sink interface the
  set-up of a call reports to, its silent and its Prometheus implementation, and what a scrape shows. The
  calls a set-up makes to its sink are the events of its trace of that kind.
\<close>

section \<open>The sink\<close>

text \<open>The methods of MetricsSink with their arguments; a duration is in nanoseconds, where the library has seconds
  in floating point: its sum is rounded.\<close>

datatype SinkCall = AppInvocation string | AppFailure string | TerminatingHopFailure
  | ObserveSequencingLatency int | MediaCodecMismatch string string

text \<open>A counter vector has a series for each label it was incremented with.\<close>

type_synonym 'l counterVec = "'l \<Rightarrow> nat option"

definition incLabel :: "'l \<Rightarrow> 'l counterVec \<Rightarrow> 'l counterVec" where
  "incLabel l v = v(l := Some (case v l of None \<Rightarrow> 1 | Some n \<Rightarrow> n + 1))"

text \<open>A histogram counts, for each upper bound, the observations up to it, and adds all of them.\<close>

record Histogram =
  hBuckets :: "(int \<times> nat) list"
  hCount :: nat
  hSum :: int

definition observe :: "int \<Rightarrow> Histogram \<Rightarrow> Histogram" where
  "observe d h = h\<lparr>hBuckets := map (\<lambda>(le, n). (le, if d \<le> le then n + 1 else n)) (hBuckets h),
     hCount := hCount h + 1, hSum := hSum h + d\<rparr>"

text \<open>The library's default bounds, 5 ms to 10 s.\<close>

definition DefBuckets :: "int list" where
  "DefBuckets = map (\<lambda>ms. ms * 1000000) [5, 10, 25, 50, 100, 250, 500, 1000, 2500, 5000, 10000]"

record PromMetrics =
  appInvocations :: "string counterVec"
  appFailures :: "string counterVec"
  terminatingHopFailures :: nat
  mediaCodecMismatches :: "(string \<times> string) counterVec"
  sequencingDuration :: Histogram
  gaugesBound :: bool

definition NewPromMetrics :: PromMetrics where
  "NewPromMetrics = \<lparr>appInvocations = (\<lambda>_. None), appFailures = (\<lambda>_. None), terminatingHopFailures = 0,
     mediaCodecMismatches = (\<lambda>_. None), sequencingDuration = \<lparr>hBuckets = map (\<lambda>le. (le, 0)) DefBuckets, hCount = 0, hSum = 0\<rparr>,
     gaugesBound = False\<rparr>"

definition promCall :: "SinkCall \<Rightarrow> PromMetrics \<Rightarrow> PromMetrics" where
  "promCall c p = (case c of
       AppInvocation name \<Rightarrow> p\<lparr>appInvocations := incLabel name (appInvocations p)\<rparr>
     | AppFailure name \<Rightarrow> p\<lparr>appFailures := incLabel name (appFailures p)\<rparr>
     | TerminatingHopFailure \<Rightarrow> p\<lparr>terminatingHopFailures := terminatingHopFailures p + 1\<rparr>
     | ObserveSequencingLatency d \<Rightarrow> p\<lparr>sequencingDuration := observe d (sequencingDuration p)\<rparr>
     | MediaCodecMismatch a b \<Rightarrow> p\<lparr>mediaCodecMismatches := incLabel (a, b) (mediaCodecMismatches p)\<rparr>)"

text \<open>The label values of a call. The library panics on one that is not UTF-8.\<close>

definition labelsOf :: "SinkCall \<Rightarrow> string list" where
  "labelsOf c = (case c of
       AppInvocation name \<Rightarrow> [name]
     | AppFailure name \<Rightarrow> [name]
     | MediaCodecMismatch a b \<Rightarrow> [a, b]
     | _ \<Rightarrow> [])"

fun promReports :: "SinkCall list \<Rightarrow> PromMetrics \<Rightarrow> PromMetrics option" where
  "promReports [] p = Some p"
| "promReports (c # cs) p = (if list_all ValidString (labelsOf c) then promReports cs (promCall c p) else None)"

lemma promReports_iff: "promReports cs p = (if \<forall>c \<in> set cs. list_all ValidString (labelsOf c) then Some (fold promCall cs p) else None)"
  by (induction cs p rule: promReports.induct) auto

definition noopCall :: "SinkCall \<Rightarrow> unit \<Rightarrow> unit" where
  "noopCall c u = u"

text \<open>The gauges are registered once; the library panics at a second registration.\<close>

definition BindCallSource :: "PromMetrics \<Rightarrow> PromMetrics option" where
  "BindCallSource p = (if gaugesBound p then None else Some (p\<lparr>gaugesBound := True\<rparr>))"

section \<open>What a scrape shows\<close>

datatype Series = AppInvocationsTotal string | AppFailuresTotal string | HopFailuresTotal | MismatchTotal string string
  | DurationBucket int | DurationCount | DurationSum | ActiveCallsGauge | ActiveLegsGauge

text \<open>The value of a series, if it is there; the gauges read the registry at that moment.\<close>

definition scrape :: "PromMetrics \<Rightarrow> World \<Rightarrow> Series \<Rightarrow> int option" where
  "scrape p w s = (case s of
       AppInvocationsTotal name \<Rightarrow> map_option int (appInvocations p name)
     | AppFailuresTotal name \<Rightarrow> map_option int (appFailures p name)
     | HopFailuresTotal \<Rightarrow> Some (int (terminatingHopFailures p))
     | MismatchTotal a b \<Rightarrow> map_option int (mediaCodecMismatches p (a, b))
     | DurationBucket le \<Rightarrow> map_option int (map_of (hBuckets (sequencingDuration p)) le)
     | DurationCount \<Rightarrow> Some (int (hCount (sequencingDuration p)))
     | DurationSum \<Rightarrow> Some (hSum (sequencingDuration p))
     | ActiveCallsGauge \<Rightarrow> if gaugesBound p then Some (int (ActiveCalls w)) else None
     | ActiveLegsGauge \<Rightarrow> if gaugesBound p then Some (int (ActiveLegs w)) else None)"

section \<open>The contract of a sink\<close>

text \<open>A sink is called from many goroutines at once: what it holds must not depend on the order.\<close>

locale metrics_sink =
  fixes call :: "SinkCall \<Rightarrow> 's \<Rightarrow> 's"
  assumes call_commutes: "call a (call b s) = call b (call a s)"
begin

lemma calls_any_order: "mset xs = mset ys \<Longrightarrow> fold call xs s = fold call ys s"
  using fold_multiset_equiv [of xs call ys] call_commutes by (simp add: fun_eq_iff)

lemma calls_shuffled: "zs \<in> shuffles xs ys \<Longrightarrow> fold call zs s = fold call ys (fold call xs s)"
  using calls_any_order [of zs "xs @ ys" s] mset_shuffles [of zs xs ys] by simp

end

interpretation prom: metrics_sink promCall
proof
  fix a b p
  have o: "observe d (observe e h) = observe e (observe d h)" for d e h
    by (simp add: observe_def case_prod_beta)
  have l: "incLabel x (incLabel y v) = incLabel y (incLabel x v)" for x y :: 'l and v
    by (cases "x = y") (auto simp: incLabel_def fun_eq_iff)
  have l': "incLabel x (incLabel y v) = incLabel y (incLabel x v)" for x y :: "'l \<times> 'm" and v
    by (cases "x = y") (auto simp: incLabel_def fun_eq_iff)
  show "promCall a (promCall b p) = promCall b (promCall a p)"
    by (cases a; cases b) (simp_all add: promCall_def o l l')
qed

interpretation noop: metrics_sink noopCall
  by unfold_locales (simp add: noopCall_def)

section \<open>What a set-up reports\<close>

fun isSink :: "Event \<Rightarrow> bool" where
  "isSink (EvAppInvocation _) = True"
| "isSink (EvAppFailure _) = True"
| "isSink EvTerminatingHopFailure = True"
| "isSink EvSequencingLatency = True"
| "isSink (EvMediaCodecMismatch _ _) = True"
| "isSink _ = False"

text \<open>The call of the sink an event stands for; \<open>span\<close> is the time since the start of the set-up.\<close>

definition sinkCall :: "int \<Rightarrow> Event \<Rightarrow> SinkCall list" where
  "sinkCall span e = (case e of
       EvAppInvocation name \<Rightarrow> [AppInvocation name]
     | EvAppFailure name \<Rightarrow> [AppFailure name]
     | EvTerminatingHopFailure \<Rightarrow> [TerminatingHopFailure]
     | EvSequencingLatency \<Rightarrow> [ObserveSequencingLatency span]
     | EvMediaCodecMismatch a b \<Rightarrow> [MediaCodecMismatch a b]
     | _ \<Rightarrow> [])"

definition sinkCalls :: "int \<Rightarrow> Event list \<Rightarrow> SinkCall list" where
  "sinkCalls span es = concat (map (sinkCall span) es)"

end
