(* ===== verification/MetricsProps.thy ===== *)
theory MetricsProps
  imports Metrics ReachProps
begin

text \<open>
  What the metrics say of the calls: the set-up of a call reports exactly what it did, whatever other goroutines
  do meanwhile; the counters of a scrape are the counts of what all set-ups did; the gauges are the live calls.
\<close>

section \<open>Reports of a set-up\<close>

definition tells :: "Event list \<Rightarrow> World \<Rightarrow> bool" where
  "tells xs w = (filter isSink (wTrace w) = xs)"

lemma tells_simps [simp]:
  "tells xs (w\<lparr>wPorts := x1\<rparr>) = tells xs w" "tells xs (w\<lparr>wHandles := x2\<rparr>) = tells xs w"
  "tells xs (w\<lparr>wTick := x3\<rparr>) = tells xs w" "tells xs (w\<lparr>wOthers := x4\<rparr>) = tells xs w"
  "tells xs (updCall r f w) = tells xs w" "tells xs (regRemove c d w) = tells xs w"
  by (simp_all add: tells_def updCall_def regRemove_def Let_def)

lemma tells_addTrace: "tells xs w \<Longrightarrow> tells (xs @ filter isSink es) (addTrace es w)"
  by (simp add: tells_def addTrace_def)

lemma byes_not_sink: "e \<in> set (byes r c) \<Longrightarrow> \<not> isSink e"
  by (auto simp: byes_def split: if_splits option.splits)

interpretation tally: quiet_inv "tells xs" "\<lambda>_. True" isSink for xs
proof unfold_locales
  show quiet: "tells xs (addTrace es w)" if "tells xs w" "\<forall>e \<in> set es. \<not> isSink e" for w es
    using tells_addTrace [OF that(1), of es] that(2) by (simp add: filter_False)
  have rel: "tells xs (runRelease r fixed w) = tells xs w" for r fixed w
    by (cases "media (wCalls w ! r)") (simp_all add: runRelease_upd)
  show "tells xs (teardown r w)" if "tells xs w" for w r
    using that byes_not_sink by (auto simp: teardown_def Let_def rel intro!: quiet split: option.split)
qed simp_all

text \<open>An event reported after some others.\<close>

lemma wp_tell: "tells xs w \<Longrightarrow> wp (emit es) (\<lambda>_. tells (xs @ filter isSink es)) w"
  by (simp add: emit_def wp_simps tells_addTrace)

lemmas tally_keeps = tally.keeps_locked tally.keeps_respond tally.keeps_fail tally.keeps_respondError tally.keeps_wait
  tally.keeps_ack tally.keeps_releaseTap tally.keeps_releasePairs tally.keeps_closeSides tally.keeps_acquire
  tally.keeps_bindSide tally.keeps_acquireTap tally.keeps_finish tally.keeps_failWith tally.keeps_failFalse
  tally.keeps_registerMedia tally.keeps_anchorMedia tally.keeps_sync

subsection \<open>Applications\<close>

definition appTold :: "Event list \<Rightarrow> Application \<Rightarrow> bool \<Rightarrow> World \<Rightarrow> bool" where
  "appTold xs app ok w = (ok \<and> tells (xs @ [EvAppInvocation (appName app)]) w
     \<or> (ok \<longrightarrow> appOnFailure app \<noteq> FailureAbort) \<and> tells (xs @ [EvAppFailure (appName app)]) w
     \<or> \<not> ok \<and> tells xs w)"

lemmas wp_step = wp_keeping [where I = "tells xs"] for xs

lemma wp_appLegFailed_told:
  assumes "tells xs w" "keeps (tells (xs @ [EvAppFailure (appName app)])) m"
  shows "wp (do { abort \<leftarrow> appLegFailed app tap; if abort then do { _ \<leftarrow> m; State_Monad.return False } else State_Monad.return True })
    (appTold xs app) w"
proof -
  have k: "keeps (tells xs) (case tap of None \<Rightarrow> State_Monad.return () | Some t \<Rightarrow> releaseTap t)"
    by (intro keeps_cases keeps_return tally_keeps)
  have "wp (appLegFailed app tap) (\<lambda>b w'. tells (xs @ [EvAppFailure (appName app)]) w' \<and> b = (appOnFailure app = FailureAbort)) w"
    unfolding appLegFailed_def
  proof (rule wp_step [OF k assms(1)])
    fix r w'
    assume "tells xs w'"
    from wp_tell [OF this, of "[EvAppFailure (appName app)]"]
    show "wp (do { _ \<leftarrow> emit [EvAppFailure (appName app)]; State_Monad.return (failureAction (appOnFailure app) = actionAbort) })
        (\<lambda>b w'. tells (xs @ [EvAppFailure (appName app)]) w' \<and> b = (appOnFailure app = FailureAbort)) w'"
      unfolding wp_bind by (rule wp_mono) (simp add: wp_return failureAction_def)
  qed
  then show ?thesis
    unfolding wp_bind [of "appLegFailed app tap"]
  proof (rule wp_mono, elim conjE)
    fix b w'
    assume t: "tells (xs @ [EvAppFailure (appName app)]) w'" and b: "b = (appOnFailure app = FailureAbort)"
    show "wp (if b then do { _ \<leftarrow> m; State_Monad.return False } else State_Monad.return True) (appTold xs app) w'"
    proof (cases b)
      case True
      have "wp (do { _ \<leftarrow> m; State_Monad.return False }) (appTold xs app) w'"
        by (rule wp_step [OF assms(2) t]) (simp add: wp_return appTold_def)
      with True show ?thesis by simp
    qed (use t b in \<open>simp add: wp_return appTold_def\<close>)
  qed
qed

lemma wp_appAnswered_told: "tells xs w \<Longrightarrow> wp (appAnswered E r app tap lid s res) (\<lambda>_. tells (xs @ [EvAppInvocation (appName app)])) w"
proof -
  assume t: "tells xs w"
  have 1: "keeps (tells xs) (ack E r s)" by (intro tally_keeps)
  have 3: "keeps (tells xs) (locked E r f)" for f by (intro tally_keeps) simp
  have 2: "keeps (tells xs) (case tap of None \<Rightarrow> State_Monad.return ()
       | Some t \<Rightarrow> (case parseTapAnswer (resBody res) of
             Inl _ \<Rightarrow> releaseTap t
           | Inr ends \<Rightarrow> locked E r (\<lambda>c. c\<lparr>pendingTaps := pendingTaps c @ [stashedTap (appName app) t ends]\<rparr>)))"
    by (intro keeps_cases keeps_return tally_keeps) simp
  have 4: "wp (emit [EvAppInvocation (appName app)]) (\<lambda>_. tells (xs @ [EvAppInvocation (appName app)])) w'" if "tells xs w'" for w'
    using wp_tell [OF that, of "[EvAppInvocation (appName app)]"] by simp
  show ?thesis unfolding appAnswered_def by (rule wp_step [OF 1 t], rule wp_step [OF 2], assumption, rule wp_step [OF 3], assumption, rule 4)
qed

lemma wp_appLeg_told: "tells xs w \<Longrightarrow> wp (appLeg E r app uri body tap) (appTold xs app) w"
proof -
  assume t: "tells xs w"
  have inv: "keeps (tells xs) (invite E r roleApplication d b body hdrs)" for d b hdrs
    by (rule tally.keeps_dial) simp
  have fl: "keeps (tells ys) (fail E r st reason)" and re: "keeps (tells ys) (respondInboundFromLegError E r a)" for ys st reason a
    by (rule tally_keeps)+
  have won: "wp (do { _ \<leftarrow> appAnswered E r app tap lid s res; State_Monad.return True }) (appTold xs app) w'"
    if "tells xs w'" for lid s res w'
    unfolding wp_bind by (rule wp_mono [OF wp_appAnswered_told [OF that]]) (simp add: wp_return appTold_def)
  have ans: "wp (case a of
             Answered res \<Rightarrow> do { _ \<leftarrow> appAnswered E r app tap lid s res; State_Monad.return True }
           | _ \<Rightarrow> do { abort \<leftarrow> appLegFailed app tap;
               if abort then do { _ \<leftarrow> respondInboundFromLegError E r a; State_Monad.return False }
               else State_Monad.return True }) (appTold xs app) w'" if "tells xs w'" for a lid s w'
    using won [OF that] wp_appLegFailed_told [OF that re] by (cases a) simp_all
  have rest: "wp (case sess of
        None \<Rightarrow> do { abort \<leftarrow> appLegFailed app tap;
          if abort then do { _ \<leftarrow> fail E r 503 ''Service Unavailable''; State_Monad.return False }
          else State_Monad.return True }
      | Some s \<Rightarrow> do { a \<leftarrow> waitAnswer E r s (effectiveTimeout app (legTimeout E));
          (case a of
             Answered res \<Rightarrow> do { _ \<leftarrow> appAnswered E r app tap lid s res; State_Monad.return True }
           | _ \<Rightarrow> do { abort \<leftarrow> appLegFailed app tap;
               if abort then do { _ \<leftarrow> respondInboundFromLegError E r a; State_Monad.return False }
               else State_Monad.return True }) }) (appTold xs app) w'" if "tells xs w'" for sess lid w'
  proof (cases sess)
    case None
    with wp_appLegFailed_told [OF that fl] show ?thesis by simp
  next
    case (Some s)
    show ?thesis unfolding Some option.case by (rule wp_step [OF tally.keeps_wait that]) (rule ans)
  qed
  show ?thesis
    unfolding appLeg_def wp_bind [of "getCall r"] wp_getCall wp_bind [of "gets_st wTick"] wp_gets_st
    by (rule wp_step [OF inv t]) (rule rest)
qed

lemma wp_failed_told: "keeps (tells xs) m \<Longrightarrow> tells xs w \<Longrightarrow> wp (do { _ \<leftarrow> m; State_Monad.return False }) (appTold xs app) w"
  by (rule wp_step) (auto simp: wp_return appTold_def)

lemma wp_appStep_told:
  assumes t: "tells xs w" and m: "Matches (appRoutingRe app) (routing (wCalls w ! r))"
  shows "wp (appStep E r app) (appTold xs app) w"
proof (cases "ParseUri (lib E) (appURI app)")
  case None
  have "wp (do { _ \<leftarrow> fail E r 500 ''Server Error''; State_Monad.return False }) (appTold xs app) w"
    by (rule wp_failed_told [OF tally.keeps_fail t])
  with m None show ?thesis by (simp only: appStep_def wp_bind wp_getCall not_True_eq_False if_False option.case)
next
  case (Some uri)
  have inact: "wp (case buildInactiveOffer sdp h of Inl _ \<Rightarrow> do { _ \<leftarrow> fail E r 500 ''Server Error''; State_Monad.return False }
      | Inr body \<Rightarrow> appLeg E r app uri body None) (appTold xs app) w" for sdp h
    using wp_appLeg_told [OF t] wp_failed_told [OF tally.keeps_fail t] by (auto split: sum.split)
  have tap: "wp (case q of
         Inl e \<Rightarrow> do { _ \<leftarrow> emit [EvAppFailure (appName app)];
           if failureAction (appOnFailure app) = actionAbort then do {
             _ \<leftarrow> (if e = errTapExhausted then fail E r 503 ''Service Unavailable'' else fail E r 500 ''Server Error'');
             State_Monad.return False } else State_Monad.return True }
       | Inr tap \<Rightarrow> (case buildTapOffer sdp h (RTP (trCallerPair tap)) (RTP (trCalleePair tap)) of
            Inl _ \<Rightarrow> do { _ \<leftarrow> releaseTap tap; _ \<leftarrow> fail E r 500 ''Server Error''; State_Monad.return False }
          | Inr body \<Rightarrow> appLeg E r app uri body (Some tap))) (appTold xs app) w'"
    if t': "tells xs w'" for q w' sdp h
  proof (cases q)
    case (Inl e)
    have k: "keeps (tells ys) (if e = errTapExhausted then fail E r 503 ''Service Unavailable'' else fail E r 500 ''Server Error'')" for ys
      by (intro keeps_if tally.keeps_fail)
    have "wp (if failureAction (appOnFailure app) = actionAbort then do {
             _ \<leftarrow> (if e = errTapExhausted then fail E r 503 ''Service Unavailable'' else fail E r 500 ''Server Error'');
             State_Monad.return False } else State_Monad.return True) (appTold xs app) w2"
      if "tells (xs @ filter isSink [EvAppFailure (appName app)]) w2" for w2
    proof (cases "failureAction (appOnFailure app) = actionAbort")
      case True
      have "wp (do { _ \<leftarrow> (if e = errTapExhausted then fail E r 503 ''Service Unavailable'' else fail E r 500 ''Server Error'');
             State_Monad.return False }) (appTold xs app) w2"
        by (rule wp_step [OF k that]) (simp add: wp_return appTold_def)
      with True show ?thesis by simp
    next
      case False
      with that show ?thesis by (simp add: wp_return appTold_def failureAction_def split: if_splits)
    qed
    from wp_mono [OF wp_tell [OF t'] this] show ?thesis unfolding Inl sum.case wp_bind [of "emit _"] .
  next
    case (Inr tap)
    have "keeps (tells xs) (do { _ \<leftarrow> releaseTap tap; fail E r 500 ''Server Error'' })"
      by (intro keeps_bind tally_keeps)
    from wp_failed_told [OF this t'] have "wp (do { _ \<leftarrow> releaseTap tap; _ \<leftarrow> fail E r 500 ''Server Error''; State_Monad.return False })
        (appTold xs app) w'" by (simp add: wp_bind)
    with wp_appLeg_told [OF t'] show ?thesis unfolding Inr sum.case by (auto split: sum.split)
  qed
  have "wp (acquireTap E) (\<lambda>_. tells xs) w" using keepsD [OF tally.keeps_acquireTap t] .
  from wp_mono [OF this tap] inact show ?thesis
    using m Some by (simp add: appStep_def wp_bind wp_getCall)
qed

text \<open>One report per application, in order, up to where the chain ended.\<close>

definition reported :: "bool \<Rightarrow> Application \<Rightarrow> Event \<Rightarrow> bool" where
  "reported ok app e = (e = EvAppInvocation (appName app)
     \<or> e = EvAppFailure (appName app) \<and> (ok \<longrightarrow> appOnFailure app \<noteq> FailureAbort))"

definition chainTold :: "Event list \<Rightarrow> Application list \<Rightarrow> bool \<Rightarrow> World \<Rightarrow> bool" where
  "chainTold xs apps ok w = (\<exists>n outs. n \<le> length apps \<and> tells (xs @ outs) w
     \<and> list_all2 (reported ok) (take n apps) outs \<and> (ok \<longrightarrow> n = length apps))"

lemma chainTold_none: "tells xs w \<Longrightarrow> chainTold xs apps False w" "tells xs w \<Longrightarrow> chainTold xs [] ok w"
  unfolding chainTold_def by (intro exI [of _ 0] exI [of _ "[]"], simp)+

lemma reported_weaken: "reported True app e \<Longrightarrow> reported ok app e"
  by (auto simp: reported_def)

lemma chainTold_cons:
  assumes "reported True app e" "chainTold (xs @ [e]) apps ok w"
  shows "chainTold xs (app # apps) ok w"
proof -
  from assms(2) obtain n outs where o: "n \<le> length apps" "tells ((xs @ [e]) @ outs) w" "list_all2 (reported ok) (take n apps) outs"
    "ok \<longrightarrow> n = length apps" by (auto simp: chainTold_def)
  with reported_weaken [OF assms(1), of ok] show ?thesis
    unfolding chainTold_def by (intro exI [of _ "Suc n"] exI [of _ "e # outs"]) simp
qed

lemma chainTold_stop: "appTold xs app False w \<Longrightarrow> chainTold xs (app # apps) False w"
proof -
  assume "appTold xs app False w"
  then consider "tells (xs @ [EvAppFailure (appName app)]) w" | "tells xs w" by (auto simp: appTold_def)
  then show ?thesis
  proof cases
    case 1
    then show ?thesis unfolding chainTold_def
      by (intro exI [of _ 1] exI [of _ "[EvAppFailure (appName app)]"]) (simp add: reported_def)
  qed (rule chainTold_none)
qed

lemma appTold_True: "appTold xs app True w \<Longrightarrow> \<exists>e. reported True app e \<and> tells (xs @ [e]) w"
  by (auto simp: appTold_def reported_def)

lemma wp_appChain_told:
  "tells xs w \<Longrightarrow> seen r ys i w \<Longrightarrow> wp (appChain E r apps)
     (chainTold xs (filter (\<lambda>app. Matches (appRoutingRe app) (snd (snd (snd i)))) apps)) w"
proof (induction apps arbitrary: xs ys w)
  case Nil
  then show ?case by (simp add: wp_return chainTold_none)
next
  case (Cons app apps)
  let ?M = "\<lambda>app. Matches (appRoutingRe app) (snd (snd (snd i)))"
  have rt: "routing (wCalls w ! r) = snd (snd (snd i))" using Cons.prems by (auto simp: seen_def identity_def)
  show ?case
  proof (cases "?M app")
    case False
    then have "wp (appStep E r app) (\<lambda>b w'. b \<and> w' = w) w" by (simp add: appStep_def wp_bind wp_getCall rt wp_return)
    then show ?thesis
      unfolding appChain.simps wp_bind
      by (rule wp_mono) (use Cons.IH [OF Cons.prems] False in simp)
  next
    case True
    have "wp (appStep E r app) (\<lambda>b w'. appTold xs app b w' \<and> (\<exists>zs. seen r zs i w')) w"
    proof (rule wp_conj)
      show "wp (appStep E r app) (appTold xs app) w" by (rule wp_appStep_told [OF Cons.prems(1)]) (simp add: rt True)
      show "wp (appStep E r app) (\<lambda>_ w'. \<exists>zs. seen r zs i w') w"
        by (rule wp_mono [OF wp_appStep_seen [OF Cons.prems(2)]]) (auto simp: mayInvite_def)
    qed
    then show ?thesis
      unfolding appChain.simps wp_bind
    proof (rule wp_mono, elim conjE exE)
      fix b w' zs
      assume b: "appTold xs app b w'" and z: "seen r zs i w'"
      show "wp (if b then appChain E r apps else State_Monad.return False) (chainTold xs (filter ?M (app # apps))) w'"
      proof (cases b)
        case t: True
        have "appTold xs app True w'" using b t by simp
        from appTold_True [OF this] obtain e where e: "reported True app e" "tells (xs @ [e]) w'" by blast
        show ?thesis
          using wp_mono [OF Cons.IH [OF e(2) z] chainTold_cons [OF e(1)]] t True by simp
      next
        case False
        with b True show ?thesis by (simp add: wp_return chainTold_stop)
      qed
    qed
  qed
qed

subsection \<open>The next hop\<close>

text \<open>What the phases after the chain report: nothing or a failed hop, or the agreed codecs' mismatch, or, for a
  call that comes up, that mismatch if any and the time it took.\<close>

definition hopTold :: "Event list \<Rightarrow> bool \<Rightarrow> World \<Rightarrow> bool" where
  "hopTold xs ok w = (if ok then tells (xs @ [EvSequencingLatency]) w \<or> (\<exists>a b. tells (xs @ [EvMediaCodecMismatch a b, EvSequencingLatency]) w)
     else tells xs w \<or> tells (xs @ [EvTerminatingHopFailure]) w \<or> (\<exists>a b. tells (xs @ [EvMediaCodecMismatch a b]) w))"

lemma wp_quiet_false: "keeps (tells xs) m \<Longrightarrow> tells xs w \<Longrightarrow> wp (do { _ \<leftarrow> m; State_Monad.return False }) (hopTold xs) w"
  by (rule wp_step) (auto simp: wp_return hopTold_def)

lemma wp_failFalse_told: "tells xs w \<Longrightarrow> wp (failFalse E r st reason) (hopTold xs) w"
  unfolding failFalse_def by (rule wp_quiet_false [OF tally.keeps_fail])

lemma wp_hop_false:
  assumes "tells xs w" "keeps (tells (xs @ [EvTerminatingHopFailure])) m"
  shows "wp (do { _ \<leftarrow> emit [EvTerminatingHopFailure]; m }) (\<lambda>_. tells (xs @ [EvTerminatingHopFailure])) w"
  unfolding wp_bind
  by (rule wp_mono [OF wp_tell [OF assms(1)]]) (use keepsD [OF assms(2)] in simp)

definition dialTold :: "Event list \<Rightarrow> bool \<Rightarrow> World \<Rightarrow> bool" where
  "dialTold xs ok w = (tells xs w \<or> \<not> ok \<and> tells (xs @ [EvTerminatingHopFailure]) w)"

lemma wp_originatePBX_told:
  assumes t: "tells xs w"
  shows "wp (originatePBX E r offer) (\<lambda>a. dialTold xs (a \<noteq> None)) w"
proof (cases "ParseUri (lib E) (nhURI (cfgNextHop (cfg E)))")
  case None
  show ?thesis
    unfolding originatePBX_def Let_def None option.case
    by (rule wp_mono [OF keepsD [OF tally.keeps_failWith t]]) (simp add: dialTold_def)
next
  case (Some uri)
  let ?hop = "cfgNextHop (cfg E)"
  have inv: "keeps (tells xs) (invite E r rolePBX d b body hdrs)" for d b body hdrs
    by (rule tally.keeps_dial) simp
  have lk: "keeps (tells xs) (locked E r f)" for f by (rule tally.keeps_locked) simp
  have gone: "wp (hopFailed E r st reason) (\<lambda>a. dialTold xs (a \<noteq> None)) w'" if "tells xs w'" for st reason w'
    unfolding hopFailed_def failWith_def wp_bind
    by (rule wp_mono [OF wp_tell [OF that]], rule wp_mono [OF keepsD [OF tally.keeps_fail]], simp)
       (simp add: wp_return dialTold_def)
  have lost: "wp (do { _ \<leftarrow> emit [EvTerminatingHopFailure]; _ \<leftarrow> respondInboundFromLegError E r a; State_Monad.return None })
      (\<lambda>a. dialTold xs (a \<noteq> None)) w'" if "tells xs w'" for a w'
    unfolding wp_bind
    by (rule wp_mono [OF wp_tell [OF that]], rule wp_mono [OF keepsD [OF tally.keeps_respondError]], simp)
       (simp add: wp_return dialTold_def)
  have won: "wp (do { _ \<leftarrow> ack E r s; _ \<leftarrow> locked E r f; State_Monad.return (Some res) }) (\<lambda>a. dialTold xs (a \<noteq> None)) w'"
    if "tells xs w'" for s f res w'
    by (rule wp_step [OF tally.keeps_ack that], rule wp_step [OF lk], assumption) (simp add: wp_return dialTold_def)
  have rest: "wp (case sess of
             None \<Rightarrow> hopFailed E r 503 ''Service Unavailable''
           | Some s \<Rightarrow> do {
               _ \<leftarrow> locked E r (\<lambda>c. c\<lparr>pbxLeg := Some \<lparr>legRole = rolePBX, legTarget = nhURI ?hop,
                      legID = lid, legSession = s, legAnswer = []\<rparr>\<rparr>);
               a \<leftarrow> waitAnswer E r s (legTimeout E);
               (case a of
                  Answered res \<Rightarrow> do {
                    _ \<leftarrow> ack E r s;
                    _ \<leftarrow> locked E r (\<lambda>c. c\<lparr>pbxLeg := map_option (\<lambda>l. l\<lparr>legAnswer := resBody res\<rparr>) (pbxLeg c)\<rparr>);
                    State_Monad.return (Some res) }
                | _ \<Rightarrow> do {
                    _ \<leftarrow> emit [EvTerminatingHopFailure];
                    _ \<leftarrow> respondInboundFromLegError E r a;
                    State_Monad.return None }) }) (\<lambda>a. dialTold xs (a \<noteq> None)) w'" if "tells xs w'" for sess lid w'
  proof (cases sess)
    case None
    with gone [OF that] show ?thesis by simp
  next
    case (Some s)
    have "wp (case a of
                  Answered res \<Rightarrow> do {
                    _ \<leftarrow> ack E r s;
                    _ \<leftarrow> locked E r (\<lambda>c. c\<lparr>pbxLeg := map_option (\<lambda>l. l\<lparr>legAnswer := resBody res\<rparr>) (pbxLeg c)\<rparr>);
                    State_Monad.return (Some res) }
                | _ \<Rightarrow> do {
                    _ \<leftarrow> emit [EvTerminatingHopFailure];
                    _ \<leftarrow> respondInboundFromLegError E r a;
                    State_Monad.return None }) (\<lambda>a. dialTold xs (a \<noteq> None)) w2" if "tells xs w2" for a w2
      using won [OF that] lost [OF that] by (cases a) simp_all
    note answered = this
    show ?thesis
      unfolding Some option.case
      by (rule wp_step [OF lk that], rule wp_step [OF tally.keeps_wait], assumption, rule answered)
  qed
  show ?thesis
    unfolding originatePBX_def Let_def Some option.case wp_bind [of "getCall r"] wp_getCall wp_bind [of "gets_st wTick"] wp_gets_st
    by (rule wp_step [OF inv t]) (rule rest)
qed

lemma wp_answerEndpoint_told:
  assumes "tells xs w"
  shows "wp (answerEndpoint E r sdp hdrs) (\<lambda>ok. tells (xs @ (if ok then [EvSequencingLatency] else []))) w"
proof -
  have lk: "keeps (tells xs) (locked E r establish)" by (rule tally.keeps_locked) simp
  have up: "wp (do { _ \<leftarrow> emit [EvSequencingLatency]; State_Monad.return True }) (\<lambda>ok. tells (xs @ (if ok then [EvSequencingLatency] else []))) w'"
    if "tells xs w'" for w'
    unfolding wp_bind by (rule wp_mono [OF wp_tell [OF that]]) (simp add: wp_return)
  have down: "wp (do { _ \<leftarrow> modify_st (releasePendingTaps r); _ \<leftarrow> modify_st (teardown r); State_Monad.return False })
      (\<lambda>ok. tells (xs @ (if ok then [EvSequencingLatency] else []))) w'" if "tells xs w'" for w'
    by (rule wp_step [OF tally.keeps_finish(1) that], rule wp_step [OF tally.keeps_finish(2)], assumption) (simp add: wp_return)
  show ?thesis
    unfolding answerEndpoint_def
    by (rule wp_step [OF lk assms], rule wp_step [OF tally.keeps_respond], assumption) (use up down in simp)
qed

lemma wp_agree_told: "tells xs w \<Longrightarrow> wp (reportCodecAgreement a b) (\<lambda>_ w. tells xs w \<or> (\<exists>x y. tells (xs @ [EvMediaCodecMismatch x y]) w)) w"
proof -
  assume t: "tells xs w"
  have "wp (emit [EvMediaCodecMismatch x y]) (\<lambda>_ w. tells xs w \<or> (\<exists>x y. tells (xs @ [EvMediaCodecMismatch x y]) w)) w" for x y
    by (rule wp_mono [OF wp_tell [OF t]]) auto
  with t show ?thesis by (auto simp: reportCodecAgreement_def wp_return split: sum.split)
qed

text \<open>The codecs compared and the endpoint answered.\<close>

lemma wp_finish_told:
  assumes "tells xs w"
  shows "wp (do { _ \<leftarrow> reportCodecAgreement a b; answerEndpoint E r sdp hdrs }) (hopTold xs) w"
  unfolding wp_bind
proof (rule wp_mono [OF wp_agree_told [OF assms]])
  fix u w'
  assume "tells xs w' \<or> (\<exists>x y. tells (xs @ [EvMediaCodecMismatch x y]) w')"
  then show "wp (answerEndpoint E r sdp hdrs) (hopTold xs) w'"
  proof (elim disjE exE)
    fix x y
    assume "tells (xs @ [EvMediaCodecMismatch x y]) w'"
    from wp_answerEndpoint_told [OF this] show ?thesis by (rule wp_mono) (auto simp: hopTold_def split: if_splits)
  qed (rule wp_mono [OF wp_answerEndpoint_told], auto simp: hopTold_def split: if_splits)
qed

lemma wp_badAnswer_told: "tells xs w \<Longrightarrow>
    wp (do { _ \<leftarrow> emit [EvTerminatingHopFailure]; failFalse E r 488 ''Not Acceptable Here'' }) (hopTold xs) w"
  unfolding failFalse_def wp_bind
  by (rule wp_mono [OF wp_tell], assumption, rule wp_mono [OF keepsD [OF tally.keeps_fail]], simp)
     (simp add: wp_return hopTold_def)

lemma dialTold_hop: "dialTold xs False w \<Longrightarrow> hopTold xs False w"
  by (auto simp: dialTold_def hopTold_def)

lemma wp_dialPBX_told:
  assumes t: "tells xs w"
  shows "wp (dialPBX E r epP pbxP) (hopTold xs) w"
proof -
  have lk: "keeps (tells xs) (locked E r f)" for f by (rule tally.keeps_locked) simp
  have rest: "wp (case rewriteToAnchor b h p of
               Inl _ \<Rightarrow> failFalse E r 500 ''Server Error''
             | Inr epAnswer \<Rightarrow> do {
                 _ \<leftarrow> reportCodecAgreement epAnswer b;
                 answerEndpoint E r epAnswer (relayableResponseHeaders (lib E) res epAnswer) }) (hopTold xs) w'"
    if "tells xs w'" for b h p res w'
    using wp_failFalse_told [OF that] wp_finish_told [OF that] by (cases "rewriteToAnchor b h p") simp_all
  have after: "wp (case a of None \<Rightarrow> State_Monad.return False
      | Some res \<Rightarrow> (case parseMedia (resBody res) of
            Inl _ \<Rightarrow> do { _ \<leftarrow> emit [EvTerminatingHopFailure]; failFalse E r 488 ''Not Acceptable Here'' }
          | Inr (pbxHost, pbxPort) \<Rightarrow> do {
              _ \<leftarrow> locked E r (setPBXRemote pbxHost pbxPort);
              (case rewriteToAnchor (resBody res) (mediaHost E) (RTP epP) of
                 Inl _ \<Rightarrow> failFalse E r 500 ''Server Error''
               | Inr epAnswer \<Rightarrow> do {
                   _ \<leftarrow> reportCodecAgreement epAnswer (resBody res);
                   answerEndpoint E r epAnswer (relayableResponseHeaders (lib E) res epAnswer) }) }))
      (hopTold xs) w'" if a: "dialTold xs (a \<noteq> None) w'" for a w'
  proof (cases a)
    case None
    with a show ?thesis by (simp add: wp_return dialTold_hop)
  next
    case (Some res)
    then have t': "tells xs w'" using a by (simp add: dialTold_def)
    show ?thesis
    proof (cases "parseMedia (resBody res)")
      case (Inl e)
      with wp_badAnswer_told [OF t'] Some show ?thesis by simp
    next
      case (Inr hp)
      obtain host port where hp: "hp = (host, port)" by force
      show ?thesis
        unfolding Some option.case Inr sum.case hp prod.case by (rule wp_step [OF lk t']) (rule rest)
    qed
  qed
  have dial: "wp (case rewriteToAnchor o' h p of
        Inl _ \<Rightarrow> failFalse E r 500 ''Server Error''
      | Inr offer \<Rightarrow> do { ans \<leftarrow> originatePBX E r offer; f ans }) (hopTold xs) w"
    if "\<And>a w'. dialTold xs (a \<noteq> None) w' \<Longrightarrow> wp (f a) (hopTold xs) w'" for o' h p f
    using wp_failFalse_told [OF t] wp_mono [OF wp_originatePBX_told [OF t] that]
    by (cases "rewriteToAnchor o' h p") (simp_all add: wp_bind)
  show ?thesis
    unfolding dialPBX_def wp_bind [of "getCall r"] wp_getCall by (rule dial) (rule after)
qed

lemma wp_bridgeSecured_told:
  assumes t: "tells xs w"
  shows "wp (bridgeSecuredToPBX E r leg) (hopTold xs) w"
proof -
  have lk: "keeps (tells xs) (locked E r f)" for f by (rule tally.keeps_locked) simp
  have rm: "keeps (tells xs) (registerMedia E r f)" for f by (rule tally.keeps_registerMedia) simp
  have after: "wp (case a of None \<Rightarrow> State_Monad.return False
      | Some res \<Rightarrow> (case parseMedia (resBody res) of
            Inl _ \<Rightarrow> do { _ \<leftarrow> emit [EvTerminatingHopFailure]; failFalse E r 488 ''Not Acceptable Here'' }
          | Inr (pbxHost, pbxPort) \<Rightarrow> do {
              _ \<leftarrow> locked E r (setPBXRemote pbxHost pbxPort);
              _ \<leftarrow> reportCodecAgreement (answerSDP leg) (resBody res);
              answerEndpoint E r (answerSDP leg) [] }))
      (hopTold xs) w'" if a: "dialTold xs (a \<noteq> None) w'" for a w'
  proof (cases a)
    case None
    with a show ?thesis by (simp add: wp_return dialTold_hop)
  next
    case (Some res)
    then have t': "tells xs w'" using a by (simp add: dialTold_def)
    show ?thesis
    proof (cases "parseMedia (resBody res)")
      case (Inl e)
      with wp_badAnswer_told [OF t'] Some show ?thesis by simp
    next
      case (Inr hp)
      obtain host port where hp: "hp = (host, port)" by force
      show ?thesis
        unfolding Some option.case Inr sum.case hp prod.case by (rule wp_step [OF lk t']) (rule wp_finish_told)
    qed
  qed
  have dial: "wp (do { c \<leftarrow> getCall r; (case g c of
        Inl (_ :: sdp_error) \<Rightarrow> failFalse E r 500 ''Server Error''
      | Inr offer \<Rightarrow> do { ans \<leftarrow> originatePBX E r offer; f ans }) }) (hopTold xs) w'"
    if "\<And>a w'. dialTold xs (a \<noteq> None) w' \<Longrightarrow> wp (f a) (hopTold xs) w'" "tells xs w'" for g f w'
    using wp_failFalse_told [OF that(2)] wp_mono [OF wp_originatePBX_told [OF that(2)] that(1)]
    by (cases "g (wCalls w' ! r)") (simp_all add: wp_bind wp_getCall)
  have early: "wp (do { _ \<leftarrow> m; failFalse E r st reason }) (hopTold xs) w'"
    if "keeps (tells xs) m" "tells xs w'" for m :: "unit op" and st reason w'
    by (rule wp_step [OF that]) (rule wp_failFalse_told)
  have gone: "wp (do { _ \<leftarrow> closeSides ss; _ \<leftarrow> releasePairs qs; State_Monad.return False }) (hopTold xs) w'"
    if "tells xs w'" for ss qs w'
    by (rule wp_step [OF tally.keeps_closeSides that], rule wp_step [OF tally.keeps_releasePairs], assumption)
       (simp add: wp_return hopTold_def)
  have bound: "wp (case sd of
             None \<Rightarrow> do { _ \<leftarrow> releasePairs [q]; failFalse E r 500 ''Server Error'' }
           | Some sd \<Rightarrow> do {
               ok \<leftarrow> registerMedia E r (h sd);
               if \<not> ok then do { _ \<leftarrow> closeSides [sd]; _ \<leftarrow> releasePairs [q]; State_Monad.return False }
               else do { c \<leftarrow> getCall r; (case g c of
                    Inl (_ :: sdp_error) \<Rightarrow> failFalse E r 500 ''Server Error''
                  | Inr offer \<Rightarrow> do { ans \<leftarrow> originatePBX E r offer; f ans }) } }) (hopTold xs) w'"
    if "\<And>a w'. dialTold xs (a \<noteq> None) w' \<Longrightarrow> wp (f a) (hopTold xs) w'" "tells xs w'" for sd q g h f w'
  proof (cases sd)
    case None
    with early [OF tally.keeps_releasePairs that(2)] show ?thesis by simp
  next
    case (Some s)
    show ?thesis
      unfolding Some option.case by (rule wp_step [OF rm that(2)]) (use gone dial [OF that(1)] in simp)
  qed
  have got: "wp (case q of
        None \<Rightarrow> failFalse E r 503 ''Service Unavailable''
      | Some q \<Rightarrow> do { s \<leftarrow> bindSide E q; k q s }) (hopTold xs) w'"
    if "\<And>q s w'. tells xs w' \<Longrightarrow> wp (k q s) (hopTold xs) w'" "tells xs w'" for q k w'
  proof (cases q)
    case (Some p)
    show ?thesis unfolding Some option.case by (rule wp_step [OF tally.keeps_bindSide that(2)]) (rule that(1))
  qed (use wp_failFalse_told [OF that(2)] in simp)
  show ?thesis
    unfolding bridgeSecuredToPBX_def
    by (rule wp_step [OF tally.keeps_acquire t], rule got, rule bound, rule after)
qed

subsection \<open>The whole set-up\<close>

lemma wp_bridge_told:
  assumes t: "tells xs w" and i: "seen r ys i w"
  shows "wp (bridge E r) (\<lambda>ok w'. \<exists>n outs. n \<le> length (filter (\<lambda>app. Matches (appRoutingRe app) (snd (snd (snd i)))) (cfgSequence (cfg E)))
     \<and> (if n = length (filter (\<lambda>app. Matches (appRoutingRe app) (snd (snd (snd i)))) (cfgSequence (cfg E)))
        then hopTold (xs @ outs) ok w' else \<not> ok \<and> tells (xs @ outs) w')
     \<and> list_all2 (reported ok) (take n (filter (\<lambda>app. Matches (appRoutingRe app) (snd (snd (snd i)))) (cfgSequence (cfg E)))) outs) w"
proof -
  let ?apps = "filter (\<lambda>app. Matches (appRoutingRe app) (snd (snd (snd i)))) (cfgSequence (cfg E))"
  have relay: "wp (do { up \<leftarrow> m; _ \<leftarrow> (if up then emit [EvRelay r] else State_Monad.return ()); State_Monad.return up }) (hopTold zs) w'"
    if "wp m (hopTold zs) w'" for m zs w'
    unfolding wp_bind
  proof (rule wp_mono [OF that])
    fix up w2
    assume h: "hopTold zs up w2"
    then have "hopTold zs up (addTrace [EvRelay r] w2)" by (auto simp: hopTold_def tells_def addTrace_def)
    with h show "wp (if up then emit [EvRelay r] else State_Monad.return ()) (\<lambda>_. wp (State_Monad.return up) (hopTold zs)) w2"
      by (cases up) (simp_all add: wp_return emit_def wp_modify_st)
  qed
  have hop: "wp (do { a \<leftarrow> anchorMedia E r; (case a of None \<Rightarrow> State_Monad.return False
      | Some (SecuredAnchor leg) \<Rightarrow> do { up \<leftarrow> bridgeSecuredToPBX E r leg;
          _ \<leftarrow> (if up then emit [EvRelay r] else State_Monad.return ()); State_Monad.return up }
      | Some (PlainAnchor epP pbxP) \<Rightarrow> do { up \<leftarrow> dialPBX E r epP pbxP;
          _ \<leftarrow> (if up then emit [EvRelay r] else State_Monad.return ()); State_Monad.return up }) })
      (hopTold zs) w'" if z: "tells zs w'" for zs w'
  proof (rule wp_step [OF _ z])
    show "keeps (tells zs) (anchorMedia E r)" by (rule tally.keeps_anchorMedia) simp
  qed (auto simp: wp_return hopTold_def [of _ False] intro: relay wp_dialPBX_told wp_bridgeSecured_told split: option.split MediaAnchor.split)
  show ?thesis
    unfolding bridge_def runAppChain_def wp_bind [of "appChain E r (cfgSequence (cfg E))"]
  proof (rule wp_mono [OF wp_appChain_told [OF t i]])
    fix b w'
    assume "chainTold xs ?apps b w'"
    then obtain n outs where c: "n \<le> length ?apps" "tells (xs @ outs) w'" "list_all2 (reported b) (take n ?apps) outs" "b \<longrightarrow> n = length ?apps"
      by (auto simp: chainTold_def)
    show "wp (if \<not> b then State_Monad.return False else do { a \<leftarrow> anchorMedia E r; (case a of None \<Rightarrow> State_Monad.return False
      | Some (SecuredAnchor leg) \<Rightarrow> do { up \<leftarrow> bridgeSecuredToPBX E r leg;
          _ \<leftarrow> (if up then emit [EvRelay r] else State_Monad.return ()); State_Monad.return up }
      | Some (PlainAnchor epP pbxP) \<Rightarrow> do { up \<leftarrow> dialPBX E r epP pbxP;
          _ \<leftarrow> (if up then emit [EvRelay r] else State_Monad.return ()); State_Monad.return up }) })
      (\<lambda>ok w'. \<exists>n outs. n \<le> length ?apps \<and> (if n = length ?apps then hopTold (xs @ outs) ok w' else \<not> ok \<and> tells (xs @ outs) w')
         \<and> list_all2 (reported ok) (take n ?apps) outs) w'"
    proof (cases b)
      case True
      have w: "list_all2 (reported ok) (take n ?apps) outs" for ok
        using c(3) True by (auto elim!: list_all2_mono intro: reported_weaken)
      have "wp (do { a \<leftarrow> anchorMedia E r; (case a of None \<Rightarrow> State_Monad.return False
      | Some (SecuredAnchor leg) \<Rightarrow> do { up \<leftarrow> bridgeSecuredToPBX E r leg;
          _ \<leftarrow> (if up then emit [EvRelay r] else State_Monad.return ()); State_Monad.return up }
      | Some (PlainAnchor epP pbxP) \<Rightarrow> do { up \<leftarrow> dialPBX E r epP pbxP;
          _ \<leftarrow> (if up then emit [EvRelay r] else State_Monad.return ()); State_Monad.return up }) })
      (\<lambda>ok w'. \<exists>n outs. n \<le> length ?apps \<and> (if n = length ?apps then hopTold (xs @ outs) ok w' else \<not> ok \<and> tells (xs @ outs) w')
         \<and> list_all2 (reported ok) (take n ?apps) outs) w'"
        by (rule wp_mono [OF hop [OF c(2)]]) (use c True w in auto)
      with True show ?thesis by simp
    next
      case False
      have "\<exists>n outs. n \<le> length ?apps \<and> (if n = length ?apps then hopTold (xs @ outs) False w' else \<not> False \<and> tells (xs @ outs) w')
         \<and> list_all2 (reported False) (take n ?apps) outs"
        using c False by (intro exI [of _ n] exI [of _ outs]) (simp add: hopTold_def)
      with False show ?thesis by (simp add: wp_return)
    qed
  qed
qed

section \<open>Properties\<close>



section \<open>Counters and gauges\<close>

definition counted :: "nat \<Rightarrow> int option" where
  "counted n = (if n = 0 then None else Some (int n))"

fun durations :: "SinkCall list \<Rightarrow> int list" where
  "durations [] = []"
| "durations (ObserveSequencingLatency d # cs) = d # durations cs"
| "durations (_ # cs) = durations cs"

definition plus_series :: "nat option \<Rightarrow> nat \<Rightarrow> nat option" where
  "plus_series v n = (if n = 0 then v else Some ((case v of None \<Rightarrow> 0 | Some m \<Rightarrow> m) + n))"

lemma prom_counters:
  "appInvocations (fold promCall cs p) a = plus_series (appInvocations p a) (count_list cs (AppInvocation a))"
  "appFailures (fold promCall cs p) a = plus_series (appFailures p a) (count_list cs (AppFailure a))"
  "mediaCodecMismatches (fold promCall cs p) (x, y) = plus_series (mediaCodecMismatches p (x, y)) (count_list cs (MediaCodecMismatch x y))"
  "terminatingHopFailures (fold promCall cs p) = terminatingHopFailures p + count_list cs TerminatingHopFailure"
  "gaugesBound (fold promCall cs p) = gaugesBound p"
  by (induction cs arbitrary: p) (auto simp: promCall_def incLabel_def plus_series_def split: SinkCall.split option.split)

lemma prom_histogram:
  "hCount (sequencingDuration (fold promCall cs p)) = hCount (sequencingDuration p) + length (durations cs)"
  "hSum (sequencingDuration (fold promCall cs p)) = hSum (sequencingDuration p) + sum_list (durations cs)"
  "hBuckets (sequencingDuration (fold promCall cs p))
     = map (\<lambda>(le, n). (le, n + length (filter (\<lambda>d. d \<le> le) (durations cs)))) (hBuckets (sequencingDuration p))"
proof (induction cs arbitrary: p)
  case (Cons c cs)
  {
    case 1 show ?case using Cons.IH(1) by (cases c) (simp_all add: promCall_def observe_def)
  next
    case 2 show ?case using Cons.IH(2) by (cases c) (simp_all add: promCall_def observe_def)
  next
    case 3 show ?case using Cons.IH(3) by (cases c) (auto simp: promCall_def observe_def)
  }
qed auto

lemma map_of_counts: "map_of (map (\<lambda>(le, n). (le, f le n)) xs) k = map_option (f k) (map_of xs k)"
  by (induction xs) auto

lemma map_of_const: "map_of (map (\<lambda>k. (k, c)) ks) k = (if k \<in> set ks then Some c else None)"
  by (induction ks) auto

lemma scrape_reports:
  assumes "mset reports = mset cs"
  shows "scrape (fold promCall reports NewPromMetrics) w s = (case s of
       AppInvocationsTotal a \<Rightarrow> counted (count_list cs (AppInvocation a))
     | AppFailuresTotal a \<Rightarrow> counted (count_list cs (AppFailure a))
     | HopFailuresTotal \<Rightarrow> Some (int (count_list cs TerminatingHopFailure))
     | MismatchTotal a b \<Rightarrow> counted (count_list cs (MediaCodecMismatch a b))
     | DurationBucket le \<Rightarrow> if le \<in> set DefBuckets then Some (int (length (filter (\<lambda>d. d \<le> le) (durations cs)))) else None
     | DurationCount \<Rightarrow> Some (int (length (durations cs)))
     | DurationSum \<Rightarrow> Some (sum_list (durations cs))
     | _ \<Rightarrow> None)"
proof -
  have e: "fold promCall reports NewPromMetrics = fold promCall cs NewPromMetrics" by (rule prom.calls_any_order [OF assms])
  have b: "map_of (map (\<lambda>le. (le, 0)) DefBuckets) le = (if le \<in> set DefBuckets then Some (0 :: nat) else None)" for le
    by (rule map_of_const)
  show ?thesis
    unfolding e
    by (cases s)
       (simp_all add: scrape_def prom_counters prom_histogram NewPromMetrics_def counted_def plus_series_def map_of_counts [where f = "\<lambda>le n. n + length (filter (\<lambda>d. d \<le> le) (durations cs))"] b del: map_map)
qed

text \<open>The reports of several set-ups, each with the time it took, and the times they observe.\<close>

definition reportsOf :: "(int \<times> Event list) list \<Rightarrow> SinkCall list" where
  "reportsOf setups = concat (map (\<lambda>(span, es). sinkCalls span es) setups)"

definition spansOf :: "(int \<times> Event list) list \<Rightarrow> int list" where
  "spansOf setups = concat (map (\<lambda>(span, es). replicate (count_list es EvSequencingLatency) span) setups)"

lemma count_sinkCalls:
  "count_list (sinkCalls span es) (AppInvocation a) = count_list es (EvAppInvocation a)"
  "count_list (sinkCalls span es) (AppFailure a) = count_list es (EvAppFailure a)"
  "count_list (sinkCalls span es) TerminatingHopFailure = count_list es EvTerminatingHopFailure"
  "count_list (sinkCalls span es) (MediaCodecMismatch x y) = count_list es (EvMediaCodecMismatch x y)"
  by (induction es) (auto simp: sinkCalls_def sinkCall_def split: Event.split)

lemma durations_append: "durations (as @ bs) = durations as @ durations bs"
  by (induction as rule: durations.induct) auto

lemma durations_sinkCalls: "durations (sinkCalls span es) = replicate (count_list es EvSequencingLatency) span"
  by (induction es) (auto simp: sinkCalls_def sinkCall_def split: Event.split)

lemma count_reportsOf:
  "count_list (reportsOf setups) (AppInvocation a) = count_list (concat (map snd setups)) (EvAppInvocation a)"
  "count_list (reportsOf setups) (AppFailure a) = count_list (concat (map snd setups)) (EvAppFailure a)"
  "count_list (reportsOf setups) TerminatingHopFailure = count_list (concat (map snd setups)) EvTerminatingHopFailure"
  "count_list (reportsOf setups) (MediaCodecMismatch x y) = count_list (concat (map snd setups)) (EvMediaCodecMismatch x y)"
  "durations (reportsOf setups) = spansOf setups"
  by (induction setups) (auto simp: reportsOf_def spansOf_def count_sinkCalls durations_sinkCalls durations_append)

text \<open>A scrape shows what happened: when any number of set-ups have reported to the sink, in whatever
  order their goroutines did, each counter is the number of events of its label in their traces, absent while
  there are none, and the histogram counts the set-up times up to each bound, all of them, and their sum.\<close>

theorem scrape_shows_reports:
  assumes "mset reports = mset (reportsOf setups)" "promReports reports NewPromMetrics = Some p"
  shows "scrape p w s = (case s of
       AppInvocationsTotal a \<Rightarrow> counted (count_list (concat (map snd setups)) (EvAppInvocation a))
     | AppFailuresTotal a \<Rightarrow> counted (count_list (concat (map snd setups)) (EvAppFailure a))
     | HopFailuresTotal \<Rightarrow> Some (int (count_list (concat (map snd setups)) EvTerminatingHopFailure))
     | MismatchTotal a b \<Rightarrow> counted (count_list (concat (map snd setups)) (EvMediaCodecMismatch a b))
     | DurationBucket le \<Rightarrow> if le \<in> set DefBuckets then Some (int (length (filter (\<lambda>d. d \<le> le) (spansOf setups)))) else None
     | DurationCount \<Rightarrow> Some (int (length (spansOf setups)))
     | DurationSum \<Rightarrow> Some (sum_list (spansOf setups))
     | _ \<Rightarrow> None)"
proof -
  have "p = fold promCall reports NewPromMetrics" using assms(2) by (auto simp: promReports_iff split: if_splits)
  then show ?thesis by (cases s) (simp_all add: scrape_reports [OF assms(1)] count_reportsOf)
qed

theorem scrape_shows_reports_witness:
  "\<exists>p. promReports [AppFailure ''rec'', AppInvocation ''ivr'', ObserveSequencingLatency 6000000, AppFailure ''rec''] NewPromMetrics = Some p
   \<and> scrape p sampleWorld (AppFailuresTotal ''rec'') = Some 2 \<and> scrape p sampleWorld (DurationBucket 5000000) = Some 0
   \<and> scrape p sampleWorld (DurationBucket 10000000) = Some 1 \<and> scrape p sampleWorld (AppInvocationsTotal ''rec'') = None"
proof -
  let ?setups = "[(6000000, [EvAppInvocation ''ivr'', EvAppFailure ''rec'', EvSequencingLatency]), (9000000, [EvAppFailure ''rec''])]"
  let ?reports = "[AppFailure ''rec'', AppInvocation ''ivr'', ObserveSequencingLatency 6000000, AppFailure ''rec'']"
  have m: "mset ?reports = mset (reportsOf ?setups)"
    by (simp add: reportsOf_def sinkCalls_def sinkCall_def)
  have "ValidString ''rec''" "ValidString ''ivr''" by code_simp+
  then obtain p where p: "promReports ?reports NewPromMetrics = Some p" by (simp add: promReports_iff labelsOf_def)
  show ?thesis
    using scrape_shows_reports [OF m p, of sampleWorld] p by (auto simp: counted_def DefBuckets_def spansOf_def)
qed

text \<open>The codec names of a mismatch are the bytes of the answers: one that is not UTF-8 makes the
  library panic in the middle of the set-up, when the caller has not been answered yet.\<close>

lemma codec_name_panics_metrics:
  "let w' = snd (run_state (reportCodecAgreement
         (''m=audio 4000 RTP/AVP 96'' @ [CHR 0x0A] @ ''a=rtpmap:96 '' @ [CHR 0xFF] @ ''/8000'') ''m=audio 4000 RTP/AVP 0'') sampleWorld)
   in wTrace w' = [EvMediaCodecMismatch [CHR 0xFF] ''PCMU''] \<and> promReports (sinkCalls 0 (wTrace w')) NewPromMetrics = None"
  by code_simp

text \<open>The calls the gauges are about: not torn down, and found in the registry under their id.\<close>

definition liveCalls :: "World \<Rightarrow> nat set" where
  "liveCalls w = {r. live w r \<and> regGet (callId (wCalls w ! r)) w = Some r}"

lemma registry_is_live:
  assumes "registered w"
  shows "distinct (map snd (wReg w))" "set (map snd (wReg w)) = liveCalls w"
proof -
  have k: "live w r \<and> callId (wCalls w ! r) = k" if "(k, r) \<in> set (wReg w)" for k r
    using assms that by (auto simp: registered_def)
  have d: "distinct (map fst (wReg w))" using assms by (simp add: registered_def)
  have "inj_on snd (set (wReg w))" using k by (intro inj_onI) (metis prod.collapse)
  with d show "distinct (map snd (wReg w))" by (simp add: distinct_map)
  show "set (map snd (wReg w)) = liveCalls w"
    using k map_of_is_SomeI [OF d] by (force simp: liveCalls_def regGet_def dest: map_of_SomeD)
qed

text \<open>C20: The gauges cannot leak: in every reachable world a scrape shows as active calls the number of
  registered calls that are not torn down, and as active legs the legs of exactly these; after Shutdown both
  are zero.\<close>

theorem gauges_show_live_calls:
  assumes "reachable mn mx w" "BindCallSource p = Some bound" "iterates it"
  shows "scrape bound w ActiveCallsGauge = Some (int (card (liveCalls w)))
     \<and> scrape bound w ActiveLegsGauge = Some (int (\<Sum>r \<in> liveCalls w. callLegs (wCalls w ! r)))
     \<and> scrape bound (Shutdown it w) ActiveCallsGauge = Some 0 \<and> scrape bound (Shutdown it w) ActiveLegsGauge = Some 0
     \<and> finite (liveCalls w) \<and> (\<forall>r \<in> liveCalls w. callState (wCalls w ! r) \<noteq> stateTearingDown)"
proof -
  have reg: "registered w" using reachable_sound [OF assms(1)] by (simp add: sound_def)
  have b: "gaugesBound bound" using assms(2) by (auto simp: BindCallSource_def split: if_splits)
  note d = registry_is_live [OF reg]
  have "ActiveCalls w = card (liveCalls w)" using distinct_card [OF d(1)] d(2) by (simp add: ActiveCalls_def)
  moreover have "ActiveLegs w = (\<Sum>r \<in> liveCalls w. callLegs (wCalls w ! r))"
    using sum_list_distinct_conv_sum_set [OF d(1), of "\<lambda>r. callLegs (wCalls w ! r)"] d(2)
    by (simp add: ActiveLegs_def comp_def case_prod_unfold)
  moreover have "wReg (Shutdown it w) = []" by (rule Shutdown_all [OF reg assms(3)])
  moreover have "finite (liveCalls w)" unfolding d(2) [symmetric] by simp
  ultimately show ?thesis using b by (auto simp: scrape_def ActiveCalls_def ActiveLegs_def liveCalls_def live_def)
qed

theorem gauges_show_live_calls_witness:
  "let bound = NewPromMetrics\<lparr>gaugesBound := True\<rparr> in
   scrape bound sampleReached ActiveCallsGauge = Some 1 \<and> scrape bound (Shutdown rev sampleReached) ActiveLegsGauge = Some 0
   \<and> liveCalls sampleReached = {0}"
proof -
  have b: "BindCallSource NewPromMetrics = Some (NewPromMetrics\<lparr>gaugesBound := True\<rparr>)"
    by (simp add: BindCallSource_def NewPromMetrics_def)
  have "registered sampleReached" using reachable_sound [OF sample_reached] by (simp add: sound_def)
  from registry_is_live(2) [OF this] have l: "liveCalls sampleReached = {0}" by (simp add: sample_reached_call)
  from gauges_show_live_calls [OF sample_reached b, of rev] show ?thesis by (simp add: l Let_def iterates_def)
qed

end
