(* ===== verification/Running.thy ===== *)
theory Running
  imports Engine MetricsProps
begin

text \<open>
  The running engine, internal/b2bua/engine.go and obs.go: its construction options, the observability server,
  the choice of a handler for each request, what Run starts and how it ends, and Shutdown. What a socket or an
  HTTP client meets is a function of the state.
\<close>

section \<open>Options\<close>

datatype MetricsSink = NoopSink | PromSink PromMetrics

record EngineDeps =
  depMetrics :: MetricsSink
  depFactory :: "nat option"
  depProvider :: bool

text \<open>None as the factory is the pion-backed one.\<close>

datatype EngineOption = WithMetrics MetricsSink | WithWebRTCFactory nat | WithTLSProvider

definition applyOption :: "EngineOption \<Rightarrow> EngineDeps \<Rightarrow> EngineDeps" where
  "applyOption opt d = (case opt of
       WithMetrics s \<Rightarrow> d\<lparr>depMetrics := s\<rparr>
     | WithWebRTCFactory f \<Rightarrow> d\<lparr>depFactory := Some f\<rparr>
     | WithTLSProvider \<Rightarrow> d\<lparr>depProvider := True\<rparr>)"

definition engineDeps :: "EngineOption list \<Rightarrow> EngineDeps" where
  "engineDeps opts = fold applyOption opts \<lparr>depMetrics = NoopSink, depFactory = None, depProvider = False\<rparr>"

definition NewWith :: "Startup \<Rightarrow> CryptoLib \<Rightarrow> EngineOption list \<Rightarrow> Config \<Rightarrow> Engine eng" where
  "NewWith S L opts c = New S L (depProvider (engineDeps opts)) c"

section \<open>The observability server\<close>

text \<open>The routes of its mux: health always, metrics when the sink exposes them.\<close>

record ObsServer =
  obAddr :: string
  obMetrics :: bool
  obRunning :: bool

datatype HttpAnswer = HttpText nat string | HttpSeries "Series \<Rightarrow> int option" | HttpMoved string

definition healthHandler :: HttpAnswer where
  "healthHandler = HttpText 200 ''ok''"

text \<open>Binding the gauges a second time panics; a socket that cannot be bound is only logged.\<close>

definition startObservability :: "string \<Rightarrow> bool \<Rightarrow> MetricsSink \<Rightarrow> (ObsServer \<times> MetricsSink) option" where
  "startObservability addr bindOk sink = (case sink of
       NoopSink \<Rightarrow> Some (\<lparr>obAddr = addr, obMetrics = False, obRunning = bindOk\<rparr>, NoopSink)
     | PromSink p \<Rightarrow> (case BindCallSource p of
           None \<Rightarrow> None
         | Some bound \<Rightarrow> Some (\<lparr>obAddr = addr, obMetrics = True, obRunning = bindOk\<rparr>, PromSink bound)))"

text \<open>The path the mux of net/http looks up; a request for another spelling is sent there.\<close>

definition cleanPath :: "string \<Rightarrow> string" where
  "cleanPath p =
     (let rooted = (if p \<noteq> [] \<and> hd p = CHR ''/'' then p else CHR ''/'' # p);
          np = Clean rooted
      in if last rooted = CHR ''/'' \<and> np \<noteq> ''/'' then np @ ''/'' else np)"

text \<open>What a request for a path gets; None is a refused connection.\<close>

definition obsAnswer :: "ObsServer \<Rightarrow> MetricsSink \<Rightarrow> World \<Rightarrow> string \<Rightarrow> HttpAnswer option" where
  "obsAnswer ob sink w path =
     (if \<not> obRunning ob then None
      else if cleanPath path \<noteq> path then Some (HttpMoved (cleanPath path))
      else if path = ''/health'' then Some healthHandler
      else if path = ''/metrics'' \<and> obMetrics ob then
        (case sink of PromSink p \<Rightarrow> Some (HttpSeries (scrape p w)) | NoopSink \<Rightarrow> Some (HttpText 404 ''404 page not found''))
      else Some (HttpText 404 ''404 page not found''))"

section \<open>Requests\<close>

text \<open>The handlers Run registers, by method; every other method has the handler for no route.\<close>

datatype Handler = OnInvite | OnAck | OnBye | OnRefer | OnRegister | OnInfo | OnNoRoute

definition handlerOf :: "string \<Rightarrow> Handler" where
  "handlerOf m = (if m = ''INVITE'' then OnInvite else if m = ''ACK'' then OnAck else if m = ''BYE'' then OnBye
     else if m = ''REFER'' then OnRefer else if m = ''REGISTER'' then OnRegister else if m = ''INFO'' then OnInfo
     else OnNoRoute)"

text \<open>What the dialog caches make of a BYE: the end of a call's inbound dialog, of one of its outbound
  legs, of a dialog no call watches, or no dialog of theirs.\<close>

datatype ByeDialog = InboundOf nat | LegOf nat | Unwatched | NoDialog

definition serveBye :: "MidEnv \<Rightarrow> (nat \<Rightarrow> Request \<Rightarrow> ByeDialog) \<Rightarrow> nat \<Rightarrow> Request \<Rightarrow> unit op" where
  "serveBye M bye tx req = do {
     t \<leftarrow> gets_st wTick;
     (case routeToFlow (proxyEnv M) req (fst (proxySend M t)) (snd (proxySend M t)) of
        Some _ \<Rightarrow> emit [EvProxied tx]
      | None \<Rightarrow> (case bye t req of
            InboundOf r \<Rightarrow> modify_st (inboundDialogEnded r)
          | LegOf r \<Rightarrow> modify_st (teardown r)
          | Unwatched \<Rightarrow> emit []
          | NoDialog \<Rightarrow> emit [EvTxRespond tx 481 ''Call/Transaction Does Not Exist'' [] []]))
   }"

text \<open>The ACK of a flow is proxied; another is for the dialog cache, which answers nothing.\<close>

definition serveAck :: "MidEnv \<Rightarrow> nat \<Rightarrow> Request \<Rightarrow> unit op" where
  "serveAck M tx req = do {
     t \<leftarrow> gets_st wTick;
     (case routeToFlow (proxyEnv M) req (fst (proxySend M t)) (snd (proxySend M t)) of
        Some _ \<Rightarrow> emit [EvProxied tx]
      | None \<Rightarrow> emit [])
   }"

definition ignoring :: "Outcome op \<Rightarrow> unit op" where
  "ignoring m = do { _ \<leftarrow> m; State_Monad.return () }"

definition serveRequest :: "MidEnv \<Rightarrow> (nat \<Rightarrow> Request \<Rightarrow> ByeDialog) \<Rightarrow> nat \<Rightarrow> Request \<Rightarrow> unit op" where
  "serveRequest M bye tx req = (case handlerOf (reqMethod req) of
       OnInvite \<Rightarrow> ignoring (handleInvite M tx req)
     | OnAck \<Rightarrow> serveAck M tx req
     | OnBye \<Rightarrow> serveBye M bye tx req
     | OnRefer \<Rightarrow> ignoring (handleRefer M tx req)
     | OnInfo \<Rightarrow> ignoring (handleInfo M tx req)
     | OnRegister \<Rightarrow> emit [EvProxied tx]
     | OnNoRoute \<Rightarrow> emit [EvProxied tx])"

section \<open>Run and Shutdown\<close>

text \<open>\<open>ruCancel\<close> is the cancel function Run leaves in the engine: None before Run, else whether it was called.\<close>

record Running =
  ruWorld :: World
  ruSink :: MetricsSink
  ruObs :: "ObsServer option"
  ruReaper :: bool
  ruListeners :: "Listener list"
  ruCancel :: "bool option"
  ruUAs :: "string list"
  ruServerOpen :: bool

definition built :: "Engine \<Rightarrow> MetricsSink \<Rightarrow> Running" where
  "built e sink = \<lparr>ruWorld = \<lparr>wPorts = engPorts e, wHandles = \<lparr>openH = [], nextH = 0\<rparr>, wCalls = [], wReg = [], wDialogs = [],
       wOthers = [], wTrace = [], wTick = 0\<rparr>, ruSink = sink, ruObs = None, ruReaper = False, ruListeners = [], ruCancel = None,
     ruUAs = map fst (engDialers e), ruServerOpen = True\<rparr>"

text \<open>What Run starts before it waits.\<close>

definition Run :: "Engine \<Rightarrow> Config \<Rightarrow> bool \<Rightarrow> Running \<Rightarrow> Running option" where
  "Run e c obsBindOk s =
     (let s1 = s\<lparr>ruCancel := Some False, ruReaper := engIdleTimeout e > 0, ruListeners := runListeners e c\<rparr> in
      if engObsListen e = [] then Some s1
      else map_option (\<lambda>(ob, sink). s1\<lparr>ruObs := Some ob, ruSink := sink\<rparr>) (startObservability (engObsListen e) obsBindOk (ruSink s)))"

text \<open>The end of Run's context: the reaper's goroutine, the listeners and the observability server stop.\<close>

definition ctxDone :: "Running \<Rightarrow> Running" where
  "ctxDone s = s\<lparr>ruCancel := Some True, ruReaper := False, ruListeners := [],
     ruObs := map_option (\<lambda>ob. ob\<lparr>obRunning := False\<rparr>) (ruObs s)\<rparr>"

text \<open>The group returns the first error of its listeners, in the order they end.\<close>

definition groupWait :: "(Listener \<times> string option) list \<Rightarrow> string option" where
  "groupWait ends = (case List.map_filter snd ends of [] \<Rightarrow> None | err # _ \<Rightarrow> Some err)"

definition EngineShutdown :: "iteration \<Rightarrow> Running \<Rightarrow> Running" where
  "EngineShutdown it s =
     (let s1 = s\<lparr>ruObs := map_option (\<lambda>ob. ob\<lparr>obRunning := False\<rparr>) (ruObs s)\<rparr>;
          s2 = s1\<lparr>ruWorld := Shutdown it (ruWorld s1)\<rparr>;
          s3 = (if ruCancel s2 = None then s2 else ctxDone s2)
      in s3\<lparr>ruUAs := [], ruServerOpen := False\<rparr>)"

text \<open>The options the command passes.\<close>

definition mainOptions :: "Config \<Rightarrow> EngineOption list" where
  "mainOptions c = WithTLSProvider # (if cfgObsListen c \<noteq> [] then [WithMetrics (PromSink NewPromMetrics)] else [])"

section \<open>Serving\<close>

lemma wp_after_ignoring: "after (ignoring m) w = after m w"
  by (simp add: after_def ignoring_def split: prod.split)

lemma after_gets: "after (State_Monad.bind (gets_st f) g) w = after (g (f (w\<lparr>wTrace := []\<rparr>))) w"
  by (simp add: after_def)

lemma serve_step:
  assumes "sipBehaves (callEnv M)"
  shows "step w (after (serveRequest M bye tx req) w)"
proof (cases "handlerOf (reqMethod req)")
  case OnAck
  then show ?thesis
    by (auto simp: serveRequest_def serveAck_def after_gets intro: step.elsewhere split: option.split)
next
  case OnBye
  then show ?thesis
    by (auto simp: serveRequest_def serveBye_def after_gets intro: step.elsewhere step.inboundEnded step.legEnded
        split: option.split ByeDialog.split)
qed (use assms in \<open>auto simp: serveRequest_def wp_after_ignoring intro: step.elsewhere step.invited step.referred step.informed\<close>)

type_synonym served = "MidEnv \<times> (nat \<Rightarrow> Request \<Rightarrow> ByeDialog) \<times> nat \<times> Request"

definition serveAll :: "served list \<Rightarrow> World \<Rightarrow> World" where
  "serveAll reqs w = fold (\<lambda>(M, bye, tx, req) w. after (serveRequest M bye tx req) w) reqs w"

lemma serveAll_reachable:
  "reachable mn mx w \<Longrightarrow> \<forall>(M, bye, tx, req) \<in> set reqs. sipBehaves (callEnv M) \<Longrightarrow> reachable mn mx (serveAll reqs w)"
proof (induction reqs arbitrary: w)
  case (Cons q reqs)
  obtain M bye tx req where q: "q = (M, bye, tx, req)" using prod_cases4 by blast
  have "reachable mn mx (after (serveRequest M bye tx req) w)"
    using Cons.prems by (auto simp: q intro: reachable.next_step serve_step)
  with Cons show ?case by (simp add: serveAll_def q)
qed (simp add: serveAll_def)

section \<open>Properties\<close>

lemma New_fields:
  assumes "run_state (New S L hasProvider c) p = (Inr e, p')"
  shows "engObsListen e = cfgObsListen c" "engIdleTimeout e = rtpIdleTimeoutDur (cfgRTP c)"
  using assms by (auto simp: New_def eng_runs split: option.splits sum.splits prod.splits if_splits)

text \<open>The engine serves from its first request to its last in a sound world: whatever requests come in
  whatever order, of whatever methods and whatever other goroutines do meanwhile, each is handed to one handler
  and every world an engine built from a configuration gets into is one of the reachable ones, so that each port
  pair in use has one owner and is not free, every established call is complete, and the registry knows live
  calls only.\<close>

theorem engine_serves_soundly:
  assumes "run_state (New S L hasProvider c) p = (Inr e, p')" "\<forall>(M, bye, tx, req) \<in> set reqs. sipBehaves (callEnv M)"
    "w = serveAll reqs (ruWorld (built e sink))"
  shows "\<exists>mn mx. parsePortRange (rtpPortRange (cfgRTP c)) = Inr (mn, mx) \<and> reachable mn mx w
     \<and> (\<forall>r < length (wCalls w). callState (wCalls w ! r) = stateEstablished \<longrightarrow> pbxLeg (wCalls w ! r) \<noteq> None \<and> media (wCalls w ! r) \<noteq> None)
     \<and> (\<forall>(k, r) \<in> set (wReg w). callState (wCalls w ! r) \<noteq> stateTearingDown \<and> callId (wCalls w ! r) = k)
     \<and> (\<forall>q \<in># held w. count (held w) q = 1 \<and> q \<notin> set (freePairs (wPorts w)))"
proof -
  from New_built [OF assms(1)] obtain mn mx where
    pr: "parsePortRange (rtpPortRange (cfgRTP c)) = Inr (mn, mx)" "engPorts e = newPortAllocator mn mx" by blast
  have "ruWorld (built e sink) = emptyWorld mn mx" by (simp add: built_def emptyWorld_def pr)
  then have r: "reachable mn mx w" unfolding assms(3) by (intro serveAll_reachable assms(2)) (simp add: reachable.start)
  have s: "sound w" by (rule reachable_sound [OF r])
  then obtain L where L: "acct {#} L w" by (auto simp: sound_def balanced_def)
  then have b: "books E 0 {#} L w" for E by (auto simp: books_def)
  have "count (held w) q = 1 \<and> q \<notin> set (freePairs (wPorts w))" if "q \<in># held w" for q
    using books_exclusive [OF b that] .
  moreover have "pbxLeg (wCalls w ! r) \<noteq> None \<and> media (wCalls w ! r) \<noteq> None"
    if "r < length (wCalls w)" "callState (wCalls w ! r) = stateEstablished" for r
  proof -
    have "ready (wCalls w ! r)" using s that(1) by (simp add: sound_def allReady_def)
    with that(2) show ?thesis by (cases "media (wCalls w ! r)") (auto simp: ready_def complete_def)
  qed
  ultimately show ?thesis using pr(1) r s by (fastforce simp: sound_def registered_def live_def)
qed

lemma sample_range: "parsePortRange (rtpPortRange (cfgRTP (okConfig (Parse (\<lambda>_. None) sampleRaw)))) = Inr (20000, 20100)"
  by code_simp

theorem engine_serves_soundly_witness:
  "\<exists>e p'. run_state (New sampleStartup sampleCrypto True (okConfig (Parse (\<lambda>_. None) sampleRaw))) NewStdProvider = (Inr e, p')
     \<and> reachable 20000 20100 (serveAll [(sampleMid (\<lambda>_. None) calmEnv, \<lambda>_ _. InboundOf 0, 7, sampleInvite),
          (sampleMid (\<lambda>_. None) calmEnv, \<lambda>_ _. InboundOf 0, 8, sampleInvite\<lparr>reqMethod := ''BYE''\<rparr>)] (ruWorld (built e NoopSink)))"
proof -
  from sample_engine obtain e p' where
    n: "run_state (New sampleStartup sampleCrypto True (okConfig (Parse (\<lambda>_. None) sampleRaw))) NewStdProvider = (Inr e, p')" by blast
  let ?reqs = "[(sampleMid (\<lambda>_. None) calmEnv, \<lambda>_ _. InboundOf 0, 7, sampleInvite),
          (sampleMid (\<lambda>_. None) calmEnv, \<lambda>_ _. InboundOf 0, 8, sampleInvite\<lparr>reqMethod := ''BYE''\<rparr>)]"
  have b: "\<forall>(M, bye, tx, req) \<in> set ?reqs. sipBehaves (callEnv M)" by (simp add: sampleMid_def sample_behaves)
  from engine_serves_soundly [OF n b refl, of NoopSink] sample_range n show ?thesis by auto
qed

lemma EngineShutdown_ends:
  assumes "ruCancel s \<noteq> None" "iterates it" "registered (ruWorld s)"
  shows "ruListeners (EngineShutdown it s) = []" "\<not> ruReaper (EngineShutdown it s)" "ruUAs (EngineShutdown it s) = []"
    "\<not> ruServerOpen (EngineShutdown it s)" "ActiveCalls (ruWorld (EngineShutdown it s)) = 0"
    "ruCancel (EngineShutdown it s) = Some True"
    "ruObs (EngineShutdown it s) = Some ob \<Longrightarrow> obsAnswer ob sink w path = None"
    "(k, r) \<in> set (wReg (ruWorld s)) \<Longrightarrow> callState (wCalls (ruWorld (EngineShutdown it s)) ! r) = stateTearingDown"
    "EngineShutdown it (EngineShutdown it s) = EngineShutdown it s"
  using assms(1) Shutdown_all [OF assms(3,2)]
  by (cases "ruObs s"; auto simp: EngineShutdown_def Let_def ctxDone_def ActiveCalls_def obsAnswer_def)+



lemma clean_routes: "cleanPath ''/health'' = ''/health''" "cleanPath ''/metrics'' = ''/metrics''"
  by code_simp+

text \<open>Metrics are served as configured: an engine built with the command's options never registers its
  gauges twice, serves nothing when no address is configured, and otherwise answers on that address health with
  200 and ok whatever its state, metrics with the counters and both gauges, any other path with 404, and one not in its clean form by sending
  the client there.\<close>

theorem metrics_served_as_configured:
  assumes "run_state (New S L True c) p = (Inr e, p')" "sink = depMetrics (engineDeps (mainOptions c))"
  shows "\<exists>s. Run e c True (built e sink) = Some s \<and> depProvider (engineDeps (mainOptions c))
     \<and> (if cfgObsListen c = [] then ruObs s = None
        else (\<exists>ob prom. ruObs s = Some ob \<and> obAddr ob = cfgObsListen c
           \<and> obsAnswer ob (ruSink s) w ''/health'' = Some (HttpText 200 ''ok'')
           \<and> obsAnswer ob (ruSink s) w ''/metrics'' = Some (HttpSeries (scrape prom w))
           \<and> scrape prom w ActiveCallsGauge = Some (int (ActiveCalls w)) \<and> scrape prom w ActiveLegsGauge = Some (int (ActiveLegs w))
           \<and> (\<forall>path. path \<notin> {''/health'', ''/metrics''} \<longrightarrow> obsAnswer ob (ruSink s) w path
                = Some (if cleanPath path = path then HttpText 404 ''404 page not found'' else HttpMoved (cleanPath path)))))"
proof (cases "cfgObsListen c = []")
  case True
  with New_fields(1) [OF assms(1)] show ?thesis
    by (simp add: assms(2) mainOptions_def engineDeps_def applyOption_def Run_def built_def Let_def)
next
  case False
  let ?prom = "NewPromMetrics\<lparr>gaugesBound := True\<rparr>"
  have s: "sink = PromSink NewPromMetrics" "depProvider (engineDeps (mainOptions c))"
    using False by (simp_all add: assms(2) mainOptions_def engineDeps_def applyOption_def)
  then have "startObservability (cfgObsListen c) True sink
      = Some (\<lparr>obAddr = cfgObsListen c, obMetrics = True, obRunning = True\<rparr>, PromSink ?prom)"
    by (simp add: startObservability_def BindCallSource_def NewPromMetrics_def)
  with New_fields(1) [OF assms(1)] False s(2) show ?thesis
    by (auto simp: Run_def built_def Let_def obsAnswer_def clean_routes healthHandler_def scrape_def intro!: exI [of _ ?prom])
qed

abbreviation observedConfig :: Config where
  "observedConfig \<equiv> okConfig (Parse (\<lambda>_. None) (sampleRaw\<lparr>rawObsListen := ''127.0.0.1:9090''\<rparr>))"

lemma sample_observed: "isl (fst (run_state (New sampleStartup sampleCrypto True observedConfig) NewStdProvider)) = False"
  "cfgObsListen observedConfig = ''127.0.0.1:9090''"
  by code_simp+

theorem metrics_served_as_configured_witness:
  "\<exists>e p' s ob prom. run_state (New sampleStartup sampleCrypto True observedConfig) NewStdProvider = (Inr e, p')
     \<and> Run e observedConfig True (built e (PromSink NewPromMetrics)) = Some s \<and> ruObs s = Some ob
     \<and> obsAnswer ob (ruSink s) sampleReached ''/metrics'' = Some (HttpSeries (scrape prom sampleReached))
     \<and> scrape prom sampleReached ActiveCallsGauge = Some 1"
proof -
  obtain e p' where n: "run_state (New sampleStartup sampleCrypto True observedConfig) NewStdProvider = (Inr e, p')"
    using sample_observed(1) by (metis sum.collapse(2) surjective_pairing)
  have "depMetrics (engineDeps (mainOptions observedConfig)) = PromSink NewPromMetrics"
    by (simp add: mainOptions_def engineDeps_def applyOption_def sample_observed(2))
  from metrics_served_as_configured [OF n this [symmetric], of sampleReached] n sample_observed(2) show ?thesis
    by (auto simp: ActiveCalls_def sample_reached_call)
qed

end
