(* ===== verification/Isolation.thy ===== *)
theory Isolation
  imports Running
begin

text \<open>
  Calls do not disturb each other: a request for one call changes and says nothing of another one. The
  contracts of the set-up and of the handlers are used for one call at a time, on a predicate that pins
  down a second one.
\<close>

section \<open>A call that is spared\<close>

text \<open>The events on the dialogs of a call.\<close>

definition about :: "nat \<Rightarrow> Event \<Rightarrow> bool" where
  "about p e = (case e of
       EvRespond r _ _ _ _ _ \<Rightarrow> r = p
     | EvInvite r _ _ _ _ _ _ \<Rightarrow> r = p
     | EvWait r _ _ \<Rightarrow> r = p
     | EvAck r _ \<Rightarrow> r = p
     | EvByeInbound r \<Rightarrow> r = p
     | EvBye r _ \<Rightarrow> r = p
     | EvRelay r \<Rightarrow> r = p
     | EvReInvite r _ _ _ \<Rightarrow> r = p
     | EvTransfer r _ _ _ _ \<Rightarrow> r = p
     | EvNotify r _ _ \<Rightarrow> r = p
     | _ \<Rightarrow> False)"

definition spared :: "nat \<Rightarrow> Call \<Rightarrow> World \<Rightarrow> bool" where
  "spared p c w = (p < length (wCalls w) \<and> wCalls w ! p = c \<and> (\<forall>e \<in> set (wTrace w). \<not> about p e)
     \<and> (\<forall>d. (d, p) \<in> set (wDialogs w) \<longrightarrow> d = inboundID c))"

text \<open>Nobody else tears the call down.\<close>

definition lets_be :: "nat \<Rightarrow> Env \<Rightarrow> bool" where
  "lets_be p E = (\<forall>t. ITeardown p \<notin> set (interf E t))"

definition spares :: "nat \<Rightarrow> Call \<Rightarrow> Env \<Rightarrow> nat \<Rightarrow> World \<Rightarrow> bool" where
  "spares p c E r w = (p \<noteq> r \<and> lets_be p E \<longrightarrow> spared p c w)"

lemma spares_iff: "p \<noteq> r \<Longrightarrow> lets_be p E \<Longrightarrow> spares p c E r = spared p c"
  by (simp add: spares_def fun_eq_iff)

lemma spared_simps [simp]:
  "spared p c (w\<lparr>wPorts := x1\<rparr>) = spared p c w" "spared p c (w\<lparr>wHandles := x2\<rparr>) = spared p c w"
  "spared p c (w\<lparr>wTick := x3\<rparr>) = spared p c w" "spared p c (w\<lparr>wOthers := x4\<rparr>) = spared p c w"
  by (simp_all add: spared_def)

lemma spared_updCall: "p \<noteq> r \<Longrightarrow> spared p c (updCall r f w) = spared p c w"
  by (simp add: spared_def updCall_def)

lemma spared_addTrace: "spared p c w \<Longrightarrow> \<forall>e \<in> set es. \<not> about p e \<Longrightarrow> spared p c (addTrace es w)"
  by (auto simp: spared_def addTrace_def)

lemma byes_about: "e \<in> set (byes r c) \<Longrightarrow> p \<noteq> r \<Longrightarrow> \<not> about p e"
  by (auto simp: byes_def about_def split: if_splits option.splits)

lemma spared_teardown: "spared p c w \<Longrightarrow> p \<noteq> r \<Longrightarrow> spared p c (teardown r w)"
proof (cases "r < length (wCalls w) \<and> callState (wCalls w ! r) \<noteq> stateTearingDown")
  case True
  assume s: "spared p c w" and r: "p \<noteq> r"
  have "(d, p) \<in> set (wDialogs (teardown r w)) \<Longrightarrow> (d, p) \<in> set (wDialogs w)" for d
    using True by (auto simp: teardown_live(3) mapDelete_def split: if_splits)
  moreover have "\<not> about p e" if "e \<in> set (wTrace (teardown r w))" for e
    using that s r byes_about [of e r "wCalls w ! r" p] True by (auto simp: teardown_live(1) spared_def)
  ultimately show ?thesis using s r by (simp add: spared_def teardown_frame)
next
  case False
  then have "teardown r w = w" by (auto simp: teardown_def Let_def canTransition_def)
  then show "spared p c w \<Longrightarrow> ?thesis" by simp
qed

lemma spared_interf: "spared p c w \<Longrightarrow> j \<noteq> ITeardown p \<Longrightarrow> spared p c (applyInterf j w)"
  by (cases j) (auto simp: spared_teardown split: prod.split option.split)

interpretation other: own_setup "spares p c E r" "\<lambda>_. True" "\<lambda>e. p \<noteq> r \<and> about p e" E r for p c E r
  by unfold_locales
     (auto simp: spares_def lets_be_def spared_updCall spared_teardown about_def intro: spared_addTrace spared_interf)

interpretation other_call: own_handler "spares p c (callEnv M) r" "\<lambda>_. True" "\<lambda>e. p \<noteq> r \<and> about p e" M r for p c M r
  by unfold_locales
     (auto simp: spares_def lets_be_def spared_updCall about_def intro: spared_addTrace spared_interf)

section \<open>Handlers\<close>

lemma keeps_bind_gets: "(\<And>w. I w \<Longrightarrow> keeps I (g (f w))) \<Longrightarrow> keeps I (State_Monad.bind (gets_st f) g)"
  by (auto simp: keeps_def wp_simps)

lemma spared_by: "lets_be p E \<Longrightarrow> p \<noteq> r \<Longrightarrow> keeps (spares p c E r) m \<Longrightarrow> keeps (spared p c) m"
  by (simp add: spares_iff)

text \<open>What a handler does without naming a call, and for another one.\<close>

lemma spared_ops:
  assumes "lets_be p (callEnv M)"
  shows "keeps (spared p c) (sync (callEnv M))" "keeps (spared p c) (txRespond M tx status reason body hdrs)"
    "keeps (spared p c) (proxied M tx)"
    "keeps (spared p c) (emit (map (EvCandidate x) cs @ (if fin then [EvEndOfCandidates x] else [])))"
  using spared_by [OF assms n_not_Suc_n other_call.keep_sync] spared_by [OF assms n_not_Suc_n other_call.keep_txRespond]
    spared_by [OF assms n_not_Suc_n other_call.keep_proxied] spared_by [OF assms n_not_Suc_n other_call.keep_candidates]
  by blast+

lemma spared_calls:
  assumes "lets_be p (callEnv M)" "p \<noteq> r"
  shows "keeps (spared p c) (handleReInvite M r tx req)" "keeps (spared p c) (sendReferNotify M r frag)"
    "keeps (spared p c) (referInvite M r target offer)" "keeps (spared p c) (bridge (callEnv M) r)"
  using spared_by [OF assms other_call.keep_handleReInvite] spared_by [OF assms other_call.keep_sendReferNotify]
    spared_by [OF assms other_call.keep_referInvite] spared_by [OF assms other.keeps_bridge]
  by blast+

lemma spared_lookup: "spared p c w \<Longrightarrow> did \<noteq> inboundID c \<Longrightarrow> getByDialog did w = Some r \<Longrightarrow> p \<noteq> r"
  by (auto simp: spared_def getByDialog_def dest: map_of_SomeD)

lemma spared_dialog:
  assumes "did \<noteq> inboundID c" "keeps (spared p c) m" "\<And>r. p \<noteq> r \<Longrightarrow> keeps (spared p c) (f r)"
  shows "keeps (spared p c) (do { k \<leftarrow> gets_st (getByDialog did); (case k of None \<Rightarrow> m | Some r \<Rightarrow> f r) })"
proof (rule keeps_bind_gets)
  fix w assume "spared p c w"
  from spared_lookup [OF this assms(1)] assms(2,3)
  show "keeps (spared p c) (case getByDialog did w of None \<Rightarrow> m | Some r \<Rightarrow> f r)" by (cases "getByDialog did w") auto
qed

lemma spared_match:
  assumes "keeps (spared p c) m" "z \<noteq> Some (inboundID c)" "\<And>did. did \<noteq> inboundID c \<Longrightarrow> keeps (spared p c) (f did)"
  shows "keeps (spared p c) (case z of None \<Rightarrow> m | Some did \<Rightarrow> f did)"
  using assms by (cases z) auto

lemma spared_handleRefer:
  assumes "lets_be p (callEnv M)" "\<And>t. matchDialog M t req \<noteq> Some (inboundID c)"
  shows "keeps (spared p c) (handleRefer M tx req)"
  unfolding handleRefer_def
  by (rule keeps_bind [OF spared_ops(1) [OF assms(1)]], rule spared_match [OF spared_ops(2) [OF assms(1)] assms(2)],
      rule spared_dialog, assumption)
     (intro keeps_bind keeps_cases keeps_if keeps_getCall spared_ops [OF assms(1)] spared_calls [OF assms(1)] keeps_return; assumption)+

lemma spared_handleInfo:
  assumes "lets_be p (callEnv M)"
  shows "keeps (spared p c) (handleInfo M tx req)"
  unfolding handleInfo_def Let_def
  by (intro keeps_bind keeps_cases keeps_if keeps_getCall spared_ops [OF assms] keeps_gets_st keeps_return)

lemma spared_addCall: "spared p c w \<Longrightarrow> spared p c (addCall d w)"
  by (auto simp: spared_def addCall_def addDialog_def regAdd_def mapPut_def Let_def nth_append)

text \<open>A new call stands behind every call there is.\<close>

lemma spared_newCall:
  fixes M :: MidEnv
  assumes "lets_be p (callEnv M)"
  shows "keeps (spared p c) (do {
     r \<leftarrow> gets_st (\<lambda>w. length (wCalls w));
     _ \<leftarrow> emit [EvRespond r 100 reason [] [] True];
     _ \<leftarrow> modify_st (addCall d);
     _ \<leftarrow> bridge (callEnv M) r;
     State_Monad.return Returns })"
proof (rule keeps_bind_gets)
  fix w assume "spared p c w"
  then have r: "p \<noteq> length (wCalls w)" by (simp add: spared_def)
  have "keeps (spared p c) (emit [EvRespond (length (wCalls w)) 100 reason [] [] True])"
    unfolding emit_def using r by (intro keeps_modify_st) (simp add: spared_addTrace about_def)
  then show "keeps (spared p c) (do {
     _ \<leftarrow> emit [EvRespond (length (wCalls w)) 100 reason [] [] True];
     _ \<leftarrow> modify_st (addCall d);
     _ \<leftarrow> bridge (callEnv M) (length (wCalls w));
     State_Monad.return Returns })"
    by (intro keeps_bind keeps_modify_st spared_addCall spared_calls [OF assms r] keeps_return)
qed

lemma spared_handleInvite:
  assumes "lets_be p (callEnv M)" "\<And>t. matchDialog M t req \<noteq> Some (inboundID c)"
  shows "keeps (spared p c) (handleInvite M tx req)"
  unfolding handleInvite_def
  by (rule keeps_bind [OF spared_ops(1) [OF assms(1)]], rule keeps_case_option, rule spared_match [OF _ assms(2)],
      rule keeps_case_option, rule spared_ops(2) [OF assms(1)], rule spared_newCall [OF assms(1)], rule spared_dialog, assumption,
      rule spared_ops(2) [OF assms(1)], rule spared_calls [OF assms(1)], assumption, rule spared_ops(3) [OF assms(1)])

lemma spared_served:
  assumes "lets_be p (callEnv M)" "\<And>t. matchDialog M t req \<noteq> Some (inboundID c)"
    "\<And>t. bye t req \<noteq> InboundOf p" "\<And>t. bye t req \<noteq> LegOf p"
  shows "keeps (spared p c) (serveRequest M bye tx req)"
proof -
  have quiet: "keeps (spared p c) (emit [])" "keeps (spared p c) (emit [EvProxied tx])"
    "keeps (spared p c) (emit [EvTxRespond tx s reason [] []])" for s reason
    by (simp_all add: emit_def about_def keeps_modify_st spared_addTrace)
  have ends: "keeps (spared p c) (modify_st (inboundDialogEnded r))" "keeps (spared p c) (modify_st (teardown r))" if "p \<noteq> r" for r
    using that by (auto intro!: keeps_modify_st simp: inboundDialogEnded_def spared_teardown)
  have bye: "keeps (spared p c) (case bye t req of
            InboundOf r \<Rightarrow> modify_st (inboundDialogEnded r)
          | LegOf r \<Rightarrow> modify_st (teardown r)
          | Unwatched \<Rightarrow> emit []
          | NoDialog \<Rightarrow> emit [EvTxRespond tx 481 ''Call/Transaction Does Not Exist'' [] []])" for t
    using quiet ends assms(3,4) [of t] by (cases "bye t req") auto
  have run: "keeps (spared p c) m \<Longrightarrow> keeps (spared p c) (ignoring m)" for m
    unfolding ignoring_def by (intro keeps_bind keeps_return)
  show ?thesis
    unfolding serveRequest_def serveAck_def serveBye_def
    using run [OF spared_handleInvite [OF assms(1,2)]] run [OF spared_handleRefer [OF assms(1,2)]]
      run [OF spared_handleInfo [OF assms(1)]] quiet bye
    by (auto intro!: keeps_bind keeps_gets_st keeps_case_option split: Handler.split)
qed

section \<open>Properties\<close>

text \<open>C9: Calls do not disturb each other: a request, of whatever method, that is not for some call leaves that
  call's record as it was, sends nothing on any of its dialogs, and leaves its port pairs its own, whatever the
  request's own set-up or handler meets; it is only assumed that nobody else ends the call meanwhile.\<close>

theorem requests_spare_other_calls:
  assumes "reachable mn mx w" "p < length (wCalls w)" "sipBehaves (callEnv M)" "\<forall>t. ITeardown p \<notin> set (interf (callEnv M) t)"
    "\<forall>t. matchDialog M t req \<noteq> Some (inboundID (wCalls w ! p))" "\<forall>t. bye t req \<noteq> InboundOf p \<and> bye t req \<noteq> LegOf p"
    "w' = after (serveRequest M bye tx req) w"
  shows "wCalls w' ! p = wCalls w ! p \<and> (\<forall>e \<in> set (wTrace w'). \<not> about p e)
     \<and> (\<forall>q \<in># callHeld (wCalls w ! p). q \<notin> set (freePairs (wPorts w')) \<and> count (held w') q = 1)"
proof -
  have s: "sound w" by (rule reachable_sound [OF assms(1)])
  have "spared p (wCalls w ! p) (w\<lparr>wTrace := []\<rparr>)"
    using s assms(2) by (auto simp: spared_def sound_def registered_def)
  then have k: "spared p (wCalls w ! p) w'"
    using keepsD [OF spared_served [of p M req "wCalls w ! p" bye tx]] assms(4-7) by (simp add: lets_be_def after_def wp_run)
  have "sound w'"
    using reachable_sound [OF reachable.next_step [OF assms(1) serve_step [OF assms(3)]]] by (simp add: assms(7))
  then obtain L where L: "acct {#} L w'" by (auto simp: sound_def balanced_def)
  then have b: "books E 0 {#} L w'" for E by (auto simp: books_def)
  have "x \<in> set cs \<Longrightarrow> q \<in># callHeld x \<Longrightarrow> q \<in># sum_list (map callHeld cs)" for x cs q
    by (induction cs) auto
  then have "q \<in># held w'" if "q \<in># callHeld (wCalls w ! p)" for q
    using that k nth_mem [of p "wCalls w'"] by (fastforce simp: held_def spared_def)
  with books_exclusive [OF b] k show ?thesis by (auto simp: spared_def)
qed

theorem requests_spare_other_calls_witness:
  "wCalls (after (serveRequest (sampleMid (\<lambda>_. None) calmEnv) (\<lambda>_ _. NoDialog) 8 sampleInvite) sampleReached) ! 0 = wCalls sampleReached ! 0
   \<and> callState (wCalls sampleReached ! 0) = stateEstablished"
proof -
  let ?M = "sampleMid (\<lambda>_. None) calmEnv"
  have "sipBehaves (callEnv ?M)" "\<forall>t. ITeardown 0 \<notin> set (interf (callEnv ?M) t)" "\<forall>t req. matchDialog ?M t req = None"
    by (simp_all add: sampleMid_def sample_behaves) (simp add: sampleEnv_def)
  with requests_spare_other_calls [OF sample_reached _ this(1,2) _ _ refl, of sampleInvite "\<lambda>_ _. NoDialog" 8]
  show ?thesis by (simp add: sample_reached_call)
qed

end
