(* ===== verification/Dialogs.thy ===== *)
theory Dialogs
  imports Isolation
begin

text \<open>
  The dialogs of the outbound legs over whole runs of the sequencer: a leg that was answered, which is when the
  sequencer acknowledges it, is kept by its call as long as the call lives and gets its BYE when it ends.
  A run is a list of moves, with the events of its steps one after the other as its history.
\<close>

section \<open>Moves and histories\<close>

datatype Move =
    Invited MidEnv nat Request
  | Referred MidEnv nat Request
  | Informed MidEnv nat Request
  | Relayed nat int
  | InboundEnded nat
  | LegEnded nat
  | Swept iteration int int
  | ShutDown iteration
  | Elsewhere "Event list"

fun perform :: "Move \<Rightarrow> World \<Rightarrow> World" where
  "perform (Invited M tx req) w = after (handleInvite M tx req) w"
| "perform (Referred M tx req) w = after (handleRefer M tx req) w"
| "perform (Informed M tx req) w = after (handleInfo M tx req) w"
| "perform (Relayed r now) w = after (modify_st (packetRelayed r now)) w"
| "perform (InboundEnded r) w = after (modify_st (inboundDialogEnded r)) w"
| "perform (LegEnded r) w = after (modify_st (teardown r)) w"
| "perform (Swept it now timeout) w = after (modify_st (sweep it now timeout)) w"
| "perform (ShutDown it) w = after (modify_st (Shutdown it)) w"
| "perform (Elsewhere es) w = after (emit es) w"

fun lawful :: "Move \<Rightarrow> bool" where
  "lawful (Invited M tx req) = sipBehaves (callEnv M)"
| "lawful (Elsewhere es) = list_all aside es"
| "lawful _ = True"

text \<open>The moves are the steps.\<close>

lemma step_moves: "step w w' \<longleftrightarrow> (\<exists>m. lawful m \<and> w' = perform m w)"
proof
  assume "step w w'"
  then show "\<exists>m. lawful m \<and> w' = perform m w"
    by cases (metis perform.simps lawful.simps)+
next
  assume "\<exists>m. lawful m \<and> w' = perform m w"
  then obtain m where m: "lawful m" "w' = perform m w" by blast
  then show "step w w'" by (cases m) (auto intro: step.intros)
qed

fun play :: "Move list \<Rightarrow> World \<Rightarrow> World" where
  "play [] w = w"
| "play (m # ms) w = play ms (perform m w)"

fun history :: "Move list \<Rightarrow> World \<Rightarrow> Event list" where
  "history [] w = []"
| "history (m # ms) w = wTrace (perform m w) @ history ms (perform m w)"

section \<open>The books of a call's legs\<close>

definition legsOf :: "Call \<Rightarrow> nat set" where
  "legsOf c = legSession ` set (appLegs c) \<union> legSession ` set_option (pbxLeg c) \<union> set_option (transferTarget c)"

text \<open>What happened, before and in the step under way: \<open>H\<close> is the history before it.\<close>

definition heard :: "Event list \<Rightarrow> World \<Rightarrow> Event set" where
  "heard H w = set H \<union> set (wTrace w)"

text \<open>Each acknowledged leg is kept or was hung up, but for those of \<open>X\<close>, which are being taken in; a call that
  is over has hung up all it had. \<open>K\<close> says something of the call's PBX leg and transfer target.\<close>

definition ours :: "nat set \<Rightarrow> (nat option \<Rightarrow> nat option \<Rightarrow> bool) \<Rightarrow> Event list \<Rightarrow> nat \<Rightarrow> World \<Rightarrow> bool" where
  "ours X K H r w = (r < length (wCalls w)
     \<and> (\<forall>s. EvAck r s \<in> heard H w \<longrightarrow> s \<in> X \<or> s \<in> legsOf (wCalls w ! r) \<or> EvBye r s \<in> heard H w)
     \<and> (callState (wCalls w ! r) = stateTearingDown \<longrightarrow> (\<forall>s \<in> legsOf (wCalls w ! r). EvBye r s \<in> heard H w))
     \<and> K (map_option legSession (pbxLeg (wCalls w ! r))) (transferTarget (wCalls w ! r)))"

definition ledger :: "Event list \<Rightarrow> nat \<Rightarrow> World \<Rightarrow> bool" where
  "ledger H r w = (if r < length (wCalls w) then ours {} (\<lambda>_ _. True) H r w else \<forall>s. EvAck r s \<notin> heard H w)"

text \<open>An update that leaves the legs alone, and whether the call is over.\<close>

definition sameLegs :: "(Call \<Rightarrow> Call) \<Rightarrow> bool" where
  "sameLegs f = (\<forall>c. appLegs (f c) = appLegs c \<and> map_option legSession (pbxLeg (f c)) = map_option legSession (pbxLeg c)
     \<and> transferTarget (f c) = transferTarget c
     \<and> (callState (f c) = stateTearingDown \<longleftrightarrow> callState c = stateTearingDown))"

lemma legsOf_same: "sameLegs f \<Longrightarrow> legsOf (f c) = legsOf c"
proof -
  assume f: "sameLegs f"
  then have "legSession ` set_option (pbxLeg (f c)) = legSession ` set_option (pbxLeg c)"
    using option.set_map [of legSession "pbxLeg (f c)"] option.set_map [of legSession "pbxLeg c"] by (simp add: sameLegs_def)
  with f show ?thesis by (simp add: sameLegs_def legsOf_def)
qed

lemma sameLegs_updates:
  "sameLegs (\<lambda>c. c\<lparr>pendingTaps := f c\<rparr>)" "sameLegs (register m fixed)"
  "sameLegs (\<lambda>c. c\<lparr>media := h c, releaseMedia := i c\<rparr>)" "sameLegs (\<lambda>c. c\<lparr>media := h c\<rparr>)"
  "sameLegs (setPBXRemote host port)" "sameLegs (\<lambda>c. c\<lparr>inboundDetached := True\<rparr>)"
  "sameLegs (\<lambda>c. c\<lparr>pbxLeg := map_option (\<lambda>l. l\<lparr>legAnswer := a\<rparr>) (pbxLeg c)\<rparr>)"
  "sameLegs (setPBXAnswer a \<circ> reanchorPBX host port \<circ> reanchorEndpoint host' port')"
  by (simp_all add: sameLegs_def register_def setPBXRemote_def Let_def setPBXAnswer_def reanchorPBX_def reanchorEndpoint_def
       option.map_comp comp_def split: prod.split)

lemma sameLegs_establish: "sameLegs establish"
  by (auto simp: sameLegs_def establish_def Let_def canTransition_def split: CallState.splits)

text \<open>A teardown of any call.\<close>

lemma teardown_legs:
  "appLegs (wCalls (teardown r' w) ! r) = appLegs (wCalls w ! r)" "pbxLeg (wCalls (teardown r' w) ! r) = pbxLeg (wCalls w ! r)"
  "transferTarget (wCalls (teardown r' w) ! r) = transferTarget (wCalls w ! r)"
  "inboundID (wCalls (teardown r' w) ! r) = inboundID (wCalls w ! r)"
proof -
  let ?same = "\<lambda>c c'. appLegs c' = appLegs c \<and> pbxLeg c' = pbxLeg c \<and> transferTarget c' = transferTarget c \<and> inboundID c' = inboundID c"
  have u: "?same (wCalls w ! r) (wCalls (updCall r' f w) ! r)" if "?same (wCalls w ! r') (f (wCalls w ! r'))" for f w
    using that by (cases "r' = r"; cases "r' < length (wCalls w)") (simp_all add: updCall_def list_update_beyond)
  have rel: "?same (wCalls w ! r) (wCalls (runRelease r' fixed w) ! r)" for fixed w
  proof (cases "media (wCalls w ! r')")
    case (Some m)
    have "?same (wCalls w ! r) (wCalls (updCall r' (\<lambda>c. c\<lparr>media := map_option (\<lambda>m. fst (closeSession m (wHandles w))) (media c)\<rparr>) w) ! r)"
      by (rule u) simp
    then show ?thesis by (simp add: runRelease_upd(1) [OF Some] updCall_def)
  qed (simp add: runRelease_upd(2))
  have die: "?same (wCalls w ! r) (wCalls (updCall r' (\<lambda>c. c\<lparr>callState := stateTearingDown, cancelled := True\<rparr>) w) ! r)"
    by (rule u) simp
  have "?same (wCalls w ! r) (wCalls (teardown r' w) ! r)"
    using die rel by (simp add: teardown_def Let_def regRemove_def addTrace_def split: option.split)
  then show "appLegs (wCalls (teardown r' w) ! r) = appLegs (wCalls w ! r)" "pbxLeg (wCalls (teardown r' w) ! r) = pbxLeg (wCalls w ! r)"
    "transferTarget (wCalls (teardown r' w) ! r) = transferTarget (wCalls w ! r)"
    "inboundID (wCalls (teardown r' w) ! r) = inboundID (wCalls w ! r)" by simp_all
qed

lemma legsOf_teardown: "legsOf (wCalls (teardown r' w) ! r) = legsOf (wCalls w ! r)"
  by (simp add: legsOf_def teardown_legs)

lemma byes_legs: "s \<in> legsOf c \<Longrightarrow> EvBye r s \<in> set (byes r c)" "EvAck r' s \<notin> set (byes r c)"
  by (auto simp: legsOf_def byes_def split: if_splits option.splits)

lemma teardown_says: "wTrace (teardown r w) = wTrace w @ (if live w r then byes r (wCalls w ! r) else [])"
proof (cases "live w r")
  case False
  then have "teardown r w = w" by (auto simp: teardown_def Let_def live_def canTransition_def)
  with False show ?thesis by simp
qed (simp add: live_def teardown_live(1))

lemma heard_teardown:
  "EvAck r s \<in> heard H (teardown r' w) \<longleftrightarrow> EvAck r s \<in> heard H w" "heard H w \<subseteq> heard H (teardown r' w)"
  "live w r \<Longrightarrow> s \<in> legsOf (wCalls w ! r) \<Longrightarrow> EvBye r s \<in> heard H (teardown r w)"
  by (auto simp: heard_def teardown_says byes_legs split: if_splits)

lemma ours_teardown: "ours X K H r w \<Longrightarrow> ours X K H r (teardown r' w)"
proof -
  assume w: "ours X K H r w"
  have "EvBye r s \<in> heard H (teardown r' w)"
    if "callState (wCalls (teardown r' w) ! r) = stateTearingDown" "s \<in> legsOf (wCalls w ! r)" for s
  proof (cases "callState (wCalls w ! r) = stateTearingDown")
    case True
    with w that show ?thesis using heard_teardown(2) by (fastforce simp: ours_def)
  next
    case False
    then have "r' = r" using that(1) teardown_frame(2) [of r r' w] by (cases "r' = r") auto
    moreover have "live w r" using w False by (simp add: ours_def live_def)
    ultimately show ?thesis using that(2) heard_teardown(3) by blast
  qed
  with w show ?thesis
    using heard_teardown(2) [of H w r'] by (auto simp: ours_def teardown_frame legsOf_teardown heard_teardown(1) teardown_legs)
qed

lemma ours_simps [simp]:
  "ours X K H r (w\<lparr>wPorts := x1\<rparr>) = ours X K H r w" "ours X K H r (w\<lparr>wHandles := x2\<rparr>) = ours X K H r w"
  "ours X K H r (w\<lparr>wTick := x3\<rparr>) = ours X K H r w" "ours X K H r (w\<lparr>wOthers := x4\<rparr>) = ours X K H r w"
  by (simp_all add: ours_def heard_def)

lemma ours_interf: "ours X K H r w \<Longrightarrow> ours X K H r (applyInterf j w)"
  by (cases j) (auto simp: ours_teardown split: prod.split option.split)

lemma ours_updCall: "ours X K H r w \<Longrightarrow> sameLegs f \<Longrightarrow> ours X K H r (updCall r' f w)"
  by (cases "r' = r") (simp_all add: ours_def updCall_def legsOf_same heard_def, simp add: sameLegs_def)

fun isAck :: "Event \<Rightarrow> bool" where
  "isAck (EvAck _ _) = True"
| "isAck _ = False"

lemma ours_addTrace: "ours X K H r w \<Longrightarrow> \<forall>e \<in> set es. \<not> isAck e \<Longrightarrow> ours X K H r (addTrace es w)"
  by (auto simp: ours_def heard_def addTrace_def)

text \<open>While nobody else tears the call down, it lives until its own handler ends it.\<close>

definition openFor :: "nat set \<Rightarrow> (nat option \<Rightarrow> nat option \<Rightarrow> bool) \<Rightarrow> Event list \<Rightarrow> Env \<Rightarrow> nat \<Rightarrow> World \<Rightarrow> bool" where
  "openFor X K H E r w = (lets_be r E \<longrightarrow> ours X K H r w \<and> live w r)"

lemma openFor_iff: "lets_be r E \<Longrightarrow> openFor X K H E r w \<longleftrightarrow> ours X K H r w \<and> live w r"
  by (simp add: openFor_def)

lemma live_simps [simp]:
  "live (w\<lparr>wPorts := x1\<rparr>) = live w" "live (w\<lparr>wHandles := x2\<rparr>) = live w"
  "live (w\<lparr>wTick := x3\<rparr>) = live w" "live (w\<lparr>wOthers := x4\<rparr>) = live w" "live (addTrace es w) = live w"
  by (simp_all add: live_def fun_eq_iff addTrace_def)

lemma live_same: "live w r \<Longrightarrow> sameLegs f \<Longrightarrow> live (updCall r' f w) r"
  by (cases "r' = r") (simp_all add: live_def sameLegs_def updCall_def)

lemma live_interf: "live w r \<Longrightarrow> j \<noteq> ITeardown r \<Longrightarrow> live (applyInterf j w) r"
  by (simp add: live_def interf_frame)

interpretation going: own_calm "openFor X K H E r" sameLegs isAck E r for X K H E r
  by unfold_locales
     (auto simp: openFor_def lets_be_def ours_updCall ours_addTrace ours_interf sameLegs_updates live_same intro: live_interf)

interpretation kept: own_inv "ours X K H r" sameLegs isAck E r for X K H E r
  by unfold_locales (simp_all add: ours_updCall ours_addTrace ours_interf ours_teardown sameLegs_updates)

section \<open>The set-up\<close>

lemmas wp_open = wp_keeping [where I = "openFor X K H E r"] for X K H E r

lemma wp_getting: "(\<And>c. c = wCalls w ! r \<Longrightarrow> wp (f c) Q w) \<Longrightarrow> wp (State_Monad.bind (getCall r) f) Q w"
  by (simp add: getCall_def wp_simps)

abbreviation anyLegs :: "nat option \<Rightarrow> nat option \<Rightarrow> bool" where "anyLegs \<equiv> \<lambda>_ _. True"
abbreviation noPBX :: "nat option \<Rightarrow> nat option \<Rightarrow> bool" where "noPBX \<equiv> \<lambda>p _. p = None"
abbreviation onPBX :: "nat \<Rightarrow> nat option \<Rightarrow> nat option \<Rightarrow> bool" where "onPBX s \<equiv> \<lambda>p _. p = Some s"

lemma ours_any: "ours X K H r w \<Longrightarrow> ours X anyLegs H r w"
  by (simp add: ours_def)

lemma wp_ack_new:
  assumes "openFor {} K H E r w" "\<And>w'. openFor {s} K H E r w' \<Longrightarrow> wp (f ()) Q w'"
  shows "wp (State_Monad.bind (ack E r s) f) Q w"
  unfolding ack_def State_Monad.bind_assoc
  by (rule wp_keeping [OF going.keeps_sync assms(1)])
     (auto simp: emit_def wp_simps openFor_def ours_def heard_def addTrace_def live_def intro!: assms(2))

lemma keeps_ack_PBX: "keeps (ours {} (onPBX s) H r) (ack E r s)"
proof (rule keepsI)
  fix w assume w: "ours {} (onPBX s) H r w"
  have "ours {} (onPBX s) H r (addTrace [EvAck r s] w)" if "ours {} (onPBX s) H r w" for w
  proof -
    have "s \<in> legsOf (wCalls w ! r)" using that by (auto simp: ours_def legsOf_def)
    with that show ?thesis by (auto simp: ours_def heard_def addTrace_def)
  qed
  then show "wp (ack E r s) (\<lambda>_. ours {} (onPBX s) H r) w"
    unfolding ack_def by (intro wp_keeping [OF kept.keeps_sync w]) (simp add: emit_def wp_simps)
qed

lemma open_taken:
  assumes "openFor {s} K H E r w" "legSession l = s"
  shows "openFor {} K H E r (updCall r (\<lambda>c. c\<lparr>appLegs := appLegs c @ [l]\<rparr>) w)"
  using assms by (auto simp: openFor_def ours_def heard_def updCall_def live_def legsOf_def)

lemma wp_appAnswered_open:
  assumes "openFor {} K H E r w"
  shows "wp (appAnswered E r app tap lid s res) (\<lambda>_. openFor {} K H E r) w"
proof -
  let ?take = "\<lambda>c. c\<lparr>appLegs := appLegs c @ [\<lparr>legRole = roleApplication, legTarget = appURI app, legID = lid, legSession = s, legAnswer = resBody res\<rparr>]\<rparr>"
  have tap: "keeps (openFor {s} K H E r) (case tap of None \<Rightarrow> State_Monad.return ()
       | Some t \<Rightarrow> (case parseTapAnswer (resBody res) of
             Inl _ \<Rightarrow> releaseTap t
           | Inr ends \<Rightarrow> locked E r (\<lambda>c. c\<lparr>pendingTaps := pendingTaps c @ [stashedTap (appName app) t ends]\<rparr>)))"
    by (intro keeps_cases keeps_return going.keeps_releaseTap going.keeps_locked sameLegs_updates)
  have took: "wp (State_Monad.bind (locked E r ?take) f) (\<lambda>_. openFor {} K H E r) w'"
    if "openFor {s} K H E r w'" "\<And>x. keeps (openFor {} K H E r) (f x)" for w' and f :: "unit \<Rightarrow> unit op"
    unfolding locked_def State_Monad.bind_assoc
    by (rule wp_keeping [OF going.keeps_sync that(1)])
       (simp add: wp_bind wp_modify_st keepsD [OF that(2) open_taken])
  show ?thesis
    unfolding appAnswered_def
    by (rule wp_ack_new [OF assms], rule wp_keeping [OF tap], assumption, rule took, assumption)
       (rule going.keeps_emit, simp)
qed

definition setUpTo :: "(nat option \<Rightarrow> nat option \<Rightarrow> bool) \<Rightarrow> Event list \<Rightarrow> Env \<Rightarrow> nat \<Rightarrow> bool \<Rightarrow> World \<Rightarrow> bool" where
  "setUpTo K H E r ok w = (if ok then openFor {} K H E r w else lets_be r E \<longrightarrow> ours {} K H r w)"

text \<open>After a failure the call is closed; without one it is open.\<close>

lemma wp_closing:
  assumes "openFor {} K H E r w" "\<And>X. keeps (ours X K H r) m"
  shows "wp (do { _ \<leftarrow> m; State_Monad.return False }) (setUpTo K H E r) w"
proof (cases "lets_be r E")
  case True
  then show ?thesis
    using keepsD [OF assms(2), of "{}" w] assms(1) by (simp add: wp_simps setUpTo_def openFor_def wp_mono)
next
  case False
  then show ?thesis by (simp add: wp_simps setUpTo_def wp_run)
qed

lemma setUpTo_True: "setUpTo K H E r True = openFor {} K H E r"
  by (simp add: setUpTo_def fun_eq_iff)

lemma wp_appLegFailed_open:
  assumes "openFor {} K H E r w" "\<And>X. keeps (ours X K H r) m"
  shows "wp (do { abort \<leftarrow> appLegFailed app tap; if abort then do { _ \<leftarrow> m; State_Monad.return False } else State_Monad.return True })
    (setUpTo K H E r) w"
proof -
  have "keeps (openFor {} K H E r) (appLegFailed app tap)"
    unfolding appLegFailed_def
    by (intro keeps_bind keeps_cases keeps_return going.keeps_releaseTap going.keeps_emit) simp
  then show ?thesis
    using wp_closing [OF _ assms(2)] by (intro wp_open [OF _ assms(1)]) (auto simp: wp_return setUpTo_True)
qed

lemma wp_appLeg_open:
  assumes "openFor {} K H E r w"
  shows "wp (appLeg E r app uri body tap) (setUpTo K H E r) w"
proof -
  have answered: "wp (case a of Answered res \<Rightarrow> do { _ \<leftarrow> appAnswered E r app tap lid s res; State_Monad.return True }
        | _ \<Rightarrow> do { abort \<leftarrow> appLegFailed app tap;
             if abort then do { _ \<leftarrow> respondInboundFromLegError E r a; State_Monad.return False } else State_Monad.return True })
      (setUpTo K H E r) w'" if "openFor {} K H E r w'" for a s lid w'
    using wp_appLegFailed_open [OF that kept.keeps_respondError] wp_appAnswered_open [OF that]
    by (cases a) (auto simp: wp_bind [of "appAnswered E r app tap lid s res" for res] wp_return setUpTo_True)
  show ?thesis
    unfolding appLeg_def
    using wp_appLegFailed_open [OF _ kept.keeps_fail] answered
    by (auto intro!: wp_getting wp_open [OF keeps_gets_st assms] wp_open [OF going.keeps_dial] wp_open [OF going.keeps_wait]
        split: option.split)
qed

lemma wp_appStep_open:
  assumes "openFor {} K H E r w"
  shows "wp (appStep E r app) (setUpTo K H E r) w"
proof -
  have failed: "wp (do { _ \<leftarrow> fail E r st reason; State_Monad.return False }) (setUpTo K H E r) w'"
    if "openFor {} K H E r w'" for st reason w'
    by (rule wp_closing [OF that kept.keeps_fail])
  have exhausted: "wp (do { _ \<leftarrow> emit [EvAppFailure (appName app)];
        if failureAction (appOnFailure app) = actionAbort then do {
          _ \<leftarrow> (if e = errTapExhausted then fail E r 503 ''Service Unavailable'' else fail E r 500 ''Server Error'');
          State_Monad.return False
        } else State_Monad.return True }) (setUpTo K H E r) w'" if "openFor {} K H E r w'" for e w'
    using failed by (intro wp_open [OF going.keeps_emit that]) (auto simp: wp_return setUpTo_True)
  have offered: "wp (case t of Inl e \<Rightarrow> m e | Inr tap \<Rightarrow> (case bt tap of
        Inl x \<Rightarrow> do { _ \<leftarrow> releaseTap tap; _ \<leftarrow> fail E r 500 ''Server Error''; State_Monad.return False }
      | Inr body \<Rightarrow> appLeg E r app uri body (Some tap))) (setUpTo K H E r) w'"
    if "openFor {} K H E r w'" "\<And>e. wp (m e) (setUpTo K H E r) w'" for t m w' uri and bt :: "TapResources \<Rightarrow> sdp_error + string"
    using that failed wp_appLeg_open
    by (auto intro!: wp_open [OF going.keeps_releaseTap] split: sum.split)
  show ?thesis
    unfolding appStep_def using failed assms wp_appLeg_open
    by (auto intro!: wp_getting wp_open [OF going.keeps_acquireTap] offered exhausted simp: wp_return setUpTo_True
        split: option.split sum.split)
qed

lemma wp_appChain_open: "openFor {} K H E r w \<Longrightarrow> wp (appChain E r apps) (setUpTo K H E r) w"
proof (induction apps arbitrary: w)
  case (Cons app apps)
  show ?case
    unfolding appChain.simps wp_bind
    by (rule wp_mono [OF wp_appStep_open [OF Cons.prems]]) (auto simp: setUpTo_def wp_return intro: Cons.IH)
qed (simp add: wp_return setUpTo_True)

text \<open>Anchoring gives an anchor to an open call only.\<close>

definition anchored :: "(nat option \<Rightarrow> nat option \<Rightarrow> bool) \<Rightarrow> Event list \<Rightarrow> Env \<Rightarrow> nat \<Rightarrow> 'a option \<Rightarrow> World \<Rightarrow> bool" where
  "anchored K H E r a w = setUpTo K H E r (a \<noteq> None) w"

lemma wp_closing_None:
  assumes "openFor {} K H E r w" "\<And>X. keeps (ours X K H r) m"
  shows "wp (do { _ \<leftarrow> m; State_Monad.return None }) (anchored K H E r) w"
  using wp_closing [OF assms] by (simp add: wp_bind wp_return anchored_def)

lemma wp_none_open: "openFor {} K H E r w \<Longrightarrow> wp (State_Monad.return None) (anchored K H E r) w"
  by (simp add: wp_return anchored_def setUpTo_def openFor_def)

lemma wp_some_open: "openFor {} K H E r w \<Longrightarrow> wp (State_Monad.return (Some x)) (anchored K H E r) w"
  by (simp add: wp_return anchored_def setUpTo_def)

lemma wp_anchorMedia_open:
  assumes "openFor {} K H E r w"
  shows "wp (anchorMedia E r) (anchored K H E r) w"
proof -
  have failed: "wp (failWith E r st reason) (anchored K H E r) w'" if "openFor {} K H E r w'" for st reason w'
    unfolding failWith_def by (rule wp_closing_None [OF that kept.keeps_fail])
  have registered: "wp (do { ok \<leftarrow> registerMedia E r (register m fixed);
        if ok then State_Monad.return (Some a) else do { _ \<leftarrow> releaseUnregistered m fixed; State_Monad.return None } })
      (anchored K H E r) w'" if "openFor {} K H E r w'" for m fixed a w'
    using wp_some_open wp_none_open
    by (auto intro!: wp_open [OF going.keeps_registerMedia that] wp_open [OF going.keeps_releaseUnregistered] sameLegs_updates)
  have webrtc: "wp (anchorWebRTC E r) (anchored K H E r) w'" if "openFor {} K H E r w'" for w'
    unfolding anchorWebRTC_def using failed registered
    by (auto intro!: wp_getting wp_open [OF going.keeps_sync that] wp_open [OF keeps_gets_st] wp_open [OF keeps_modify_st]
        split: option.split)
  have plain: "wp (anchorPlain E r h p) (anchored K H E r) w'" if "openFor {} K H E r w'" for h p w'
    unfolding anchorPlain_def Let_def using failed registered
    by (auto intro!: wp_open [OF going.keeps_acquire that] wp_open [OF going.keeps_acquire] wp_open [OF going.keeps_bindSide]
        wp_open [OF going.keeps_releasePairs] wp_open [OF going.keeps_closeSides] split: option.split prod.split)
  show ?thesis
    unfolding anchorMedia_def using assms failed webrtc plain by (auto intro!: wp_getting split: sum.split)
qed

text \<open>The PBX leg is in the call's books before its answer.\<close>

lemma open_dialled:
  assumes "openFor {} noPBX H E r w" "lets_be r E" "legSession l = s"
  shows "ours {} (onPBX s) H r (updCall r (\<lambda>c. c\<lparr>pbxLeg := Some l\<rparr>) w)"
  using assms by (auto simp: openFor_def ours_def heard_def updCall_def live_def legsOf_def)

definition awaitPBX :: "Env \<Rightarrow> nat \<Rightarrow> nat \<Rightarrow> Response option op" where
  "awaitPBX E r s = do {
     a \<leftarrow> waitAnswer E r s (legTimeout E);
     (case a of
        Answered res \<Rightarrow> do {
          _ \<leftarrow> ack E r s;
          _ \<leftarrow> locked E r (\<lambda>c. c\<lparr>pbxLeg := map_option (\<lambda>l. l\<lparr>legAnswer := resBody res\<rparr>) (pbxLeg c)\<rparr>);
          State_Monad.return (Some res)
        }
      | _ \<Rightarrow> do {
          _ \<leftarrow> emit [EvTerminatingHopFailure];
          _ \<leftarrow> respondInboundFromLegError E r a;
          State_Monad.return None
        })
   }"

lemma keeps_awaitPBX: "keeps (ours {} (onPBX s) H r) (awaitPBX E r s)"
  unfolding awaitPBX_def
  by (intro keeps_bind keeps_cases keeps_return kept.keeps_wait keeps_ack_PBX kept.keeps_locked kept.keeps_emit
      kept.keeps_respondError sameLegs_updates) simp_all

lemma wp_closed:
  assumes "openFor {} K H E r w" "lets_be r E" "keeps (ours {} K H r) m"
  shows "wp m (\<lambda>_. ours {} anyLegs H r) w"
proof -
  have "ours {} K H r w" using assms(1,2) by (simp add: openFor_iff)
  from keepsD [OF assms(3) this] show ?thesis by (rule wp_mono) (rule ours_any)
qed

lemma wp_dialled:
  assumes "openFor {} noPBX H E r w" "lets_be r E" "legSession l = s"
  shows "wp (do { _ \<leftarrow> locked E r (\<lambda>c. c\<lparr>pbxLeg := Some l\<rparr>); awaitPBX E r s }) (\<lambda>_. ours {} anyLegs H r) w"
proof -
  have "wp (awaitPBX E r s) (\<lambda>_. ours {} anyLegs H r) (updCall r (\<lambda>c. c\<lparr>pbxLeg := Some l\<rparr>) w')"
    if "openFor {} noPBX H E r w'" for w'
    by (rule wp_mono [OF keepsD [OF keeps_awaitPBX open_dialled [OF that assms(2,3)]]]) (rule ours_any)
  then show ?thesis
    unfolding locked_def State_Monad.bind_assoc
    by (intro wp_open [OF going.keeps_sync assms(1)]) (simp add: wp_bind [of "modify_st f" for f] wp_modify_st)
qed

lemma wp_originatePBX_open:
  assumes "openFor {} noPBX H E r w" "lets_be r E"
  shows "wp (originatePBX E r offer) (\<lambda>_. ours {} anyLegs H r) w"
proof (cases "ParseUri (lib E) (nhURI (cfgNextHop (cfg E)))")
  case None
  then show ?thesis using wp_closed [OF assms kept.keeps_failWith] by (simp add: originatePBX_def)
next
  case (Some uri)
  have "keeps (ours {} noPBX H r) (hopFailed E r st reason :: Response option op)" for st reason
    unfolding hopFailed_def by (intro kept.keeps_failWith keeps_bind kept.keeps_emit) simp
  with wp_closed [OF _ assms(2) this] show ?thesis
    unfolding originatePBX_def Let_def Some option.case
    by (intro wp_getting wp_open [OF keeps_gets_st assms(1)] wp_open [OF going.keeps_dial]) (auto intro!: wp_dialled [OF _ assms(2), unfolded awaitPBX_def] split: option.split)
qed

text \<open>The rest of the set-up leaves the legs alone.\<close>

lemma keeps_answered:
  "keeps (ours {} anyLegs H r) (answerEndpoint E r sdp hdrs)"
  "keeps (ours {} anyLegs H r) (reportCodecAgreement a b)"
  "keeps (ours {} anyLegs H r) (do { _ \<leftarrow> emit [EvTerminatingHopFailure]; failFalse E r st reason })"
  unfolding answerEndpoint_def reportCodecAgreement_def
  by (intro keeps_bind keeps_cases keeps_if keeps_return kept.keeps_locked kept.keeps_respond kept.keeps_emit kept.keeps_finish
      kept.keeps_failFalse sameLegs_establish; simp)+

lemma wp_originated:
  assumes "openFor {} noPBX H E r w" "lets_be r E" "\<And>ans. keeps (ours {} anyLegs H r) (f ans)"
  shows "wp (State_Monad.bind (originatePBX E r offer) f) (\<lambda>_. ours {} anyLegs H r) w"
  unfolding wp_bind by (rule wp_mono [OF wp_originatePBX_open [OF assms(1,2)] keepsD [OF assms(3)]])

lemma wp_dialPBX_open:
  assumes "openFor {} noPBX H E r w" "lets_be r E"
  shows "wp (dialPBX E r epP pbxP) (\<lambda>_. ours {} anyLegs H r) w"
  unfolding dialPBX_def using wp_closed [OF assms kept.keeps_failFalse]
  by (auto intro!: wp_getting wp_originated [OF assms] keeps_bind keeps_cases keeps_return kept.keeps_failFalse kept.keeps_locked
      keeps_answered sameLegs_updates split: sum.split)

lemma wp_bridgeSecured_open:
  assumes "openFor {} noPBX H E r w" "lets_be r E"
  shows "wp (bridgeSecuredToPBX E r leg) (\<lambda>_. ours {} anyLegs H r) w"
  unfolding bridgeSecuredToPBX_def using wp_closed [OF _ assms(2) kept.keeps_failFalse] wp_closed [OF _ assms(2) keeps_return]
  by (auto intro!: wp_getting wp_open [OF going.keeps_acquire assms(1)] wp_open [OF going.keeps_bindSide] wp_open [OF going.keeps_releasePairs]
      wp_open [OF going.keeps_registerMedia] wp_open [OF going.keeps_closeSides] wp_originated [OF _ assms(2)]
      keeps_bind keeps_cases keeps_return kept.keeps_failFalse kept.keeps_locked keeps_answered sameLegs_updates split: option.split sum.split)

lemma wp_bridge_open:
  assumes "openFor {} noPBX H E r w" "lets_be r E"
  shows "wp (bridge E r) (\<lambda>_. ours {} anyLegs H r) w"
proof -
  have up: "keeps (ours {} anyLegs H r) (do { _ \<leftarrow> (if up then emit [EvRelay r] else State_Monad.return ()); State_Monad.return up })" for up
    by (intro keeps_bind keeps_if keeps_return kept.keeps_emit) simp
  have relayed: "wp (do { up \<leftarrow> m; _ \<leftarrow> (if up then emit [EvRelay r] else State_Monad.return ()); State_Monad.return up })
      (\<lambda>_. ours {} anyLegs H r) w'" if "wp m (\<lambda>_. ours {} anyLegs H r) w'" for m w'
    unfolding wp_bind [of m] by (rule wp_mono [OF that keepsD [OF up]])
  have anchored: "wp (case a of None \<Rightarrow> State_Monad.return False
        | Some (SecuredAnchor leg) \<Rightarrow> do { up \<leftarrow> bridgeSecuredToPBX E r leg;
            _ \<leftarrow> (if up then emit [EvRelay r] else State_Monad.return ()); State_Monad.return up }
        | Some (PlainAnchor epP pbxP) \<Rightarrow> do { up \<leftarrow> dialPBX E r epP pbxP;
            _ \<leftarrow> (if up then emit [EvRelay r] else State_Monad.return ()); State_Monad.return up })
      (\<lambda>_. ours {} anyLegs H r) w'" if "anchored noPBX H E r a w'" for a w'
    using that assms(2) relayed [OF wp_dialPBX_open] relayed [OF wp_bridgeSecured_open] ours_any
    by (auto simp: anchored_def setUpTo_def wp_return split: option.splits MediaAnchor.splits)
  show ?thesis
    unfolding bridge_def runAppChain_def wp_bind [of "appChain E r apps" for apps]
    by (rule wp_mono [OF wp_appChain_open [OF assms(1)]])
       (auto simp: setUpTo_def wp_return assms(2) ours_any wp_bind [of "anchorMedia E r"]
          intro!: wp_mono [OF wp_anchorMedia_open anchored])
qed

section \<open>Handlers\<close>

lemma ledger_iff: "r < length (wCalls w) \<Longrightarrow> ledger H r w \<longleftrightarrow> ours {} anyLegs H r w"
  by (simp add: ledger_def)

lemma ours_ledger: "ours {} K H r w \<Longrightarrow> ledger H r w"
  using ours_any by (auto simp: ledger_def ours_def)

lemma ledger_teardown: "ledger H p w \<Longrightarrow> ledger H p (teardown r w)"
  using ours_teardown [of "{}" anyLegs H p w r] by (simp add: ledger_def teardown_frame heard_teardown(1) split: if_splits)

lemma ledger_simps [simp]:
  "ledger H p (w\<lparr>wPorts := x1\<rparr>) = ledger H p w" "ledger H p (w\<lparr>wHandles := x2\<rparr>) = ledger H p w"
  "ledger H p (w\<lparr>wTick := x3\<rparr>) = ledger H p w" "ledger H p (w\<lparr>wOthers := x4\<rparr>) = ledger H p w"
  by (simp_all add: ledger_def heard_def)

lemma ledger_interf: "ledger H p w \<Longrightarrow> ledger H p (applyInterf j w)"
  by (cases j) (auto simp: ledger_teardown split: prod.split option.split)

lemma ledger_updCall: "ledger H p w \<Longrightarrow> p \<noteq> r \<or> sameLegs f \<Longrightarrow> ledger H p (updCall r f w)"
proof (cases "p = r")
  case False
  then have "ledger H p (updCall r f w) = ledger H p w" by (simp add: ledger_def ours_def heard_def updCall_def)
  then show "ledger H p w \<Longrightarrow> ?thesis" by simp
next
  case True
  assume "ledger H p w" "p \<noteq> r \<or> sameLegs f"
  with True ours_updCall [of "{}" anyLegs H p w f r] show ?thesis
    by (simp add: ledger_def heard_def split: if_splits)
qed

lemma ledger_addTrace: "ledger H p w \<Longrightarrow> \<forall>e \<in> set es. \<forall>s. e \<noteq> EvAck p s \<Longrightarrow> ledger H p (addTrace es w)"
  by (auto simp: ledger_def ours_def heard_def addTrace_def split: if_splits)

interpretation booked: own_inv "ledger H p" sameLegs isAck E p for H p E
proof unfold_locales
  show "ledger H p (addTrace es w)" if "ledger H p w" "\<forall>e \<in> set es. \<not> isAck e" for w es
    using that by (intro ledger_addTrace) auto
qed (simp_all add: ledger_updCall ledger_interf ledger_teardown sameLegs_updates)

text \<open>What is done for another call.\<close>

definition apart :: "nat \<Rightarrow> Event list \<Rightarrow> nat \<Rightarrow> World \<Rightarrow> bool" where
  "apart r H p w = (p \<noteq> r \<longrightarrow> ledger H p w)"

lemma apart_iff: "p \<noteq> r \<Longrightarrow> apart r H p = ledger H p"
  by (simp add: apart_def fun_eq_iff)

interpretation foreign: own_setup "apart r H p" "\<lambda>_. True" "\<lambda>e. p \<noteq> r \<and> (\<exists>s. e = EvAck p s)" E r for H p E r
  by unfold_locales (auto simp: apart_def ledger_updCall ledger_interf ledger_teardown intro: ledger_addTrace)

interpretation foreign_call: own_handler "apart r H p" "\<lambda>_. True" "\<lambda>e. p \<noteq> r \<and> (\<exists>s. e = EvAck p s)" M r for H p M r
  by unfold_locales (auto simp: apart_def ledger_updCall ledger_interf intro: ledger_addTrace)

lemma keeps_foreign:
  assumes "p \<noteq> r"
  shows "keeps (ledger H p) (handleReInvite M r tx req)" "keeps (ledger H p) (sendReferNotify M r frag)"
    "keeps (ledger H p) (referInvite M r target offer)" "keeps (ledger H p) (bridge E r)"
  using foreign_call.keep_handleReInvite [of r H p M tx req] foreign_call.keep_sendReferNotify [of r H p M frag]
    foreign_call.keep_referInvite [of r H p M target offer] foreign.keeps_bridge [of r H p E] assms by (simp_all add: apart_iff)

lemma keeps_answers:
  "keeps (ledger H p) (txRespond M tx status reason body hdrs)" "keeps (ledger H p) (proxied M tx)"
  "keeps (ours X K H p) (txRespond M tx status reason body hdrs)"
  "keeps (openFor X K H (callEnv M) p) (txRespond M tx status reason body hdrs)"
  "keeps (openFor X K H (callEnv M) p) (sendReferNotify M p frag)"
  unfolding txRespond_def proxied_def sendReferNotify_def
  by (intro keeps_bind keeps_cases keeps_return booked.keeps_sync booked.keeps_emit kept.keeps_sync kept.keeps_emit
      going.keeps_sync going.keeps_emit; simp)+

text \<open>A re-INVITE acknowledges the PBX leg again.\<close>

lemma keeps_reInvite: "keeps (ours {} anyLegs H r) (handleReInvite M r tx req)"
proof (rule keepsI)
  fix w assume w: "ours {} anyLegs H r w"
  have any: "keeps (ours {} (onPBX s) H r) (reInvitePBX M r tx s offer h p ep)" for s offer h p ep
    unfolding reInvitePBX_def reInviteAccepted_def Let_def
    by (intro keeps_bind keeps_cases keeps_if keeps_answers kept.keeps_sync kept.keeps_emit kept.keeps_locked keeps_ack_PBX
        sameLegs_updates) simp_all
  have pbx: "wp (reInvitePBX M r tx (legSession leg) offer h p ep) (\<lambda>_. ours {} anyLegs H r) w'"
    if "ours {} anyLegs H r w'" "pbxLeg (wCalls w' ! r) = Some leg" for w' leg offer h p ep
  proof -
    have "ours {} (onPBX (legSession leg)) H r w'" using that by (simp add: ours_def)
    from keepsD [OF any this] show ?thesis by (rule wp_mono) (rule ours_any)
  qed
  have answers: "wp (txRespond M tx status reason body hdrs) (\<lambda>_. ours {} anyLegs H r) w'" if "ours {} anyLegs H r w'" for status reason body hdrs w'
    by (rule keepsD [OF keeps_answers(3) that])
  show "wp (handleReInvite M r tx req) (\<lambda>_. ours {} anyLegs H r) w"
    unfolding handleReInvite_def Let_def
    by (rule wp_keeping [OF kept.keeps_sync w], rule wp_getting) (auto intro!: answers pbx simp: wp_return split: option.split sum.split)
qed

text \<open>A REFER of a call that has not been transferred yet.\<close>

abbreviation noTarget :: "nat option \<Rightarrow> nat option \<Rightarrow> bool" where "noTarget \<equiv> \<lambda>_ t. t = None"

lemma legsOf_transferred:
  "transferTarget c = None \<Longrightarrow> legsOf ((reanchorEndpoint h p c)\<lparr>transferTarget := Some s\<rparr>) = insert s (legsOf c)"
  "callState ((reanchorEndpoint h p c)\<lparr>transferTarget := Some s\<rparr>) = callState c"
  by (auto simp: legsOf_def reanchorEndpoint_def split: prod.split)

lemma open_transferred:
  "openFor {s} noTarget H E r w \<Longrightarrow> openFor {} anyLegs H E r (updCall r (\<lambda>c. (reanchorEndpoint h p c)\<lparr>transferTarget := Some s\<rparr>) w)"
  using legsOf_transferred [where c = "wCalls w ! r" and h = h and p = p and s = s]
  by (auto simp: openFor_def ours_def heard_def updCall_def live_def)

lemma open_hungUp: "openFor {s} K H E r w \<Longrightarrow> openFor {} K H E r (addTrace [EvBye r s] w)"
  by (auto simp: openFor_def ours_def heard_def addTrace_def live_def)

lemma wp_referInvite_open:
  assumes "openFor {} noTarget H (callEnv M) r w"
  shows "wp (referInvite M r target offer) (\<lambda>_ w'. \<exists>K. openFor {} K H (callEnv M) r w') w"
proof -
  let ?Q = "\<lambda>(_ :: Outcome) w'. \<exists>K. openFor {} K H (callEnv M) r w'"
  have notify: "wp (sendReferNotify M r frag) ?Q w'" if "openFor {} K H (callEnv M) r w'" for frag K w'
    by (rule wp_mono [OF keepsD [OF keeps_answers(5) that]]) blast
  have hung: "wp (do { _ \<leftarrow> byeTarget M r s; sendReferNotify M r frag }) ?Q w'" if "openFor X K H (callEnv M) r w'" "X \<subseteq> {s}" for X K s frag w'
  proof -
    have "openFor {s} K H (callEnv M) r w'" using that by (auto simp: openFor_def ours_def)
    then show ?thesis
      unfolding byeTarget_def State_Monad.bind_assoc
      by (intro wp_open [OF going.keeps_sync]) (auto simp: emit_def wp_bind wp_modify_st intro!: notify open_hungUp)
  qed
  have taken: "wp (do { _ \<leftarrow> locked (callEnv M) r (\<lambda>c. (reanchorEndpoint h p c)\<lparr>transferTarget := Some s\<rparr>);
       _ \<leftarrow> sendReferNotify M r frag; _ \<leftarrow> sync (callEnv M); _ \<leftarrow> modify_st (detachInbound r); _ \<leftarrow> sync (callEnv M);
       _ \<leftarrow> emit [EvByeInbound r]; State_Monad.return Returns }) ?Q w'" if "openFor {s} noTarget H (callEnv M) r w'" for h p s frag w'
  proof -
    let ?rest = "do { _ \<leftarrow> sendReferNotify M r frag; _ \<leftarrow> sync (callEnv M);
       _ \<leftarrow> modify_st (detachInbound r); _ \<leftarrow> sync (callEnv M); _ \<leftarrow> emit [EvByeInbound r]; State_Monad.return Returns }"
    have k: "keeps (openFor {} anyLegs H (callEnv M) r) ?rest"
      unfolding detachInbound_def
      by (intro keeps_bind keeps_answers going.keeps_sync keeps_modify_st going.own_updCall sameLegs_updates going.keeps_emit keeps_return) simp_all
    have "wp ?rest ?Q (updCall r (\<lambda>c. (reanchorEndpoint h p c)\<lparr>transferTarget := Some s\<rparr>) w'')" if "openFor {s} noTarget H (callEnv M) r w''" for w''
      by (rule wp_mono [OF keepsD [OF k open_transferred [OF that]]]) blast
    then show ?thesis
      unfolding locked_def State_Monad.bind_assoc
      by (intro wp_open [OF going.keeps_sync that]) (simp add: wp_bind [of "modify_st f" for f] wp_modify_st)
  qed
  have answered: "wp (referAnswered M r s res) ?Q w'" if "openFor {} noTarget H (callEnv M) r w'" for s res w'
    unfolding referAnswered_def using hung taken by (auto intro!: wp_ack_new [OF that] split: sum.split)
  show ?thesis
    unfolding referInvite_def
    by (rule wp_getting, rule wp_open [OF going.keeps_sync assms], rule wp_open [OF going.keeps_emit], simp, assumption)
       (auto intro!: notify hung answered wp_open [OF going.keeps_sync] wp_open [OF going.keeps_emit] split: LegResult.split)
qed

section \<open>Requests\<close>

text \<open>A request in the inbound dialog of the call.\<close>

definition inDialogOf :: "nat \<Rightarrow> MidEnv \<Rightarrow> Request \<Rightarrow> World \<Rightarrow> bool" where
  "inDialogOf p M req w = (p < length (wCalls w) \<and> (\<exists>t. matchDialog M t req = Some (inboundID (wCalls w ! p))))"

definition sameCall :: "nat \<Rightarrow> World \<Rightarrow> World \<Rightarrow> bool" where
  "sameCall p w0 w = (length (wCalls w) = length (wCalls w0) \<and> inboundID (wCalls w ! p) = inboundID (wCalls w0 ! p)
     \<and> transferTarget (wCalls w ! p) = transferTarget (wCalls w0 ! p))"

lemma sameCall_interf: "sameCall p w0 w \<Longrightarrow> sameCall p w0 (applyInterf j w)"
  by (cases j) (auto simp: sameCall_def teardown_frame teardown_legs split: prod.split option.split)

text \<open>What is known when the handler has found the dialog.\<close>

lemma wp_looked:
  assumes "ledger H p w" "registered w"
    "\<And>t w'. ledger H p w' \<Longrightarrow> registered w' \<Longrightarrow> sameCall p w w' \<Longrightarrow> wp (f t) Q w'"
  shows "wp (State_Monad.bind (sync E) f) Q w"
proof -
  let ?I = "\<lambda>w'. ledger H p w' \<and> registered w' \<and> sameCall p w w'"
  have "keeps ?I (sync E)"
    by (rule keeps_sync_moves) (simp_all add: ledger_interf keyed.inv_interf sameCall_interf, simp add: sameCall_def)
  then show ?thesis using assms by (intro wp_keeping [of ?I]) (simp_all add: sameCall_def)
qed

lemma found_call: "registered w \<Longrightarrow> getByDialog did w = Some r \<Longrightarrow> live w r \<and> inboundID (wCalls w ! r) = did"
  by (auto simp: registered_def getByDialog_def dest: map_of_SomeD)

lemma wp_ledger: "keeps (ledger H p) m \<Longrightarrow> ledger H p w \<Longrightarrow> wp m (\<lambda>_. ledger H p) w"
  by (rule keepsD)

lemma wp_handleRefer_ledger:
  assumes "ledger H p w" "registered w"
    "inDialogOf p M req w \<Longrightarrow> lets_be p (callEnv M) \<and> transferTarget (wCalls w ! p) = None"
  shows "wp (handleRefer M tx req) (\<lambda>_. ledger H p) w"
proof -
  have found: "wp (do { _ \<leftarrow> sync (callEnv M); c \<leftarrow> getCall r;
       (if callState c \<noteq> stateEstablished then txRespond M tx 403 ''Forbidden'' [] []
        else (case Option.bind (media c) endpointSide of
           None \<Rightarrow> txRespond M tx 488 ''Not Acceptable Here'' [] []
         | Some ep \<Rightarrow> (case pbxLeg c of
              None \<Rightarrow> State_Monad.return NilDereference
            | Some leg \<Rightarrow> do {
                _ \<leftarrow> txRespond M tx 202 ''Accepted'' [] [];
                (case GetHeader (lib (callEnv M)) (reqHeaders req) ''Refer-To'' of
                   None \<Rightarrow> sendReferNotify M r ''SIP/2.0 400 Bad Request''
                 | Some h \<Rightarrow> (case ParseAddressValue M (hdrValue h) of
                        None \<Rightarrow> sendReferNotify M r ''SIP/2.0 400 Bad Request''
                      | Some target \<Rightarrow> (case rewriteToAnchor (legAnswer leg) (mediaHost (callEnv M)) (localRTPPort ep) of
                             Inl _ \<Rightarrow> sendReferNotify M r ''SIP/2.0 500 Server Error''
                           | Inr offer \<Rightarrow> referInvite M r target offer))) }))) }) (\<lambda>_. ledger H p) w'"
    if w': "ledger H p w'" "registered w'" "sameCall p w w'" and did: "matchDialog M t req = Some did" "getByDialog did w' = Some r"
    for t did r w'
  proof (cases "p = r")
    case False
    then show ?thesis
      by (intro wp_ledger [OF _ w'(1)] keeps_bind keeps_cases keeps_if keeps_getCall booked.keeps_sync keeps_answers keeps_return
          keeps_foreign)
  next
    case True
    have f: "live w' p" "inboundID (wCalls w' ! p) = did" using found_call [OF w'(2) did(2)] by (simp_all add: True)
    then have "inDialogOf p M req w" using w'(3) did(1) by (auto simp: inDialogOf_def sameCall_def live_def)
    then have lb: "lets_be p (callEnv M)" "transferTarget (wCalls w' ! p) = None" using assms(3) w'(3) by (simp_all add: sameCall_def)
    have o: "openFor {} noTarget H (callEnv M) p w'" using w'(1) f(1) lb by (simp add: openFor_def ledger_def ours_def live_def)
    have over: "ledger H p w'" if "openFor {} K H (callEnv M) p w'" for K w'
      using that lb(1) ours_ledger [of K H p w'] by (simp add: openFor_iff)
    have ends: "wp (txRespond M tx st reason body hdrs) (\<lambda>_. ledger H p) w'" "wp (sendReferNotify M p frag) (\<lambda>_. ledger H p) w'"
      "wp (referInvite M p target offer) (\<lambda>_. ledger H p) w'"
      if "openFor {} noTarget H (callEnv M) p w'" for st reason body hdrs frag target offer w'
      using keepsD [OF keeps_answers(4) that] keepsD [OF keeps_answers(5) that] wp_referInvite_open [OF that] over
      by (blast intro: wp_mono)+
    show ?thesis
      unfolding True [symmetric]
      by (rule wp_open [OF going.keeps_sync o], rule wp_getting)
         (auto intro!: ends wp_open [OF keeps_answers(4)] simp: wp_return over split: option.split sum.split)
  qed
  show ?thesis
    unfolding handleRefer_def
    by (rule wp_looked [OF assms(1,2)])
       (auto simp: wp_bind [of "gets_st f" for f] wp_gets_st intro!: wp_ledger [OF keeps_answers(1)] found split: option.split)
qed

text \<open>A new call starts with no leg.\<close>

lemma ledger_addCall: "p \<noteq> length (wCalls w) \<Longrightarrow> ledger H p w \<Longrightarrow> ledger H p (addCall c w)"
  by (auto simp: ledger_def ours_def heard_def addCall_def addDialog_def regAdd_def Let_def nth_append split: if_splits)

lemma open_newCall:
  "ledger H p w \<Longrightarrow> p = length (wCalls w) \<Longrightarrow> openFor {} noPBX H E p (addCall (newCall M t did req) w)"
  by (simp add: openFor_def ledger_def ours_def heard_def live_def addCall_def addDialog_def regAdd_def Let_def newCall_def)

lemma wp_newCall_ledger:
  fixes M :: MidEnv
  assumes "ledger H p w" "p = length (wCalls w) \<Longrightarrow> lets_be p (callEnv M)"
  shows "wp (do {
     r \<leftarrow> gets_st (\<lambda>w. length (wCalls w));
     _ \<leftarrow> emit [EvRespond r 100 reason [] [] True];
     _ \<leftarrow> modify_st (addCall (newCall M t did req));
     _ \<leftarrow> bridge (callEnv M) r;
     State_Monad.return Returns }) (\<lambda>_. ledger H p) w"
proof -
  let ?r = "length (wCalls w)"
  let ?w1 = "addTrace [EvRespond ?r 100 reason [] [] True] w"
  have l: "ledger H p ?w1" by (intro ledger_addTrace assms(1)) simp
  have "wp (bridge (callEnv M) ?r) (\<lambda>_. ledger H p) (addCall (newCall M t did req) ?w1)"
  proof (cases "p = ?r")
    case True
    have "p = length (wCalls ?w1)" using True by (simp add: addTrace_def)
    from wp_bridge_open [OF open_newCall [OF l this] assms(2) [OF True]] show ?thesis
      unfolding True by (rule wp_mono) (rule ours_ledger)
  next
    case False
    have "p \<noteq> length (wCalls ?w1)" using False by (simp add: addTrace_def)
    then show ?thesis by (rule wp_ledger [OF keeps_foreign(4) [OF False] ledger_addCall [OF _ l]])
  qed
  then show ?thesis
    by (simp add: emit_def wp_gets_st wp_modify_st wp_return wp_bind [of "gets_st f" for f] wp_bind [of "modify_st f" for f]
        wp_bind [of "bridge E r" for E r])
qed

lemma wp_handleInvite_ledger:
  assumes "ledger H p w" "registered w" "p = length (wCalls w) \<Longrightarrow> lets_be p (callEnv M)"
  shows "wp (handleInvite M tx req) (\<lambda>_. ledger H p) w"
proof -
  have again: "wp (handleReInvite M r tx req) (\<lambda>_. ledger H p) w'"
    if "ledger H p w'" "registered w'" "getByDialog did w' = Some r" for w' did r
  proof (cases "p = r")
    case False
    show ?thesis by (rule wp_ledger [OF keeps_foreign(1) [OF False] that(1)])
  next
    case True
    have "ours {} anyLegs H p w'" using found_call [OF that(2,3)] that(1) by (simp add: True live_def ledger_def)
    from keepsD [OF keeps_reInvite this] show ?thesis unfolding True by (rule wp_mono) (rule ours_ledger)
  qed
  have new: "wp (do {
     r \<leftarrow> gets_st (\<lambda>w. length (wCalls w));
     _ \<leftarrow> emit [EvRespond r 100 reason [] [] True];
     _ \<leftarrow> modify_st (addCall (newCall M t did req));
     _ \<leftarrow> bridge (callEnv M) r;
     State_Monad.return Returns }) (\<lambda>_. ledger H p) w'" if "ledger H p w'" "sameCall p w w'" for reason t did w'
    using assms(3) that(2) by (intro wp_newCall_ledger [OF that(1)]) (simp add: sameCall_def)
  show ?thesis
    unfolding handleInvite_def
    by (rule wp_looked [OF assms(1,2)])
       (auto simp: wp_bind [of "gets_st (getByDialog did)" for did] wp_gets_st
          intro!: wp_ledger [OF keeps_answers(1)] wp_ledger [OF keeps_answers(2)] again new split: option.split)
qed

lemma keeps_handleInfo_ledger: "keeps (ledger H p) (handleInfo M tx req)"
  unfolding handleInfo_def Let_def
  by (intro keeps_bind keeps_cases keeps_if keeps_getCall keeps_gets_st booked.keeps_sync booked.keeps_emit keeps_answers) auto

section \<open>Runs\<close>

text \<open>Nobody else tears the call down while its set-up is under way or while it is transferred, and it is transferred
  once.\<close>

fun undisturbed :: "nat \<Rightarrow> Move \<Rightarrow> World \<Rightarrow> bool" where
  "undisturbed p (Invited M tx req) w = (p = length (wCalls w) \<longrightarrow> lets_be p (callEnv M))"
| "undisturbed p (Referred M tx req) w =
     (inDialogOf p M req w \<longrightarrow> lets_be p (callEnv M) \<and> transferTarget (wCalls w ! p) = None)"
| "undisturbed p _ w = True"

fun orderly :: "nat \<Rightarrow> Move list \<Rightarrow> World \<Rightarrow> bool" where
  "orderly p [] w = True"
| "orderly p (m # ms) w = (lawful m \<and> undisturbed p m w \<and> orderly p ms (perform m w))"

lemma ledger_fold: "ledger H p w \<Longrightarrow> (\<And>x w. ledger H p w \<Longrightarrow> ledger H p (f x w)) \<Longrightarrow> ledger H p (fold f xs w)"
  by (induction xs arbitrary: w) auto

lemma ledger_perform:
  assumes "ledger H p (w\<lparr>wTrace := []\<rparr>)" "registered w" "lawful m" "undisturbed p m w"
  shows "ledger H p (perform m w)"
proof (cases m)
  case (Invited M tx req)
  with wp_handleInvite_ledger [OF assms(1), of M tx req] assms(2,4) show ?thesis by (simp add: after_def wp_run)
next
  case (Referred M tx req)
  with wp_handleRefer_ledger [OF assms(1), of M req tx] assms(2,4) show ?thesis by (simp add: after_def wp_run inDialogOf_def)
next
  case (Informed M tx req)
  with wp_ledger [OF keeps_handleInfo_ledger assms(1)] show ?thesis by (simp add: after_def wp_run)
next
  case (Relayed r now)
  with assms(1) show ?thesis by (simp add: after_def packetRelayed_def ledger_updCall sameLegs_updates)
next
  case (Swept it now timeout)
  with assms(1) show ?thesis by (auto simp: after_def sweep_def each_def intro!: ledger_fold ledger_teardown)
next
  case (ShutDown it)
  with assms(1) show ?thesis by (auto simp: after_def Shutdown_def each_def intro!: ledger_fold ledger_teardown)
next
  case (Elsewhere es)
  have "\<forall>e \<in> set es. \<forall>s. e \<noteq> EvAck p s" using assms(3) by (auto simp: Elsewhere list_all_iff)
  with ledger_addTrace [OF assms(1)] show ?thesis by (simp add: after_def emit_def Elsewhere)
qed (use assms(1) in \<open>auto simp: after_def inboundDialogEnded_def ledger_teardown\<close>)

lemma ledger_turn: "ledger H p w = ledger (H @ wTrace w) p (w\<lparr>wTrace := []\<rparr>)"
  by (simp add: ledger_def ours_def heard_def)

lemma ledger_play:
  assumes "ledger H p (w\<lparr>wTrace := []\<rparr>)" "reachable mn mx w" "orderly p ms w"
  shows "ledger (H @ history ms w) p ((play ms w)\<lparr>wTrace := []\<rparr>) \<and> reachable mn mx (play ms w)"
  using assms
proof (induction ms arbitrary: H w)
  case (Cons m ms)
  let ?w = "perform m w"
  have "registered w" using reachable_sound [OF Cons.prems(2)] by (simp add: sound_def)
  then have "ledger H p ?w" using Cons.prems(1,3) by (intro ledger_perform) simp_all
  then have "ledger (H @ wTrace ?w) p (?w\<lparr>wTrace := []\<rparr>)" by (simp add: ledger_turn [symmetric])
  moreover have "reachable mn mx ?w"
    using Cons.prems(3) by (intro reachable.next_step [OF Cons.prems(2)]) (auto simp: step_moves)
  ultimately show ?case using Cons.IH [of "H @ wTrace ?w" ?w] Cons.prems(3) by simp
qed simp

section \<open>Properties\<close>


text \<open>The sample call is set up and its PBX hangs up.\<close>

abbreviation sampleMoves :: "Move list" where
  "sampleMoves \<equiv> [Invited (sampleMid (\<lambda>_. None) calmEnv) 7 sampleInvite, LegEnded 0]"

lemma sample_acked: "EvAck 0 5 \<in> set (wTrace sampleReached)"
proof -
  have "case run_state (bridge calmEnv 0) sampleStart of (ok, w') \<Rightarrow> EvAck 0 5 \<in> set (wTrace w')"
    by (simp add: sampleStart_def sample_run)
  then show ?thesis by (simp add: sample_reached_eq split: prod.splits)
qed


text \<open>It does matter that nobody else ends the call: when the caller gives up just after an application has
  answered, there is a run in which that application is acknowledged, recorded in a call that is over already, and
  never sent a BYE.\<close>

theorem late_answer_leaves_leg_up:
  "\<exists>E w. startable 0 w \<and> sipBehaves E \<and> (case run_state (bridge E 0) w of (ok, w') \<Rightarrow>
     callState (wCalls w' ! 0) = stateTearingDown \<and> EvAck 0 4 \<in> set (wTrace w') \<and> EvBye 0 4 \<notin> set (wTrace w')
     \<and> teardown 0 w' = w')"
proof -
  let ?E = "sampleEnv (\<lambda>t. if t = 8 then [ITeardown 0] else []) (Answered sampleAnswer)"
  have "case run_state (bridge ?E 0) sampleWorld of (ok, w') \<Rightarrow>
      callState (wCalls w' ! 0) = stateTearingDown \<and> EvAck 0 4 \<in> set (wTrace w') \<and> EvBye 0 4 \<notin> set (wTrace w')"
    by (simp add: sample_run teardown_def regRemove_def mapDelete_def byes_def releaseUnregistered_def releasePairs_def)
  then show ?thesis
    using sample_startable sample_behaves teardown_dead by (intro exI [of _ ?E] exI [of _ sampleWorld]) (auto split: prod.splits)
qed

end
