(* ===== verification/Command.thy ===== *)
theory Command
  imports Running
begin

text \<open>
  The command, cmd/sip-sequencer/main.go and Load of internal/config/config.go, from its flag to its exit status:
  the configuration file, the log level, the certificates, the engine, its service and its shutdown.
\<close>

section \<open>Loading\<close>

text \<open>What the process finds: its flag, the files, how YAML and regular expressions are read, whether the
  observability address can be bound, and how Run and Shutdown end.\<close>

record Process =
  flagConfig :: string
  readFile :: "string \<Rightarrow> string option"
  decodeYAML :: "string \<Rightarrow> rawConfig option"
  compileRegexp :: "string \<Rightarrow> Regexp option"
  obsBinds :: bool
  runOk :: bool
  shutdownOk :: bool

datatype load_error = ReadConfig string | DecodeConfig string | RejectedConfig cfg_error

definition LoadFile :: "Process \<Rightarrow> string \<Rightarrow> load_error + Config" where
  "LoadFile P path = (case readFile P path of
       None \<Rightarrow> Inl (ReadConfig path)
     | Some data \<Rightarrow> (case decodeYAML P data of
           None \<Rightarrow> Inl (DecodeConfig path)
         | Some raw \<Rightarrow> map_sum RejectedConfig id (Parse (compileRegexp P) raw)))"

text \<open>UnmarshalText of a level of log/slog: a name in any case, and an offset after a sign.\<close>

definition levelReads :: "string \<Rightarrow> bool" where
  "levelReads s =
     (let name = takeWhile (\<lambda>c. c \<noteq> CHR ''+'' \<and> c \<noteq> CHR ''-'') s;
          offset = drop (length name) s
      in (offset = [] \<or> atoi offset \<noteq> None) \<and> toUpper name \<in> {''DEBUG'', ''INFO'', ''WARN'', ''ERROR''})"

section \<open>The command\<close>

datatype Report = ReportNoConfig | ReportLoad load_error | ReportLevel | ReportTLS tls_error | ReportStart eng_error
  | ReportEngine | ReportShutdown

text \<open>The exit status, the error lines, and what is left of the engine; a panic of Run is status 2 and leaves
  nothing. \<open>reqs\<close> are the requests served while Run waits.\<close>

definition main_sequencer ::
  "Process \<Rightarrow> Startup \<Rightarrow> CryptoLib \<Rightarrow> served list \<Rightarrow> iteration \<Rightarrow> nat \<times> Report list \<times> Running option" where
  "main_sequencer P S L reqs it =
     (if flagConfig P = [] then (2, [ReportNoConfig], None)
      else (case LoadFile P (flagConfig P) of
          Inl err \<Rightarrow> (1, [ReportLoad err], None)
        | Inr c \<Rightarrow>
            if \<not> levelReads (cfgLogLevel c) then (1, [ReportLevel], None)
            else (case run_state (LoadAll L c) NewStdProvider of
                (Inl err, _) \<Rightarrow> (1, [ReportTLS err], None)
              | (Inr _, p) \<Rightarrow>
                  (case run_state (NewWith S L (mainOptions c) c) p of
                     (Inl err, _) \<Rightarrow> (1, [ReportStart err], None)
                   | (Inr e, _) \<Rightarrow>
                       (case Run e c (obsBinds P) (built e (depMetrics (engineDeps (mainOptions c)))) of
                          None \<Rightarrow> (2, [], None)
                        | Some s \<Rightarrow>
                            (0, (if runOk P then [] else [ReportEngine]) @ (if shutdownOk P then [] else [ReportShutdown]),
                             Some (EngineShutdown it (ctxDone (s\<lparr>ruWorld := serveAll reqs (ruWorld s)\<rparr>)))))))))"

section \<open>Properties\<close>

lemma levels_read: "l \<in> set logLevels \<Longrightarrow> levelReads l"
proof -
  have "list_all levelReads logLevels" by code_simp
  then show "l \<in> set logLevels \<Longrightarrow> ?thesis" by (simp add: list_all_iff)
qed

lemma LoadFile_fit:
  assumes "LoadFile P path = Inr c" "\<And>data raw. decodeYAML P data = Some raw \<Longrightarrow> decoded raw"
  shows "cfgValid c \<and> cfgResolved c"
proof -
  obtain data raw where d: "decodeYAML P data = Some raw" "map_sum RejectedConfig id (Parse (compileRegexp P) raw) = Inr c"
    using assms(1) by (auto simp: LoadFile_def split: option.splits)
  then have "Parse (compileRegexp P) raw = Inr c" by (cases "Parse (compileRegexp P) raw") simp_all
  then show ?thesis by (rule Parse_fit) (rule assms(2) [OF d(1)])
qed

lemma main_provider: "depProvider (engineDeps (mainOptions c))"
  by (simp add: mainOptions_def engineDeps_def applyOption_def)

text \<open>With the command's options Run never binds its gauges twice.\<close>

lemma main_runs:
  assumes "run_state (New S L hasProvider c) p = (Inr e, p')"
  shows "\<exists>s. Run e c b (built e (depMetrics (engineDeps (mainOptions c)))) = Some s \<and> ruCancel s = Some False
     \<and> ruWorld s = ruWorld (built e NoopSink)"
  using New_fields(1) [OF assms]
  by (auto simp: Run_def built_def Let_def mainOptions_def engineDeps_def applyOption_def startObservability_def
       BindCallSource_def NewPromMetrics_def)

text \<open>The command's exit status tells whether the engine was started, not whether it ran: a missing flag gives 2, a
  configuration, certificate or engine that fails gives 1, and once the engine is built the status is 0 even
  when Run fails, as when a listener cannot bind.\<close>

lemma exit_status_of_start:
  assumes "main_sequencer P S L reqs it = (status, reports, final)"
  shows "status = 0 \<longleftrightarrow> (\<exists>c p e p'. flagConfig P \<noteq> [] \<and> LoadFile P (flagConfig P) = Inr c \<and> levelReads (cfgLogLevel c)
     \<and> run_state (LoadAll L c) NewStdProvider = (Inr (), p) \<and> run_state (New S L True c) p = (Inr e, p'))"
proof -
  have "Run e c (obsBinds P) (built e (depMetrics (engineDeps (mainOptions c)))) = None \<Longrightarrow>
      run_state (New S L True c) p = (Inr e, p') \<Longrightarrow> False" for e c p p' by (drule main_runs [of _ _ _ _ _ _ _ "obsBinds P"]) simp
  then show ?thesis
    using assms by (auto simp: main_sequencer_def NewWith_def main_provider split: option.splits prod.splits sum.splits if_splits)
qed


text \<open>The sample file, one call and its end.\<close>

definition sampleProcess :: Process where
  "sampleProcess = \<lparr>flagConfig = ''s.yml'', readFile = (\<lambda>path. if path = ''s.yml'' then Some ''sip: ...'' else None),
     decodeYAML = (\<lambda>_. Some sampleRaw), compileRegexp = (\<lambda>_. None), obsBinds = True, runOk = True, shutdownOk = True\<rparr>"

lemma sample_file: "LoadFile sampleProcess ''s.yml'' = Inr (okConfig (Parse (\<lambda>_. None) sampleRaw))"
  by (simp add: LoadFile_def sampleProcess_def) (subst sample_parses, simp)

lemma sample_ready: "levelReads (cfgLogLevel (okConfig (Parse (\<lambda>_. None) sampleRaw)))"
  "isl (fst (run_state (LoadAll sampleCrypto (okConfig (Parse (\<lambda>_. None) sampleRaw))) NewStdProvider)) = False"
  "isl (fst (run_state (New sampleStartup sampleCrypto True (okConfig (Parse (\<lambda>_. None) sampleRaw)))
     (snd (run_state (LoadAll sampleCrypto (okConfig (Parse (\<lambda>_. None) sampleRaw))) NewStdProvider)))) = False"
  by code_simp+

lemma sample_started:
  "\<exists>p e p'. run_state (LoadAll sampleCrypto (okConfig (Parse (\<lambda>_. None) sampleRaw))) NewStdProvider = (Inr (), p)
     \<and> run_state (New sampleStartup sampleCrypto True (okConfig (Parse (\<lambda>_. None) sampleRaw))) p = (Inr e, p')"
proof -
  obtain a p where l: "run_state (LoadAll sampleCrypto (okConfig (Parse (\<lambda>_. None) sampleRaw))) NewStdProvider = (a, p)" by force
  obtain b p' where n: "run_state (New sampleStartup sampleCrypto True (okConfig (Parse (\<lambda>_. None) sampleRaw))) p = (b, p')" by force
  from sample_ready(2,3) l n show ?thesis by (cases a; cases b) simp_all
qed


end
