(* ===== verification/Recorder.thy ===== *)
theory Recorder
  imports Tls SdpProps
begin

text \<open>
  The recording application, applications/recording: the answer to a tap offer, the registry of
  recorded calls, the handling of an INVITE and a BYE, and the rtpdump format. Sockets are numbered;
  what the system and the SIP library do for one INVITE is the record \<open>RecEnv\<close>.
\<close>

section \<open>SDP\<close>

record audioStream =
  asFormats :: string
  asRtpmaps :: "string list"
  asFmtps :: "string list"

datatype rec_error = RecMalformedAudio string | RecNoAudio | RecTooFewPorts nat nat

text \<open>\<open>cur\<close> says whether the code's pointer is at the last stream or nil.\<close>

fun parseOffer_loop :: "string list \<Rightarrow> audioStream list \<Rightarrow> bool \<Rightarrow> rec_error + audioStream list" where
  "parseOffer_loop [] streams cur = Inr streams"
| "parseOffer_loop (line # ls) streams cur =
     (if hasPrefix line ''m='' then
        (if hasPrefix line sdpAudioMedia then
           (let fs = goFields line in
            if length fs < 4 then Inl (RecMalformedAudio line)
            else parseOffer_loop ls (streams @ [\<lparr>asFormats = join '' '' (drop 3 fs), asRtpmaps = [], asFmtps = []\<rparr>]) True)
         else parseOffer_loop ls streams False)
      else if \<not> cur then parseOffer_loop ls streams cur
      else if hasPrefix line ''a=rtpmap:'' then
        parseOffer_loop ls (butlast streams @ [(last streams)\<lparr>asRtpmaps := asRtpmaps (last streams) @ [line]\<rparr>]) cur
      else if hasPrefix line ''a=fmtp:'' then
        parseOffer_loop ls (butlast streams @ [(last streams)\<lparr>asFmtps := asFmtps (last streams) @ [line]\<rparr>]) cur
      else parseOffer_loop ls streams cur)"

definition parseOffer :: "string \<Rightarrow> rec_error + audioStream list" where
  "parseOffer sdp = (case parseOffer_loop (sdp_lines sdp) [] False of
       Inl e \<Rightarrow> Inl e
     | Inr streams \<Rightarrow> if streams = [] then Inl RecNoAudio else Inr streams)"

definition streamLines :: "string \<Rightarrow> int \<Rightarrow> audioStream \<Rightarrow> string list" where
  "streamLines host port s = [''m=audio '' @ itoa port @ '' RTP/AVP '' @ asFormats s, ''c=IN IP4 '' @ host]
     @ asRtpmaps s @ asFmtps s @ [''a=recvonly'']"

definition buildAnswer :: "string \<Rightarrow> string \<Rightarrow> int list \<Rightarrow> rec_error + string" where
  "buildAnswer offer host ports = (case parseOffer offer of
       Inl e \<Rightarrow> Inl e
     | Inr streams \<Rightarrow>
         if length ports < length streams then Inl (RecTooFewPorts (length streams) (length ports))
         else Inr (crlf_lines ([''v=0'', ''o=- 0 0 IN IP4 '' @ host, ''s=-'', ''t=0 0'']
                @ concat (map2 (streamLines host) ports streams))))"

section \<open>The rtpdump format\<close>

type_synonym bytes = "8 word list"

definition put16 :: "16 word \<Rightarrow> bytes" where
  "put16 v = [ucast (drop_bit 8 v), ucast v]"

definition put32 :: "32 word \<Rightarrow> bytes" where
  "put32 v = [ucast (drop_bit 24 v), ucast (drop_bit 16 v), ucast (drop_bit 8 v), ucast v]"

definition bytesOf :: "string \<Rightarrow> bytes" where
  "bytesOf s = map (\<lambda>c. of_char c) s"

definition rtpdumpFileHeader :: "string \<Rightarrow> 16 word \<Rightarrow> 32 word \<Rightarrow> 32 word \<Rightarrow> bytes" where
  "rtpdumpFileHeader src port startSec startUsec =
     bytesOf (''#!rtpplay1.0 '' @ src @ ''/'' @ itoa (uint port)) @ [0x0A]
     @ put32 startSec @ put32 startUsec
     @ (case Option.bind (ParseIP src) To4 of None \<Rightarrow> [0, 0, 0, 0] | Some ip \<Rightarrow> ip)
     @ put16 port @ put16 0"

definition rtpdumpRecord :: "bytes \<Rightarrow> 32 word \<Rightarrow> bytes" where
  "rtpdumpRecord pkt offsetMs =
     (let plen = word_of_nat (length pkt) :: 16 word in put16 (plen + 8) @ put16 plen @ put32 offsetMs @ pkt)"

section \<open>Names\<close>

definition streamName :: "nat \<Rightarrow> string" where
  "streamName i = (if i = 0 then ''caller'' else if i = 1 then ''callee'' else ''stream'' @ itoa (int i))"

definition sanitizeName :: "string \<Rightarrow> string" where
  "sanitizeName s = map (\<lambda>c. if c = CHR ''/'' \<or> c = CHR 0x5C \<or> c = CHR 0x00 then CHR ''_'' else c) s"

text \<open>filepath.Join of two elements: empty ones are left out.\<close>

definition JoinPath :: "string \<Rightarrow> string \<Rightarrow> string" where
  "JoinPath a b = (if a = [] then (if b = [] then [] else Clean b)
     else if b = [] then Clean a else Clean (a @ ''/'' @ b))"

section \<open>Calls being recorded\<close>

text \<open>The sockets that are open, the registry, the files and what was answered.\<close>

record RecWorld =
  rwOpen :: "nat list"
  rwNext :: nat
  rwSessions :: "(string \<times> nat list) list"
  rwFiles :: "(string \<times> bytes) list"
  rwAnswers :: "(int \<times> string) list"

definition closeConns :: "nat list \<Rightarrow> RecWorld \<Rightarrow> RecWorld" where
  "closeConns cs w = w\<lparr>rwOpen := filter (\<lambda>s. s \<notin> set cs) (rwOpen w)\<rparr>"

definition recAdd :: "string \<Rightarrow> nat list \<Rightarrow> RecWorld \<Rightarrow> RecWorld" where
  "recAdd cid conns w = w\<lparr>rwSessions := (cid, conns) # filter (\<lambda>(k, _). k \<noteq> cid) (rwSessions w)\<rparr>"

definition recTerminate :: "string \<Rightarrow> RecWorld \<Rightarrow> RecWorld" where
  "recTerminate cid w =
     (let s = map_of (rwSessions w) cid;
          w1 = w\<lparr>rwSessions := filter (\<lambda>(k, _). k \<noteq> cid) (rwSessions w)\<rparr>
      in case s of None \<Rightarrow> w1 | Some conns \<Rightarrow> closeConns conns w1)"

text \<open>The ids of the snapshot in some order.\<close>

definition recCloseAll :: "string list \<Rightarrow> RecWorld \<Rightarrow> RecWorld" where
  "recCloseAll ids w = fold recTerminate ids w"

record RecConfig =
  rcListen :: string
  rcDir :: string
  rcMediaHost :: string

record RecRequest =
  rqCallID :: string
  rqSequencerID :: "string option"
  rqBody :: string

text \<open>What the system and the library answer while one INVITE is handled: the port of each socket
  that binds, the dialog, the 200, the folder, the files, the clock, and the BYEs that another
  goroutine handles between the 200 and the registration.\<close>

record RecEnv =
  bindPort :: "nat \<Rightarrow> int option"
  readInviteOk :: bool
  respondOkRec :: bool
  mkdirOk :: bool
  createOk :: "nat \<Rightarrow> bool"
  writeOk :: "nat \<Rightarrow> bool"
  startSecs :: "32 word"
  startUsecs :: "32 word"
  byesMeanwhile :: "string list"

definition recRespond :: "int \<Rightarrow> string \<Rightarrow> RecWorld \<Rightarrow> RecWorld" where
  "recRespond status body w = w\<lparr>rwAnswers := rwAnswers w @ [(status, body)]\<rparr>"

text \<open>One socket per stream; the first failure closes those opened before.\<close>

fun bindAll :: "RecEnv \<Rightarrow> nat \<Rightarrow> nat \<Rightarrow> nat list \<Rightarrow> int list \<Rightarrow> RecWorld \<Rightarrow> (nat list \<times> int list) option \<times> RecWorld" where
  "bindAll R i 0 conns ports w = (Some (conns, ports), w)"
| "bindAll R i (Suc n) conns ports w = (case bindPort R i of
       None \<Rightarrow> (None, recRespond 500 [] (closeConns conns w))
     | Some p \<Rightarrow> bindAll R (Suc i) n (conns @ [rwNext w]) (ports @ [p])
         (w\<lparr>rwOpen := rwNext w # rwOpen w, rwNext := Suc (rwNext w)\<rparr>))"

definition folderID :: "RecRequest \<Rightarrow> string" where
  "folderID q = (case rqSequencerID q of
       None \<Rightarrow> rqCallID q
     | Some v \<Rightarrow> if trimSpace v \<noteq> [] then trimSpace v else rqCallID q)"

definition recordDir :: "RecConfig \<Rightarrow> RecRequest \<Rightarrow> string" where
  "recordDir C q = JoinPath (rcDir C) (sanitizeName (folderID q))"

text \<open>The files of the streams; one that cannot be created or headed is left out. The recording
  goroutines start on the others.\<close>

definition openFiles :: "RecEnv \<Rightarrow> RecConfig \<Rightarrow> string \<Rightarrow> int list \<Rightarrow> RecWorld \<Rightarrow> RecWorld" where
  "openFiles R C dir ports w = fold (\<lambda>i w. if createOk R i
       then w\<lparr>rwFiles := (JoinPath dir (streamName i @ ''.rtpdump''),
                (if writeOk R i then rtpdumpFileHeader (rcMediaHost C) (word_of_int (ports ! i)) (startSecs R) (startUsecs R) else []))
              # rwFiles w\<rparr>
       else w) [0..<length ports] w"

definition recInvite :: "RecEnv \<Rightarrow> RecConfig \<Rightarrow> RecRequest \<Rightarrow> RecWorld \<Rightarrow> RecWorld" where
  "recInvite R C q w =
     (case parseOffer (rqBody q) of
        Inl _ \<Rightarrow> recRespond 488 [] w
      | Inr streams \<Rightarrow>
          (case bindAll R 0 (length streams) [] [] w of
             (None, w1) \<Rightarrow> w1
           | (Some (conns, ports), w1) \<Rightarrow>
               (case buildAnswer (rqBody q) (rcMediaHost C) ports of
                  Inl _ \<Rightarrow> recRespond 500 [] (closeConns conns w1)
                | Inr answer \<Rightarrow>
                    if \<not> readInviteOk R then closeConns conns w1
                    else if \<not> respondOkRec R then closeConns conns w1
                    else
                      (let w2 = fold recTerminate (byesMeanwhile R) (recRespond 200 answer w1) in
                       if \<not> mkdirOk R then closeConns conns w2
                       else openFiles R C (recordDir C q) ports (recAdd (rqCallID q) conns w2)))))"

definition recBye :: "string \<Rightarrow> RecWorld \<Rightarrow> RecWorld" where
  "recBye cid w = recTerminate cid w"

text \<open>The recording goroutine: each packet read becomes a record, until a read or a write fails.
  A packet is cut at the buffer's 1500 bytes.\<close>

fun recordLoop :: "(bytes \<times> 32 word \<times> bool) list \<Rightarrow> bytes \<Rightarrow> bytes" where
  "recordLoop [] file = file"
| "recordLoop ((pkt, offsetMs, written) # reads) file =
     (if written then recordLoop reads (file @ rtpdumpRecord (take 1500 pkt) offsetMs) else file)"

end
