(* ===== verification/RecorderProps.thy ===== *)
theory RecorderProps
  imports Recorder
begin

text \<open>
  Properties of the recording application: its answer sends each side of the call to the socket
  that was bound for it, its files read back as what was received, and its sockets are closed.
\<close>

section \<open>The answer to a tap offer\<close>

lemma po_rtpmaps:
  "codec_attrs rs ''a=rtpmap:'' \<Longrightarrow> parseOffer_loop (rs @ ls) (ss @ [s]) True
     = parseOffer_loop ls (ss @ [s\<lparr>asRtpmaps := asRtpmaps s @ rs\<rparr>]) True"
  by (induction rs arbitrary: s) (auto simp: codec_attrs_def prefix_facts)

lemma po_fmtps:
  "codec_attrs ms ''a=fmtp:'' \<Longrightarrow> parseOffer_loop (ms @ ls) (ss @ [s]) True
     = parseOffer_loop ls (ss @ [s\<lparr>asFmtps := asFmtps s @ ms\<rparr>]) True"
  by (induction ms arbitrary: s) (auto simp: codec_attrs_def prefix_facts)

lemma po_block:
  assumes "word_ok p" "codec_words f" "codec_attrs r ''a=rtpmap:''" "codec_attrs m ''a=fmtp:''"
  shows "parseOffer_loop (audio_block host p f r m ''a=recvonly'' @ ls) ss cur
     = parseOffer_loop ls (ss @ [\<lparr>asFormats = f, asRtpmaps = r, asFmtps = m\<rparr>]) True"
  using codec_words_fields [OF assms(2)] assms(1)
  by (simp add: audio_block_def audioLine_prefix audio_fields connLine_prefix po_rtpmaps [OF assms(3)]
      po_fmtps [OF assms(4)] built_dir Suc_le_eq)

lemma po_head: "parseOffer_loop (session_head host @ ls) ss False = parseOffer_loop ls ss False"
  by (simp add: session_head_def hasPrefix_def)

lemma parseOffer_tap:
  assumes "line_ok host" "codec_words f" "codec_attrs r ''a=rtpmap:''" "codec_attrs m ''a=fmtp:''"
  shows "parseOffer (crlf_lines (session_head host @ audio_block host (itoa p1) f r m ''a=recvonly''
            @ audio_block host (itoa p2) f r m ''a=recvonly''))
       = Inr (replicate 2 \<lparr>asFormats = f, asRtpmaps = r, asFmtps = m\<rparr>)"
  by (simp add: parseOffer_def two_blocks_lines [OF assms] po_head po_block [OF itoa_word_ok assms(2-4)]
      numeral_2_eq_2)
     (simp add: hasPrefix_def)

text \<open>The answer is the tap offer of the same call with the recorder's own host and ports.\<close>

lemma buildAnswer_tap:
  assumes "line_ok h" "buildTapOffer offer h p1 p2 = Inr tap" "buildTapOffer offer host q1 q2 = Inr a"
  shows "buildAnswer tap host [q1, q2] = Inr a"
proof -
  obtain f r m where e: "extractAudioCodecs offer = Inr (f, r, m)"
    and out: "tap = crlf_lines (session_head h @ audio_block h (itoa p1) f r m ''a=recvonly''
                                @ audio_block h (itoa p2) f r m ''a=recvonly'')"
    using tap.built [OF assms(2)] .
  note shape = extractAudioCodecs_shape [OF e]
  show ?thesis unfolding buildAnswer_def out parseOffer_tap [OF assms(1) shape(3,1,2)]
    using assms(3) by (simp add: tap.builds e numeral_2_eq_2 streamLines_def session_head_def audio_block_def audioLine_def
        sdpAudioMedia_def sdpConnIP4_def)
qed

text \<open>C37: A tap offer of the sequencer is accepted by the recorder, whatever its host and the two
  ports it binds; read by the sequencer, the answer names those two endpoints in the order of the
  sides of the call, and it carries the codecs of the call's own offer unchanged.\<close>

theorem recorder_answer_feeds_taps:
  assumes "line_ok h" "buildTapOffer offer h p1 p2 = Inr tap" "line_ok host" "int64_ok q1" "int64_ok q2"
  shows "\<exists>answer. buildAnswer tap host [q1, q2] = Inr answer
           \<and> parseTapAnswer answer = Inr (host, q1, host, q2)
           \<and> extractAudioCodecs answer = extractAudioCodecs offer"
proof -
  obtain f r m where e: "extractAudioCodecs offer = Inr (f, r, m)" using tap.built [OF assms(2)] .
  note shape = extractAudioCodecs_shape [OF e]
  from e obtain a where b: "buildTapOffer offer host q1 q2 = Inr a"
    and a: "a = crlf_lines (session_head host @ audio_block host (itoa q1) f r m ''a=recvonly''
                            @ audio_block host (itoa q2) f r m ''a=recvonly'')"
    by (simp add: tap.builds)
  show ?thesis
    using b tap.keeps_codecs [OF assms(3) b] two_blocks_read [OF assms(3) shape(3,1,2) assms(4,5)]
    by (simp add: buildAnswer_tap [OF assms(1,2) b] a)
qed

section \<open>Reading a recording back\<close>

unbundle bit_operations_syntax

text \<open>A reader of the rtpdump format, written from the format's description alone: the text line, the
  sixteen bytes, then records of an eight-byte header and a packet.\<close>

definition get16 :: "bytes \<Rightarrow> 16 word" where
  "get16 bs = push_bit 8 (ucast (bs ! 0)) OR ucast (bs ! 1)"

definition get32 :: "bytes \<Rightarrow> 32 word" where
  "get32 bs = push_bit 24 (ucast (bs ! 0)) OR push_bit 16 (ucast (bs ! 1)) OR push_bit 8 (ucast (bs ! 2)) OR ucast (bs ! 3)"

fun readRecords :: "bytes \<Rightarrow> (32 word \<times> bytes) list option" where
  "readRecords bs =
     (if bs = [] then Some []
      else if length bs < 8 then None
      else let n = unat (get16 (drop 2 bs)) in
        if get16 bs \<noteq> get16 (drop 2 bs) + 8 \<or> length bs < 8 + n then None
        else map_option (\<lambda>rs. (get32 (drop 4 bs), take n (drop 8 bs)) # rs) (readRecords (drop (8 + n) bs)))"

declare readRecords.simps [simp del]

record Dump =
  dSec :: "32 word"
  dUsec :: "32 word"
  dAddr :: bytes
  dPort :: "16 word"
  dPackets :: "(32 word \<times> bytes) list"

definition readDump :: "bytes \<Rightarrow> (bytes \<times> Dump) option" where
  "readDump bs =
     (let body = drop 1 (dropWhile (\<lambda>b. b \<noteq> 0x0A) bs) in
      if length body < 16 then None
      else map_option (\<lambda>rs. (takeWhile (\<lambda>b. b \<noteq> 0x0A) bs,
          \<lparr>dSec = get32 body, dUsec = get32 (drop 4 body), dAddr = take 4 (drop 8 body),
           dPort = get16 (drop 12 body), dPackets = rs\<rparr>)) (readRecords (drop 16 body)))"

lemma get16_put [simp]: "get16 (put16 v @ bs) = v"
  unfolding get16_def put16_def by (rule bit_word_eqI) (auto simp: bit_simps)

lemma get32_put [simp]: "get32 (put32 v @ bs) = v"
proof (rule bit_word_eqI)
  fix n :: nat
  assume "n < LENGTH(32)"
  then show "bit (get32 (put32 v @ bs)) n = bit v n"
    unfolding get32_def put32_def
    by (cases "n < 8"; cases "n < 16"; cases "n < 24") (auto simp: bit_simps)
qed

lemma length_put [simp]: "length (put16 v) = 2" "length (put32 w) = 4"
  by (simp_all add: put16_def put32_def)

lemma put_nonempty [simp]: "put16 v \<noteq> []" "put32 w \<noteq> []"
  by (simp_all add: put16_def put32_def)

lemma drop_put [simp]:
  "drop 2 (put16 v @ bs) = bs" "drop 4 (put32 w @ bs) = bs"
  by (simp_all add: put16_def put32_def)

text \<open>A packet of at most 1500 bytes does not wrap the sixteen-bit lengths.\<close>

lemma readRecords_record:
  assumes "length pkt \<le> 1500"
  shows "readRecords (rtpdumpRecord pkt off @ bs) = map_option (Cons (off, pkt)) (readRecords bs)"
proof -
  have n: "unat (word_of_nat (length pkt) :: 16 word) = length pkt"
    using assms by (simp add: unat_of_nat)
  have d: "drop 4 (put16 a @ put16 b @ ys) = ys" "drop 8 (put16 a @ put16 b @ put32 c @ ys) = ys"
    for a b c ys
    by (simp_all add: put16_def put32_def)
  then have dk: "drop (8 + k) (put16 a @ put16 b @ put32 c @ ys) = drop k ys" for a b c ys k
    by (metis drop_drop add.commute)
  show ?thesis
    by (subst readRecords.simps) (simp add: rtpdumpRecord_def Let_def n d dk del: add_2_eq_Suc add_2_eq_Suc')
qed


lemma of_char_byte: "(of_char c :: 8 word) = of_char d \<longleftrightarrow> c = d"
proof -
  have u: "unat (of_char e :: 8 word) = of_char e" for e
    using unat_of_nat [of "of_char e :: nat", where 'a = 8] by (simp add: of_nat_of_char)
  show ?thesis by (metis u of_char_eq_iff)
qed


lemma bytesOf_no_NL: "NL \<notin> set s \<Longrightarrow> 0x0A \<notin> set (bytesOf s)"
proof
  assume s: "NL \<notin> set s" and "0x0A \<in> set (bytesOf s)"
  then obtain c where c: "c \<in> set s" "0x0A = (of_char c :: 8 word)" by (auto simp: bytesOf_def)
  moreover have "of_char NL = (0x0A :: 8 word)" by (simp add: of_char_def)
  ultimately show False using s of_char_byte by metis
qed

text \<open>The address field: the four bytes of an IPv4 literal, else zeros.\<close>

definition headerAddr :: "string \<Rightarrow> bytes" where
  "headerAddr src = (case Option.bind (ParseIP src) To4 of None \<Rightarrow> [0, 0, 0, 0] | Some ip \<Rightarrow> ip)"

lemma headerAddr_length: "length (headerAddr src) = 4"
  by (auto simp: headerAddr_def bind_eq_Some_conv To4_length split: option.splits)

lemma up_to_first:
  assumes "x \<notin> set p"
  shows "takeWhile (\<lambda>b. b \<noteq> x) (p @ x # body) = p" "dropWhile (\<lambda>b. b \<noteq> x) (p @ x # body) = x # body"
  using assms by (induction p) auto

lemma readDump_header:
  assumes "NL \<notin> set src"
  shows "readDump (rtpdumpFileHeader src port sec usec @ recs)
       = map_option (\<lambda>rs. (bytesOf (''#!rtpplay1.0 '' @ src @ ''/'' @ itoa (uint port)),
           \<lparr>dSec = sec, dUsec = usec, dAddr = headerAddr src, dPort = port, dPackets = rs\<rparr>)) (readRecords recs)"
proof -
  define p where "p = bytesOf (''#!rtpplay1.0 '' @ src @ ''/'' @ itoa (uint port))"
  define body where "body = put32 sec @ put32 usec @ headerAddr src @ put16 port @ put16 0 @ recs"
  have "NL \<notin> set (itoa (uint port))" using word_ok_line_ok [OF itoa_word_ok] unfolding line_ok_def by blast
  then have "NL \<notin> set (''#!rtpplay1.0 '' @ src @ ''/'' @ itoa (uint port))" using assms by simp
  then have "0x0A \<notin> set p" unfolding p_def by (rule bytesOf_no_NL)
  note p = up_to_first [OF this]
  have f: "rtpdumpFileHeader src port sec usec @ recs = p @ 0x0A # body"
    by (simp add: rtpdumpFileHeader_def p_def body_def headerAddr_def)
  have l: "length body = 16 + length recs" by (simp add: body_def headerAddr_length)
  have d: "drop 4 body = put32 usec @ headerAddr src @ put16 port @ put16 0 @ recs"
    "drop 8 body = headerAddr src @ put16 port @ put16 0 @ recs"
    "drop 12 body = put16 port @ put16 0 @ recs" "drop 16 body = recs"
    by (simp_all add: body_def headerAddr_length)
  show ?thesis
    unfolding readDump_def f Let_def p p_def [symmetric] by (simp add: l d headerAddr_length) (simp add: body_def)
qed

lemma recordLoop_append: "recordLoop reads (file @ rest) = file @ recordLoop reads rest"
  by (induction reads arbitrary: rest) auto

lemma readRecords_loop:
  "readRecords (recordLoop reads [])
   = Some (map (\<lambda>(pkt, off, _). (off, take 1500 pkt)) (takeWhile (\<lambda>(_, _, written). written) reads))"
proof (induction reads)
  case Nil
  show ?case by (simp add: readRecords.simps)
next
  case (Cons r reads)
  obtain pkt off written where r: "r = (pkt, off, written)" by (cases r)
  show ?case using Cons.IH recordLoop_append [of reads "rtpdumpRecord (take 1500 pkt) off" "[]"]
    by (simp add: r readRecords_record) (simp add: readRecords.simps)
qed

text \<open>C38: A recording reads back: a reader that knows only the rtpdump format finds in the file the
  start time, the address and the port of its header, and exactly the packets that were received
  until a write failed, in order, each with its time and cut at 1500 bytes.\<close>

theorem recording_reads_back:
  assumes "NL \<notin> set src"
  shows "readDump (recordLoop reads (rtpdumpFileHeader src port sec usec))
       = Some (bytesOf (''#!rtpplay1.0 '' @ src @ ''/'' @ itoa (uint port)),
           \<lparr>dSec = sec, dUsec = usec, dAddr = headerAddr src, dPort = port,
            dPackets = map (\<lambda>(pkt, off, _). (off, take 1500 pkt)) (takeWhile (\<lambda>(_, _, written). written) reads)\<rparr>)"
  using recordLoop_append [of reads "rtpdumpFileHeader src port sec usec" "[]"]
  by (simp add: readDump_header [OF assms] readRecords_loop)


section \<open>The sockets of the calls\<close>

definition heldSockets :: "RecWorld \<Rightarrow> nat list" where
  "heldSockets w = concat (map snd (rwSessions w))"

text \<open>The open sockets are those of the registered calls, and no socket is in two calls.\<close>

definition accounted :: "RecWorld \<Rightarrow> bool" where
  "accounted w = (distinct (map fst (rwSessions w)) \<and> distinct (heldSockets w)
     \<and> set (heldSockets w) = set (rwOpen w) \<and> (\<forall>s \<in> set (rwOpen w). s < rwNext w))"

lemma keys_filtered: "distinct (map fst ss) \<Longrightarrow> distinct (map fst (filter P ss))"
  by (induction ss) auto

lemma held_mem: "map_of ss cid = Some cs \<Longrightarrow> set cs \<subseteq> set (concat (map snd ss))"
  by (force dest: map_of_SomeD)

lemma without_absent: "cid \<notin> fst ` set ss \<Longrightarrow> filter (\<lambda>(k, _). k \<noteq> cid) ss = ss"
  by (induction ss) auto

lemma held_without:
  assumes "distinct (concat (map snd ss))" "distinct (map fst ss)" "map_of ss cid = Some cs"
  shows "set (concat (map snd (filter (\<lambda>(k, _). k \<noteq> cid) ss))) = set (concat (map snd ss)) - set cs
       \<and> distinct (concat (map snd (filter (\<lambda>(k, _). k \<noteq> cid) ss)))"
  using assms
proof (induction ss)
  case (Cons x ss)
  obtain k c where x: "x = (k, c)" by (cases x)
  show ?case
  proof (cases "k = cid")
    case True
    then show ?thesis using Cons.prems by (auto simp: x without_absent)
  next
    case False
    then have m: "map_of ss cid = Some cs" using Cons.prems by (simp add: x)
    have IH: "set (concat (map snd (filter (\<lambda>(k, _). k \<noteq> cid) ss))) = set (concat (map snd ss)) - set cs"
      "distinct (concat (map snd (filter (\<lambda>(k, _). k \<noteq> cid) ss)))"
      using Cons.IH Cons.prems(1,2) m by (simp_all add: x)
    moreover have "set c \<inter> set (concat (map snd ss)) = {}" using Cons.prems(1) by (simp add: x)
    ultimately show ?thesis using False Cons.prems held_mem [OF m]
      by (simp add: x del: set_concat) blast
  qed
qed simp

lemma terminate_accounted:
  assumes "accounted w"
  shows "accounted (recTerminate cid w)"
    and "fst ` set (rwSessions (recTerminate cid w)) = fst ` set (rwSessions w) - {cid}"
    and "rwNext (recTerminate cid w) = rwNext w"
proof -
  show "fst ` set (rwSessions (recTerminate cid w)) = fst ` set (rwSessions w) - {cid}"
    by (auto simp: recTerminate_def closeConns_def Let_def split: option.splits)
  show "rwNext (recTerminate cid w) = rwNext w"
    by (simp add: recTerminate_def closeConns_def Let_def split: option.splits)
  show "accounted (recTerminate cid w)"
  proof (cases "map_of (rwSessions w) cid")
    case None
    then have "cid \<notin> fst ` set (rwSessions w)" by (simp add: map_of_eq_None_iff)
    then show ?thesis using assms None by (simp add: recTerminate_def without_absent)
  next
    case (Some cs)
    then show ?thesis
      using assms held_without [of "rwSessions w" cid cs] keys_filtered [of "rwSessions w"]
      by (auto simp: recTerminate_def closeConns_def accounted_def heldSockets_def simp del: set_concat)
  qed
qed


lemma terminate_all:
  "accounted w \<Longrightarrow> accounted (fold recTerminate ids w)
     \<and> fst ` set (rwSessions (fold recTerminate ids w)) = fst ` set (rwSessions w) - set ids
     \<and> rwNext (fold recTerminate ids w) = rwNext w"
proof (induction ids arbitrary: w)
  case (Cons i ids)
  show ?case using Cons.IH [OF terminate_accounted(1) [OF Cons.prems]] terminate_accounted(2,3) [OF Cons.prems]
    by auto
qed simp

text \<open>The sockets of one call are fresh ones; a failure closes those that did open.\<close>

lemma bindAll_some:
  "bindAll R i n conns ports w = (Some (cs, ps), w') \<Longrightarrow>
     cs = conns @ [rwNext w..<rwNext w + n] \<and> length ps = length ports + n
     \<and> w' = w\<lparr>rwOpen := rev [rwNext w..<rwNext w + n] @ rwOpen w, rwNext := rwNext w + n\<rparr>"
proof (induction R i n conns ports w rule: bindAll.induct)
  case (2 R i n conns ports w)
  then show ?case by (auto split: option.splits simp: upt_rec [of "rwNext w"])
qed simp

lemma bindAll_none:
  "bindAll R i n conns ports w = (None, w') \<Longrightarrow> \<forall>s \<in> set (rwOpen w). s < rwNext w \<Longrightarrow>
     rwSessions w' = rwSessions w \<and> set (rwOpen w') = set (rwOpen w) - set conns \<and> rwNext w \<le> rwNext w'"
proof (induction R i n conns ports w rule: bindAll.induct)
  case (2 R i n conns ports w)
  show ?case
  proof (cases "bindPort R i")
    case None
    then show ?thesis using 2(2) by (auto simp: recRespond_def closeConns_def)
  next
    case (Some p)
    show ?thesis using 2(1) [OF Some] 2(2,3) by (fastforce simp: Some)
  qed
qed simp

lemma respond_same [simp]:
  "rwOpen (recRespond st b w) = rwOpen w" "rwNext (recRespond st b w) = rwNext w"
  "rwSessions (recRespond st b w) = rwSessions w" "heldSockets (recRespond st b w) = heldSockets w"
  by (simp_all add: recRespond_def heldSockets_def)

lemma openFiles_same [simp]:
  "rwOpen (openFiles R C dir ports w) = rwOpen w" "rwNext (openFiles R C dir ports w) = rwNext w"
  "rwSessions (openFiles R C dir ports w) = rwSessions w"
proof -
  have "rwOpen (fold (\<lambda>i w. if createOk R i then w\<lparr>rwFiles := F i # rwFiles w\<rparr> else w) is w) = rwOpen w
      \<and> rwNext (fold (\<lambda>i w. if createOk R i then w\<lparr>rwFiles := F i # rwFiles w\<rparr> else w) is w) = rwNext w
      \<and> rwSessions (fold (\<lambda>i w. if createOk R i then w\<lparr>rwFiles := F i # rwFiles w\<rparr> else w) is w) = rwSessions w"
    for F "is"
    by (induction "is" arbitrary: w) simp_all
  then show "rwOpen (openFiles R C dir ports w) = rwOpen w" "rwNext (openFiles R C dir ports w) = rwNext w"
    "rwSessions (openFiles R C dir ports w) = rwSessions w"
    by (simp_all add: openFiles_def)
qed

text \<open>Between the binding and the end of a set-up the call's own sockets are open and in no call.\<close>

definition pendingConns :: "nat list \<Rightarrow> RecWorld \<Rightarrow> bool" where
  "pendingConns cs w = (distinct (map fst (rwSessions w)) \<and> distinct (cs @ heldSockets w)
     \<and> set (rwOpen w) = set cs \<union> set (heldSockets w) \<and> (\<forall>s \<in> set (rwOpen w). s < rwNext w))"

lemma pending_bound:
  assumes "accounted w" "bindAll R 0 n [] [] w = (Some (cs, ps), w')"
  shows "pendingConns cs w'" "rwSessions w' = rwSessions w"
  using assms(1) bindAll_some [OF assms(2)]
  by (auto simp: accounted_def pendingConns_def heldSockets_def)

lemma pending_closed: "pendingConns cs w \<Longrightarrow> accounted (closeConns cs w)"
  by (auto simp: pendingConns_def accounted_def closeConns_def heldSockets_def)

lemma pending_respond: "pendingConns cs (recRespond st b w) = pendingConns cs w"
  by (simp add: pendingConns_def)

lemma pending_added:
  assumes "pendingConns cs w" "cid \<notin> fst ` set (rwSessions w)"
  shows "accounted (recAdd cid cs w)"
  using assms by (auto simp: pendingConns_def accounted_def recAdd_def heldSockets_def without_absent)

lemma pending_terminate:
  assumes "pendingConns cs w"
  shows "pendingConns cs (recTerminate cid w)"
    and "fst ` set (rwSessions (recTerminate cid w)) \<subseteq> fst ` set (rwSessions w)"
proof -
  show "fst ` set (rwSessions (recTerminate cid w)) \<subseteq> fst ` set (rwSessions w)"
    by (auto simp: recTerminate_def closeConns_def Let_def split: option.splits)
  show "pendingConns cs (recTerminate cid w)"
  proof (cases "map_of (rwSessions w) cid")
    case None
    then have "cid \<notin> fst ` set (rwSessions w)" by (simp add: map_of_eq_None_iff)
    then show ?thesis using assms None by (simp add: recTerminate_def without_absent)
  next
    case (Some ds)
    have "set ds \<subseteq> set (heldSockets w)" using held_mem [OF Some] by (simp add: heldSockets_def)
    then show ?thesis
      using assms Some held_without [of "rwSessions w" cid ds] keys_filtered [of "rwSessions w"]
      by (auto simp: recTerminate_def closeConns_def pendingConns_def heldSockets_def simp del: set_concat)
  qed
qed

lemma pending_byes:
  "pendingConns cs w \<Longrightarrow> pendingConns cs (fold recTerminate ids w)
     \<and> fst ` set (rwSessions (fold recTerminate ids w)) \<subseteq> fst ` set (rwSessions w)"
proof (induction ids arbitrary: w)
  case (Cons i ids)
  show ?case using Cons.IH [OF pending_terminate(1) [OF Cons.prems]] pending_terminate(2) [OF Cons.prems, of i]
    unfolding fold.simps comp_apply by blast
qed simp


lemma accounted_same [simp]:
  "accounted (recRespond st b w) = accounted w" "accounted (openFiles R C dir ports w) = accounted w"
  by (simp_all add: accounted_def heldSockets_def)

lemma invite_accounted:
  assumes "accounted w" "rqCallID q \<notin> fst ` set (rwSessions w)"
  shows "accounted (recInvite R C q w)"
proof (cases "parseOffer (rqBody q)")
  case (Inl e)
  then show ?thesis using assms(1) by (simp add: recInvite_def accounted_def)
next
  case (Inr streams)
  show ?thesis
  proof (cases "bindAll R 0 (length streams) [] [] w")
    case (Pair r w1)
    show ?thesis
    proof (cases r)
      case None
      have "\<forall>s \<in> set (rwOpen w). s < rwNext w" using assms(1) by (simp add: accounted_def)
      from bindAll_none [OF Pair [unfolded None] this] show ?thesis
        using assms(1) by (auto simp: recInvite_def Inr Pair None accounted_def heldSockets_def)
    next
      case (Some x)
      obtain cs ps where r: "r = Some (cs, ps)" using Some by (cases x) simp
      note pend = pending_bound [OF assms(1) Pair [unfolded r]]
      have pend2: "pendingConns cs (recRespond st b w1)" for st b using pend(1) by (simp add: pending_respond)
      note byes = pending_byes [OF pend2]
      have "rqCallID q \<notin> fst ` set (rwSessions (fold recTerminate ids (recRespond st b w1)))" for ids st b
        using byes [of ids st b] assms(2) pend(2) by auto
      with byes have "accounted (recAdd (rqCallID q) cs (fold recTerminate ids (recRespond st b w1)))" for ids st b
        by (blast intro: pending_added)
      then show ?thesis
        using pend(1) byes
        by (simp add: recInvite_def Inr Pair r Let_def pending_closed split: sum.split)
    qed
  qed
qed

definition idleRecorder :: RecWorld where
  "idleRecorder = \<lparr>rwOpen = [], rwNext = 0, rwSessions = [], rwFiles = [], rwAnswers = []\<rparr>"

section \<open>Runs\<close>

definition sampleRecConfig :: RecConfig where
  "sampleRecConfig = \<lparr>rcListen = ''0.0.0.0:5070'', rcDir = ''recordings'', rcMediaHost = ''198.51.100.7''\<rparr>"

definition sampleRecEnv :: RecEnv where
  "sampleRecEnv = \<lparr>bindPort = (\<lambda>i. Some (30000 + int i)), readInviteOk = True, respondOkRec = True, mkdirOk = True,
     createOk = (\<lambda>i. True), writeOk = (\<lambda>i. True), startSecs = 1700000000, startUsecs = 250000, byesMeanwhile = []\<rparr>"

definition sampleRecCall :: "string \<Rightarrow> RecRequest" where
  "sampleRecCall cid = \<lparr>rqCallID = cid, rqSequencerID = None,
     rqBody = ''m=audio 1 RTP/AVP 0'' @ CRLF @ ''m=audio 2 RTP/AVP 0'' @ CRLF\<rparr>"

lemma recorder_answer_feeds_taps_witness:
  "\<exists>answer. buildAnswer (the_ok (buildTapOffer sampleOffer sampleHost 20000 20002)) ''198.51.100.7'' [30000, 30001] = Inr answer
     \<and> parseTapAnswer answer = Inr (''198.51.100.7'', 30000, ''198.51.100.7'', 30001)
     \<and> extractAudioCodecs answer = extractAudioCodecs sampleOffer"
  by (rule recorder_answer_feeds_taps [OF sample_facts(1) sample_tap])
     (simp_all add: line_ok_def hasSuffixCR_def int64_ok_def)

lemma recording_reads_back_witness:
  "readDump (recordLoop [([1, 2, 3], 20, True), ([4], 40, False), ([5], 60, True)]
       (rtpdumpFileHeader ''198.51.100.7'' 30000 1700000000 250000))
   = Some (bytesOf (''#!rtpplay1.0 '' @ ''198.51.100.7'' @ ''/'' @ itoa (uint (30000 :: 16 word))),
       \<lparr>dSec = 1700000000, dUsec = 250000, dAddr = headerAddr ''198.51.100.7'', dPort = 30000,
        dPackets = [(20, [1, 2, 3])]\<rparr>)"
  by (subst recording_reads_back) simp_all

text \<open>A BYE that another goroutine handles between the 200 and the registration finds no call: the call is
  registered afterwards, its sockets stay open and no further BYE will come for it.\<close>

theorem early_bye_leaves_sockets_open:
  "let w = recInvite (sampleRecEnv\<lparr>byesMeanwhile := [''call-1'']\<rparr>) sampleRecConfig (sampleRecCall ''call-1'') idleRecorder
   in rwSessions w = [(''call-1'', [0, 1])] \<and> rwOpen w = [1, 0] \<and> map fst (rwAnswers w) = [200]"
  by code_simp

text \<open>Two dots pass the name's sanitising: the recordings of such a call are written beside the root folder.\<close>

theorem dots_escape_the_recordings_folder:
  "recordDir sampleRecConfig \<lparr>rqCallID = ''call-1'', rqSequencerID = Some '' .. '', rqBody = []\<rparr> = ''.''"
  by code_simp

end
