(* ===== verification/RecServe.thy ===== *)
theory RecServe
  imports RecorderProps
begin

text \<open>
  The recording application as a server, Serve of applications/recording/recorder/record.go and the command in
  applications/recording/main.go: its start, the handlers it registers, the wait at the end of an INVITE, and
  its shutdown. A run is the list of what reaches it.
\<close>

section \<open>Start\<close>

record RecLaunch =
  raUA :: bool
  raServer :: bool
  raClient :: bool
  raListen :: "string \<Rightarrow> bool"

datatype serve_failure = RecorderUA | RecorderServer | RecorderClient | RecorderListen string | ServeEnded string

text \<open>The number strconv.Atoi returns beside an error: 0, or the nearest int64 when the digits are too many.\<close>

definition AtoiValue :: "string \<Rightarrow> int" where
  "AtoiValue s = (case atoi s of
       Some v \<Rightarrow> v
     | None \<Rightarrow>
         (let neg = (s \<noteq> [] \<and> hd s = CHR ''-'');
              ds = (if s \<noteq> [] \<and> (hd s = CHR ''-'' \<or> hd s = CHR ''+'') then tl s else s)
          in if ds = [] \<or> \<not> list_all is_digit ds then 0 else if neg then - (2 ^ 63) else 2 ^ 63 - 1))"

text \<open>The address in the Contact of its answers: a wildcard host is replaced by the media host.\<close>

definition contactOf :: "RecConfig \<Rightarrow> string \<times> int" where
  "contactOf C = (let (listenHost, portStr) = (case SplitHostPort (rcListen C) of None \<Rightarrow> ([], []) | Some hp \<Rightarrow> hp) in
     ((if listenHost = [] \<or> listenHost = ''0.0.0.0'' then rcMediaHost C else listenHost), AtoiValue portStr))"

record RecServer =
  rsContact :: "string \<times> int"
  rsListening :: bool
  rsWorld :: RecWorld

definition ServeStart :: "RecLaunch \<Rightarrow> RecConfig \<Rightarrow> serve_failure + RecServer" where
  "ServeStart A C =
     (if \<not> raUA A then Inl RecorderUA
      else if \<not> raServer A then Inl RecorderServer
      else if \<not> raClient A then Inl RecorderClient
      else if \<not> raListen A (rcListen C) then Inl (RecorderListen (rcListen C))
      else Inr \<lparr>rsContact = contactOf C, rsListening = True, rsWorld = idleRecorder\<rparr>)"

section \<open>Requests\<close>

text \<open>What a handler waits for after its call is set up: states of the dialog, or the end of the
  transaction. The library's states are ordered; the handler returns at the confirmed one or after.\<close>

datatype WaitEvent = DialogState int | TransactionDone

fun awaitConfirmed :: "int \<Rightarrow> WaitEvent list \<Rightarrow> bool" where
  "awaitConfirmed confirmed [] = False"
| "awaitConfirmed confirmed (DialogState s # evs) = (s \<ge> confirmed \<or> awaitConfirmed confirmed evs)"
| "awaitConfirmed confirmed (TransactionDone # evs) = True"

text \<open>An ACK goes to the dialog cache only. A shutdown closes every call of the registry's snapshot, in some
  order, and then the listener.\<close>

datatype ServeEvent = GotInvite RecEnv RecRequest | GotAck | GotBye string | GotCancel | CtxEnds "string list"

fun serveStep :: "RecConfig \<Rightarrow> ServeEvent \<Rightarrow> RecServer \<Rightarrow> RecServer" where
  "serveStep C (GotInvite R q) s = s\<lparr>rsWorld := recInvite R C q (rsWorld s)\<rparr>"
| "serveStep C GotAck s = s"
| "serveStep C (GotBye cid) s = s\<lparr>rsWorld := recBye cid (rsWorld s)\<rparr>"
| "serveStep C GotCancel s = s\<lparr>rsWorld := recRespond 200 [] (rsWorld s)\<rparr>"
| "serveStep C (CtxEnds ids) s = s\<lparr>rsWorld := recCloseAll ids (rsWorld s), rsListening := False\<rparr>"

definition serveRun :: "RecConfig \<Rightarrow> ServeEvent list \<Rightarrow> RecServer \<Rightarrow> RecServer" where
  "serveRun C es s = fold (serveStep C) es s"

section \<open>The command\<close>

record RecFlags =
  rfListen :: "string option"
  rfDir :: "string option"
  rfMediaHost :: "string option"

definition recConfig :: "RecFlags \<Rightarrow> RecConfig" where
  "recConfig F = \<lparr>rcListen = (case rfListen F of None \<Rightarrow> ''0.0.0.0:5070'' | Some v \<Rightarrow> v),
     rcDir = (case rfDir F of None \<Rightarrow> ''recordings'' | Some v \<Rightarrow> v),
     rcMediaHost = (case rfMediaHost F of None \<Rightarrow> ''127.0.0.1'' | Some v \<Rightarrow> v)\<rparr>"

text \<open>The exit status; \<open>ended\<close> is the error ServeTCP returns, if any, when its listener is closed.\<close>

definition main_recorder :: "RecFlags \<Rightarrow> RecLaunch \<Rightarrow> string option \<Rightarrow> nat \<times> serve_failure list" where
  "main_recorder F A ended = (case ServeStart A (recConfig F) of
       Inl e \<Rightarrow> (1, [e])
     | Inr _ \<Rightarrow> (case ended of None \<Rightarrow> (0, []) | Some err \<Rightarrow> (1, [ServeEnded err])))"

section \<open>Runs\<close>

text \<open>No INVITE carries the Call-ID of a call that is being recorded, and a shutdown names the calls there
  are.\<close>

fun orderly :: "RecConfig \<Rightarrow> ServeEvent list \<Rightarrow> RecServer \<Rightarrow> bool" where
  "orderly C [] s = True"
| "orderly C (e # es) s =
     ((case e of
         GotInvite R q \<Rightarrow> rqCallID q \<notin> fst ` set (rwSessions (rsWorld s))
       | CtxEnds ids \<Rightarrow> set ids = fst ` set (rwSessions (rsWorld s))
       | _ \<Rightarrow> True)
      \<and> orderly C es (serveStep C e s))"

lemma closeAll_accounted:
  assumes "accounted w" "set ids = fst ` set (rwSessions w)"
  shows "accounted (recCloseAll ids w) \<and> rwSessions (recCloseAll ids w) = [] \<and> rwOpen (recCloseAll ids w) = []"
proof -
  from terminate_all [OF assms(1), of ids] assms(2) have a: "accounted (recCloseAll ids w)" "rwSessions (recCloseAll ids w) = []"
    by (auto simp: recCloseAll_def)
  then have "rwOpen (recCloseAll ids w) = []" by (simp add: accounted_def heldSockets_def)
  with a show ?thesis by simp
qed

lemma serveStep_accounted:
  assumes "accounted (rsWorld s)" "orderly C [e] s"
  shows "accounted (rsWorld (serveStep C e s)) \<and> (\<forall>ids. e = CtxEnds ids \<longrightarrow> rwOpen (rsWorld (serveStep C e s)) = []
     \<and> rwSessions (rsWorld (serveStep C e s)) = [] \<and> \<not> rsListening (serveStep C e s))"
  using assms by (cases e) (simp_all add: invite_accounted recBye_def terminate_accounted(1) closeAll_accounted)

lemma orderly_append: "orderly C (es @ es') s \<longleftrightarrow> orderly C es s \<and> orderly C es' (serveRun C es s)"
  by (induction es arbitrary: s) (auto simp: serveRun_def)

lemma serveRun_accounted: "accounted (rsWorld s) \<Longrightarrow> orderly C es s \<Longrightarrow> accounted (rsWorld (serveRun C es s))"
proof (induction es arbitrary: s)
  case (Cons e es)
  have "accounted (rsWorld (serveStep C e s))" using serveStep_accounted [of s C e] Cons.prems by simp
  with Cons show ?case by (simp add: serveRun_def)
qed (simp add: serveRun_def)

lemma awaitConfirmed_iff:
  "awaitConfirmed confirmed evs \<longleftrightarrow> TransactionDone \<in> set evs \<or> (\<exists>s. DialogState s \<in> set evs \<and> confirmed \<le> s)"
  by (induction confirmed evs rule: awaitConfirmed.induct) auto

section \<open>Properties\<close>

text \<open>C39: The recorder leaks no socket while Call-IDs are not reused: after any run of INVITEs, failing
  anywhere, ACKs, BYEs and CANCELs, the open sockets are exactly those of the registered calls and no two calls
  share one; its shutdown leaves no socket open, no call registered and no listener.\<close>

theorem recorder_stops_clean:
  assumes "ServeStart A C = Inr s0" "orderly C (es @ [CtxEnds ids]) s0"
  shows "set (rwOpen (rsWorld (serveRun C es s0))) = set (heldSockets (rsWorld (serveRun C es s0)))
     \<and> distinct (heldSockets (rsWorld (serveRun C es s0)))
     \<and> rwOpen (rsWorld (serveRun C (es @ [CtxEnds ids]) s0)) = []
     \<and> rwSessions (rsWorld (serveRun C (es @ [CtxEnds ids]) s0)) = []
     \<and> \<not> rsListening (serveRun C (es @ [CtxEnds ids]) s0)"
proof -
  have "rsWorld s0 = idleRecorder" using assms(1) by (auto simp: ServeStart_def split: if_splits)
  then have "accounted (rsWorld s0)" by (simp add: accounted_def idleRecorder_def heldSockets_def)
  then have a: "accounted (rsWorld (serveRun C es s0))"
    using assms(2) by (intro serveRun_accounted) (simp_all add: orderly_append)
  have "orderly C [CtxEnds ids] (serveRun C es s0)" using assms(2) by (simp add: orderly_append)
  from serveStep_accounted [OF a this] a show ?thesis
    by (simp add: serveRun_def accounted_def del: serveStep.simps)
qed

theorem recorder_stops_clean_witness:
  "\<exists>s0. ServeStart \<lparr>raUA = True, raServer = True, raClient = True, raListen = (\<lambda>_. True)\<rparr> sampleRecConfig = Inr s0
     \<and> rsContact s0 = (''198.51.100.7'', 5070)
     \<and> rwOpen (rsWorld (serveRun sampleRecConfig
          [GotInvite sampleRecEnv (sampleRecCall ''call-1''), GotAck,
           GotInvite (sampleRecEnv\<lparr>mkdirOk := False\<rparr>) (sampleRecCall ''call-3''), GotCancel, CtxEnds [''call-1'']] s0)) = []"
proof -
  let ?A = "\<lparr>raUA = True, raServer = True, raClient = True, raListen = (\<lambda>_. True)\<rparr>"
  let ?s0 = "\<lparr>rsContact = contactOf sampleRecConfig, rsListening = True, rsWorld = idleRecorder\<rparr>"
  let ?es = "[GotInvite sampleRecEnv (sampleRecCall ''call-1''), GotAck,
       GotInvite (sampleRecEnv\<lparr>mkdirOk := False\<rparr>) (sampleRecCall ''call-3''), GotCancel]"
  have s: "ServeStart ?A sampleRecConfig = Inr ?s0" by (simp add: ServeStart_def)
  have c: "contactOf sampleRecConfig = (''198.51.100.7'', 5070)" by code_simp
  have o: "orderly sampleRecConfig (?es @ [CtxEnds [''call-1'']]) ?s0" by code_simp
  from recorder_stops_clean [OF s o] s c show ?thesis by (auto simp: c)
qed

text \<open>An INVITE with the Call-ID of a recorded call takes its entry: even the shutdown leaves the first
  one's sockets open.\<close>

theorem reused_call_id_leaves_sockets_open:
  "rwOpen (rsWorld (serveRun sampleRecConfig
     (replicate 2 (GotInvite sampleRecEnv (sampleRecCall ''call-1'')) @ [CtxEnds [''call-1'']])
     \<lparr>rsContact = contactOf sampleRecConfig, rsListening = True, rsWorld = idleRecorder\<rparr>)) = [1, 0]"
  by code_simp

end
