(* ===== verification/Spec2Isabelle.thy ===== *)
theory Spec2Isabelle
  imports SdpProps PoolSpec Relay ConfigProps CallProps ProxyProps Lifecycle TlsProps Dialogs Command RecServe
begin

text \<open>
  A verification development of the voipstack SIP sequencer, a back-to-back user agent in Go. For
  each incoming call it dials a configured sequence of SIP applications, each of which may get a copy
  of the media (a tap), then the next hop (the PBX), and relays the media between the two sides.

  The program's parts and the theories that model them. A definition has the name of the Go function,
  method or type it translates, unless that name is taken in HOL.

  \<^item> Base: \<open>SeqPrelude\<close> (weakest preconditions for the state monad, generic lemmas), \<open>GoStrings\<close>,
    \<open>GoNet\<close> and \<open>GoTime\<close> (what the code uses of the standard library: strings, strconv, net, time). A Go
    string is the list of its bytes. Durations and ports are integers with the checks of their parsers;
    Max-Forwards is a 32-bit word, transport codes and address bytes are 8-bit words.
  \<^item> Configuration, internal/config: \<open>Config\<close>; from the decoded YAML value on, with every validation,
    default and resolution. \<open>ConfigProps\<close>: an accepted configuration is complete and consistently
    wired, and a routing rule means the conjunction of its fields.
  \<^item> SDP, internal/b2bua/sdp.go: \<open>Sdp\<close>; each scan of a body is a recursion over its lines with the Go
    loop's variables as accumulators. \<open>SdpProps\<close>: round trips of the built offers, what they keep of the
    caller's codecs, and the anchoring rewrite line by line. The builders share the locale
    \<open>offer_builder\<close>.
  \<^item> Media, internal/b2bua/media.go, mediasec.go: \<open>Media\<close>; the port allocator, sides, taps, session, idle
    clock and copy loops. \<open>MediaProps\<close>: exclusive pairs, closing, delivery in order. \<open>PoolSpec\<close>: the
    allocator refines an abstract pool of the range's pairs. \<open>WebRTC\<close>: the endpoint of webrtc.go behind a
    secured leg, with its gate and its sockets, and that it is what the set-up takes it for. \<open>Relay\<close>: the
    four copy loops of an established call on their goroutines, with the wait for the call's end, under any
    schedule of their reads and writes, of re-anchorings and of the closing; each direction behaves as its
    copy loop by itself, undisturbed by the others, all end with the call, and a sweep ends the calls whose
    relay has been deaf for too long.
  \<^item> Calls, internal/b2bua/state.go, call.go, registry.go, reaper.go, headers.go: \<open>Headers\<close> and \<open>CallWorld\<close>;
    a call is an entry of the world's list, referred to by its place as the code refers to it by a pointer.
  \<^item> Set-up of a call, internal/b2bua/bridge.go: \<open>Bridge\<close>, in the state monad over the world, every early
    return included. \<open>Accounting\<close> (who holds which port pair), \<open>BridgeProps\<close>, \<open>WorldInv\<close>, \<open>LegOrder\<close> and
    \<open>Established\<close> (what a call has when it is established) carry its invariants through every operation;
    \<open>SampleCall\<close> is a concrete call, \<open>CallProps\<close> holds the properties.
  \<^item> Requests that are not bridged, internal/b2bua/flowtoken.go, proxy.go, register.go: \<open>FlowToken\<close>,
    \<open>Proxy\<close>, \<open>ProxyProps\<close>; a forwarding handler is a function of the events its client transaction delivers.
  \<^item> Requests inside a call, internal/b2bua/midcall.go, refer.go, trickle.go, and the INVITE handler:
    \<open>Midcall\<close>, with \<open>MidProps\<close> and \<open>HandlerInv\<close> for what each handler answers and keeps.
  \<^item> The whole: \<open>Reach\<close> is the transition system whose steps are the handlers, the end of a dialog or leg,
    a relayed packet, a sweep and shutdown; \<open>sound\<close> (balanced port books, complete established calls,
    an index of live calls) holds in every reachable world, and \<open>ReachProps\<close> draws the properties. \<open>Lifecycle\<close>: over any run each
    call's state follows the table of state.go, and Shutdown ends the calls it finds though others go on meanwhile.
  \<^item> Metrics, internal/b2bua/metrics.go, prommetrics.go, obs.go: \<open>Metrics\<close>, the sink with its two implementations and
    what a scrape shows; \<open>MetricsProps\<close>: what a set-up reports is what it did, the counters are the counts of all
    set-ups in whatever order they report, the gauges are the live calls.
  \<^item> TLS, internal/tlsprov: \<open>Tls\<close>, \<open>TlsProps\<close>; who a built context admits against its profile's policy.
  \<^item> Start and end, internal/b2bua/engine.go and cmd/sip-sequencer/main.go: \<open>Engine\<close>. \<open>Running\<close>: the options, the observability
    server, the handler of each method, what Run starts and how it ends, Shutdown; every world a running engine
    gets into is a reachable one. \<open>Isolation\<close>: a request leaves every call it is not for as it was. \<open>Dialogs\<close>: over
    whole runs, given as lists of moves with the history of their events, an answered leg is kept by its call or hung up. \<open>Command\<close>: the
    command from its flag to its exit, with Load of internal/config.
  \<^item> The recording application, applications/recording: \<open>Recorder\<close>, \<open>RecorderProps\<close>; its answer meets the
    sequencer's tap offer, its files read back. \<open>RecServe\<close>: its start, its requests and its shutdown, which leaves no
    socket open.

  Interfaces. Each locale is interpreted on the model itself: \<open>offer_builder\<close> on the three builders; the
  port pool and the registry on the allocator and the indexes; \<open>metrics_sink\<close> on the two sinks;
  \<open>own_calm\<close>, \<open>own_inv\<close>, \<open>own_acks\<close>, \<open>own_world\<close>, \<open>own_setup\<close> and \<open>own_handler\<close>, the contracts under which an invariant of
  the world is kept by the operations of one call's set-up or handler, on a second call that is to be left alone and on
  the books of a call's legs; \<open>quiet_inv\<close>,
  \<open>inv_base\<close>, \<open>world_inv\<close>, \<open>calm_inv\<close>, \<open>setup_inv\<close> and \<open>handler_inv\<close>, the same for the set-ups and handlers of
  any call, on the leg order, the stages of a call, the keys of the indexes, the port books, the
  completeness of established calls, the reports to the sink, and the onward life of every call.

  Concurrency. A Go handler runs among other goroutines. Before each operation that takes a lock or blocks,
  the model lets the environment perform any list of interfering moves (a teardown of some call, a pair acquired or
  given back by another call) as the field \<open>interf\<close> of \<open>Env\<close> says; the properties of set-ups and handlers
  quantify over that environment. Handlers themselves follow each other: two set-ups are interleaved only as
  far as those moves describe the other one, which \<open>Isolation\<close> justifies from the other side: a handler touches
  its own call, takes free pairs and gives its own back. A walk over the registry takes the calls in any
  order; the goroutines of a relay are interleaved operation by operation. What the SIP library answers (a dialog, a response, an error) is also
  the environment's, asked at a tick, so that two calls of one function may be answered differently.

  Termination and bounds. All definitions are total. A loop that might not end is \<open>removeAll_named\<close>, a
  partial function that is proved to return under the documented behaviour of the header library; a handler
  that waits for events is given a list of them and says whether it finished or still waits. There is no fuel.

  Assumptions about other code. The SIP library's header and URI operations are parameters, with what its
  documentation says of them in \<open>sipDocumented\<close>, \<open>msgDocumented\<close> and \<open>sipBehaves\<close>; the crypto packages are
  the parameter \<open>CryptoLib\<close>; regexp compilation, YAML decoding, the clock, sockets and files are arguments.
  Each property that assumes something of them has a witness on a concrete library.

  Not modelled. Log output; the accept loops, transactions and dialogs of the SIP library, the text format of the
  metrics library and the signals that end a process, which the code only calls; the helpers of the end-to-end tests.
\<close>

end
